(* ===== verification/Go_Prelude.thy ===== *)
theory Go_Prelude
  imports Main "HOL-Library.AList"
begin

text \<open>
  Shared vocabulary of the saiki development: how a Go call ends, Go maps as
  association lists, and the lemma collections the component theories feed.

  A Go function that returns \<open>(T, error)\<close> becomes a HOL function into
  \<open>'a result\<close>; the third constructor stands for the end of the process (a panic, or
  klog's \<open>Fatal\<close>), which no caller can handle.  Stateful functions return the
  result together with the new state.  Where the Go code returns a value and an
  error at the same time, the model returns a pair of the value and an
  \<open>error option\<close>.
\<close>

section \<open>Errors and results\<close>

text \<open>
  The errors the code tells apart are the two of pkg/errors and
  \<open>filepath.SkipDir\<close>; every other error is only propagated or logged, so it is kept
  with the operation that made it.
\<close>

datatype error =
    ErrCanceled
  | ErrNotFound
  | ErrSkipDir
  | ErrMsg string
  | ErrWrap string error
  | ErrExternal string

datatype crash = Panic string | Fatal string

datatype 'a result = Ok 'a | Err error | Crash crash

definition nil_deref :: crash where
  "nil_deref = Panic ''invalid memory address or nil pointer dereference''"

definition result_bind :: "'a result \<Rightarrow> ('a \<Rightarrow> 'b result) \<Rightarrow> 'b result" where
  "result_bind r f = (case r of Ok a \<Rightarrow> f a | Err e \<Rightarrow> Err e | Crash c \<Rightarrow> Crash c)"

definition on_ok :: "'a result \<times> 's \<Rightarrow> ('a \<Rightarrow> 's \<Rightarrow> 'b result \<times> 's) \<Rightarrow> 'b result \<times> 's" where
  "on_ok r f = (case r of
     (Ok a, s) \<Rightarrow> f a s
   | (Err e, s) \<Rightarrow> (Err e, s)
   | (Crash c, s) \<Rightarrow> (Crash c, s))"

named_theorems result_simps \<open>evaluation of the result combinators\<close>

lemma result_bind_simps [simp, result_simps]:
  "result_bind (Ok a) f = f a"
  "result_bind (Err e) f = Err e"
  "result_bind (Crash c) f = Crash c"
  by (simp_all add: result_bind_def)

lemma on_ok_simps [simp, result_simps]:
  "on_ok (Ok a, s) f = f a s"
  "on_ok (Err e, s) f = (Err e, s)"
  "on_ok (Crash c, s) f = (Crash c, s)"
  by (simp_all add: on_ok_def)

text \<open>What both sides of an \<open>on_ok\<close> keep is kept.\<close>

lemma on_ok_keeps: "P s \<Longrightarrow> (\<And>x. r = Ok x \<Longrightarrow> P (snd (k x s))) \<Longrightarrow> P (snd (on_ok (r, s) k))"
  by (cases r) simp_all

lemma result_bind_eq_Ok:
  "result_bind r f = Ok b \<longleftrightarrow> (\<exists>a. r = Ok a \<and> f a = Ok b)"
  by (cases r) auto

lemma on_ok_eq_Ok:
  "on_ok r f = (Ok b, s') \<longleftrightarrow> (\<exists>a s. r = (Ok a, s) \<and> f a s = (Ok b, s'))"
  by (cases r; cases "fst r") auto

lemma on_ok_assoc:
  "on_ok (on_ok r f) g = on_ok r (\<lambda>a s. on_ok (f a s) g)"
  by (cases r; cases "fst r") auto

text \<open>A property every state transformer of a chain keeps is kept by the chain.\<close>

lemma on_ok_invariant:
  assumes "P (snd r)" and "\<And>a s. P s \<Longrightarrow> P (snd (f a s))"
  shows "P (snd (on_ok r f))"
  using assms by (cases r; cases "fst r") auto

section \<open>Go maps\<close>

text \<open>
  A Go map is an association list without repeated keys; its order is the order in
  which one \<open>range\<close> loop would visit the entries.  Go leaves that order open, so a
  property that depends on it is stated for every order (every list with the same
  \<open>map_of\<close>), never for the one order the operations below happen to produce.
\<close>

type_synonym ('k, 'v) go_map = "('k \<times> 'v) list"

definition go_get :: "('k, 'v) go_map \<Rightarrow> 'k \<Rightarrow> 'v option" where
  "go_get m k = map_of m k"

definition go_put :: "'k \<Rightarrow> 'v \<Rightarrow> ('k, 'v) go_map \<Rightarrow> ('k, 'v) go_map" where
  "go_put k v m = AList.update k v m"

definition go_del :: "'k \<Rightarrow> ('k, 'v) go_map \<Rightarrow> ('k, 'v) go_map" where
  "go_del k m = AList.delete k m"

definition go_wf :: "('k, 'v) go_map \<Rightarrow> bool" where
  "go_wf m = distinct (map fst m)"

named_theorems go_map_simps \<open>look-ups after the map operations\<close>

lemma go_get_Nil [simp, go_map_simps]: "go_get [] k = None"
  by (simp add: go_get_def)

lemma go_get_put [simp, go_map_simps]:
  "go_get (go_put k v m) k' = (if k' = k then Some v else go_get m k')"
  by (simp add: go_get_def go_put_def update_conv')

lemma go_get_del [simp, go_map_simps]:
  "go_get (go_del k m) k' = (if k' = k then None else go_get m k')"
  by (simp add: go_get_def go_del_def delete_conv')

lemma go_wf_Nil [simp, intro]: "go_wf []"
  by (simp add: go_wf_def)

lemma go_wf_put [simp, intro]: "go_wf m \<Longrightarrow> go_wf (go_put k v m)"
  by (simp add: go_wf_def go_put_def distinct_update)

lemma go_wf_del [simp, intro]: "go_wf m \<Longrightarrow> go_wf (go_del k m)"
  by (simp add: go_wf_def go_del_def distinct_delete)

lemma go_wf_Cons [simp]: "go_wf (p # m) \<longleftrightarrow> fst p \<notin> fst ` set m \<and> go_wf m"
  by (simp add: go_wf_def)

lemma go_get_Some_in: "go_get m k = Some v \<Longrightarrow> (k, v) \<in> set m"
  by (simp add: go_get_def map_of_SomeD)

lemma go_get_in: "go_wf m \<Longrightarrow> go_get m k = Some v \<longleftrightarrow> (k, v) \<in> set m"
  by (simp add: go_get_def go_wf_def)

lemma go_get_None_iff: "go_get m k = None \<longleftrightarrow> k \<notin> fst ` set m"
  by (simp add: go_get_def map_of_eq_None_iff)

lemma go_get_Cons [simp]:
  "go_get ((k, v) # m) k' = (if k' = k then Some v else go_get m k')"
  by (simp add: go_get_def)

lemma go_keys_get: "k \<in> fst ` set m \<longleftrightarrow> go_get m k \<noteq> None"
  by (simp add: go_get_None_iff)

lemma keys_go_put [simp]: "fst ` set (go_put k v m) = insert k (fst ` set m)"
  by (rule set_eqI) (simp only: go_keys_get insert_iff go_get_put, simp)

lemma keys_go_del [simp]: "fst ` set (go_del k m) = fst ` set m - {k}"
  by (rule set_eqI) (simp only: go_keys_get Diff_iff singleton_iff go_get_del, simp)

lemma set_go_put:
  assumes "go_wf m"
  shows "set (go_put k v m) = insert (k, v) {p \<in> set m. fst p \<noteq> k}"
proof -
  have "(a, b) \<in> set (go_put k v m) \<longleftrightarrow> (a, b) \<in> insert (k, v) {p \<in> set m. fst p \<noteq> k}" for a b
    using go_get_in [OF go_wf_put [OF assms], of k v a b] go_get_in [OF assms, of a b]
    by (auto split: if_splits)
  then show ?thesis by auto
qed

lemma set_go_del:
  assumes "go_wf m"
  shows "set (go_del k m) = {p \<in> set m. fst p \<noteq> k}"
proof -
  have "(a, b) \<in> set (go_del k m) \<longleftrightarrow> (a, b) \<in> {p \<in> set m. fst p \<noteq> k}" for a b
    using go_get_in [OF go_wf_del [OF assms], of k a b] go_get_in [OF assms, of a b]
    by (auto split: if_splits)
  then show ?thesis by auto
qed

section \<open>Lists\<close>

lemma filter_sort_key_last:
  fixes f :: "'a \<Rightarrow> 'b::linorder"
  assumes "xs \<noteq> []" "x \<in> set xs"
  shows "f x \<le> f (last (sort_key f xs))"
proof -
  let ?ys = "sort_key f xs"
  have ne: "?ys \<noteq> []" using assms(1) by (metis length_0_conv length_sort)
  have "x \<in> set ?ys" using assms(2) by simp
  then obtain i where i: "i < length ?ys" "?ys ! i = x" by (meson in_set_conv_nth)
  have "map f ?ys ! i \<le> map f ?ys ! (length ?ys - 1)"
    using i by (intro sorted_nth_mono) auto
  then show ?thesis using i ne by (simp add: last_conv_nth)
qed

end
