(* ===== verification/Go_Strings.thy ===== *)
theory Go_Strings
  imports Go_Prelude
begin

text \<open>
  The parts of Go's standard library the code uses on strings: strings.Split, Join,
  HasPrefix, HasSuffix, TrimPrefix, TrimSuffix and ToLower, strconv's Itoa and Atoi,
  and path/filepath's Clean, Join, Dir, Base and Ext in their Unix form.  A Go string is
  a byte string, as a HOL \<open>string\<close> is.  The lemmas are the laws the revision keys rest on:
  splitting inverts joining, Atoi inverts Itoa, and Join of plain path elements is
  concatenation with slashes.
\<close>

section \<open>strings\<close>

text \<open>\<open>strings.Split(s, sep)\<close> for a one-byte separator: never empty.\<close>

fun split_on :: "char \<Rightarrow> string \<Rightarrow> string list" where
  "split_on c [] = [[]]"
| "split_on c (x # xs) =
     (if x = c then [] # split_on c xs
      else (case split_on c xs of [] \<Rightarrow> [[x]] | y # ys \<Rightarrow> (x # y) # ys))"

fun join_with :: "char \<Rightarrow> string list \<Rightarrow> string" where
  "join_with c [] = []"
| "join_with c [x] = x"
| "join_with c (x # y # ys) = x @ c # join_with c (y # ys)"

text \<open>\<open>strings.Join\<close> with a separator of any length.\<close>

fun str_join :: "string \<Rightarrow> string list \<Rightarrow> string" where
  "str_join sep [] = []"
| "str_join sep [x] = x"
| "str_join sep (x # y # ys) = x @ sep @ str_join sep (y # ys)"

definition has_prefix :: "string \<Rightarrow> string \<Rightarrow> bool" where
  "has_prefix s p = (take (length p) s = p)"

definition has_suffix :: "string \<Rightarrow> string \<Rightarrow> bool" where
  "has_suffix s p = has_prefix (rev s) (rev p)"

definition trim_prefix :: "string \<Rightarrow> string \<Rightarrow> string" where
  "trim_prefix s p = (if has_prefix s p then drop (length p) s else s)"

definition trim_suffix :: "string \<Rightarrow> string \<Rightarrow> string" where
  "trim_suffix s p = (if has_suffix s p then take (length s - length p) s else s)"

text \<open>\<open>strings.ToLower\<close> on ASCII letters, the alphabet of Kubernetes resource names.\<close>

definition lower_table :: "(char \<times> char) list" where
  "lower_table = zip ''ABCDEFGHIJKLMNOPQRSTUVWXYZ'' ''abcdefghijklmnopqrstuvwxyz''"

definition to_lower :: "string \<Rightarrow> string" where
  "to_lower s = map (\<lambda>c. case map_of lower_table c of None \<Rightarrow> c | Some d \<Rightarrow> d) s"

text \<open>\<open>strings.Replace(s, old, new, -1)\<close> for one-byte \<open>old\<close> and \<open>new\<close>.\<close>

definition replace_char :: "char \<Rightarrow> char \<Rightarrow> string \<Rightarrow> string" where
  "replace_char a b s = map (\<lambda>c. if c = a then b else c) s"

named_theorems string_simps \<open>splitting, joining and number formatting\<close>

lemma split_on_not_Nil [simp]: "split_on c s \<noteq> []"
  by (induction s) (auto split: list.splits)

lemma split_on_plain [string_simps]: "c \<notin> set s \<Longrightarrow> split_on c s = [s]"
  by (induction s) auto

lemma split_on_append [string_simps]:
  "c \<notin> set s \<Longrightarrow> split_on c (s @ c # t) = s # split_on c t"
  by (induction s) auto

lemma split_on_append_gen:
  "split_on c (s @ c # t) = split_on c s @ split_on c t"
  by (induction s) (auto split: list.splits)

lemma split_on_join:
  "es \<noteq> [] \<Longrightarrow> \<forall>e \<in> set es. c \<notin> set e \<Longrightarrow> split_on c (join_with c es) = es"
  by (induction c es rule: join_with.induct) (auto simp: split_on_plain split_on_append)

lemma split_on_join_gen:
  "es \<noteq> [] \<Longrightarrow> split_on c (join_with c es) = concat (map (split_on c) es)"
  by (induction c es rule: join_with.induct) (auto simp: split_on_append_gen)

lemma join_split [simp]: "join_with c (split_on c s) = s"
proof (induction s)
  case Nil
  then show ?case by simp
next
  case (Cons x s)
  then show ?case
    by (cases "split_on c s"; cases "tl (split_on c s)") auto
qed

lemma split_on_no_sep: "e \<in> set (split_on c s) \<Longrightarrow> c \<notin> set e"
proof (induction s arbitrary: e)
  case (Cons x s)
  then show ?case by (cases "split_on c s") (auto split: if_splits)
qed simp

lemma has_prefix_append [simp]: "has_prefix (p @ s) p"
  by (simp add: has_prefix_def)

lemma has_prefix_iff: "has_prefix s p \<longleftrightarrow> (\<exists>t. s = p @ t)"
  unfolding has_prefix_def by (metis append_eq_conv_conj append_take_drop_id)

lemma has_suffix_iff: "has_suffix s p \<longleftrightarrow> (\<exists>t. s = t @ p)"
  unfolding has_suffix_def has_prefix_iff by (metis rev_append rev_rev_ident)

lemma has_suffix_append [simp]: "has_suffix (t @ p) p"
  by (auto simp: has_suffix_iff)

lemma trim_prefix_other [simp]: "\<not> has_prefix s p \<Longrightarrow> trim_prefix s p = s"
  by (simp add: trim_prefix_def)

section \<open>strconv\<close>

definition digit_char :: "nat \<Rightarrow> char" where
  "digit_char d = ''0123456789'' ! d"

definition digit_table :: "(char \<times> nat) list" where
  "digit_table = zip ''0123456789'' [0, 1, 2, 3, 4, 5, 6, 7, 8, 9]"

definition digit_val :: "char \<Rightarrow> nat option" where
  "digit_val c = map_of digit_table c"

fun nat_digits :: "nat \<Rightarrow> string" where
  "nat_digits n = (if n < 10 then [digit_char n]
     else nat_digits (n div 10) @ [digit_char (n mod 10)])"

declare nat_digits.simps [simp del]

text \<open>\<open>strconv.Itoa\<close>, and the verb \<open>%d\<close>.\<close>

definition itoa :: "int \<Rightarrow> string" where
  "itoa i = (if i < 0 then CHR ''-'' # nat_digits (nat (- i)) else nat_digits (nat i))"

datatype num_error = SyntaxError | RangeError

definition max_uint64 :: nat where "max_uint64 = 18446744073709551615"
definition uint_cutoff :: nat where "uint_cutoff = 1844674407370955162"
definition max_int64 :: int where "max_int64 = 9223372036854775807"
definition min_int64 :: int where "min_int64 = - 9223372036854775808"

text \<open>
  \<open>strconv.ParseUint\<close> in base 10.  As in Go, an overflow is reported when it happens, before
  the bytes after it are looked at.
\<close>

fun parse_uint :: "nat \<Rightarrow> string \<Rightarrow> num_error + nat" where
  "parse_uint n [] = Inr n"
| "parse_uint n (c # cs) =
     (case digit_val c of
        None \<Rightarrow> Inl SyntaxError
      | Some d \<Rightarrow>
          if n \<ge> uint_cutoff then Inl RangeError
          else if n * 10 + d > max_uint64 then Inl RangeError
          else parse_uint (n * 10 + d) cs)"

text \<open>
  \<open>strconv.Atoi\<close>: the value Go returns and the error.  With a syntax error the value is 0, with a
  range error it is the nearest 64-bit integer.
\<close>

definition parse_int :: "bool \<Rightarrow> string \<Rightarrow> int \<times> num_error option" where
  "parse_int neg s = (case (if s = [] then Inl SyntaxError else parse_uint 0 s) of
     Inl SyntaxError \<Rightarrow> (0, Some SyntaxError)
   | Inl RangeError \<Rightarrow> (if neg then min_int64 else max_int64, Some RangeError)
   | Inr n \<Rightarrow>
       if \<not> neg \<and> int n > max_int64 then (max_int64, Some RangeError)
       else if neg \<and> - int n < min_int64 then (min_int64, Some RangeError)
       else (if neg then - int n else int n, None))"

definition atoi :: "string \<Rightarrow> int \<times> num_error option" where
  "atoi s = (case s of
     [] \<Rightarrow> (0, Some SyntaxError)
   | c # cs \<Rightarrow> if c = CHR ''-'' then parse_int True cs
               else if c = CHR ''+'' then parse_int False cs
               else parse_int False s)"

definition int64 :: "int \<Rightarrow> bool" where
  "int64 i \<longleftrightarrow> min_int64 \<le> i \<and> i \<le> max_int64"

lemma less_10_iff:
  "(d::nat) < 10 \<longleftrightarrow> d = 0 \<or> d = 1 \<or> d = 2 \<or> d = 3 \<or> d = 4 \<or> d = 5 \<or> d = 6
     \<or> d = 7 \<or> d = 8 \<or> d = 9"
  by arith

lemma less_10_cases:
  assumes "(d::nat) < 10"
  obtains "d = 0" | "d = 1" | "d = 2" | "d = 3" | "d = 4" | "d = 5" | "d = 6" | "d = 7"
    | "d = 8" | "d = 9"
  using assms unfolding less_10_iff by blast

lemma digit_val_char [simp]: "d < 10 \<Longrightarrow> digit_val (digit_char d) = Some d"
  by (erule less_10_cases) (simp_all add: digit_val_def digit_table_def digit_char_def)

lemma digit_char_neq [simp]:
  assumes "d < 10"
  shows "digit_char d \<noteq> CHR ''-''" "digit_char d \<noteq> CHR ''+''" "digit_char d \<noteq> CHR ''.''"
    "digit_char d \<noteq> CHR ''/''"
  using assms by (auto elim!: less_10_cases simp: digit_char_def)

lemma nat_digits_chars: "c \<in> set (nat_digits n) \<Longrightarrow> \<exists>d < 10. c = digit_char d"
proof (induction n rule: nat_digits.induct)
  case (1 n)
  show ?case
  proof (cases "n < 10")
    case True
    with "1.prems" show ?thesis by (subst (asm) nat_digits.simps) auto
  next
    case False
    then consider "c \<in> set (nat_digits (n div 10))" | "c = digit_char (n mod 10)"
      using "1.prems" by (subst (asm) nat_digits.simps) auto
    then show ?thesis
    proof cases
      case 2
      then show ?thesis by (intro exI [of _ "n mod 10"]) simp
    qed (use False "1.IH" in simp)
  qed
qed

lemma nat_digits_no_sep [simp]:
  "CHR ''-'' \<notin> set (nat_digits n)" "CHR ''.'' \<notin> set (nat_digits n)"
  "CHR ''/'' \<notin> set (nat_digits n)"
  using digit_char_neq by (auto dest!: nat_digits_chars) (metis digit_char_neq)+

lemma nat_digits_not_Nil [simp]: "nat_digits n \<noteq> []"
  by (subst nat_digits.simps) simp

lemma parse_uint_append_digit:
  "parse_uint n (s @ [digit_char d]) = (case parse_uint n s of
     Inl e \<Rightarrow> Inl e
   | Inr m \<Rightarrow> if m \<ge> uint_cutoff then Inl RangeError
        else if m * 10 + d > max_uint64 then Inl RangeError else Inr (m * 10 + d))"
  if "d < 10"
  using that by (induction s arbitrary: n) (auto split: option.splits)

lemma parse_uint_digits: "n \<le> max_uint64 \<Longrightarrow> parse_uint 0 (nat_digits n) = Inr n"
proof (induction n rule: nat_digits.induct)
  case (1 n)
  show ?case
  proof (cases "n < 10")
    case True
    then show ?thesis
      by (subst nat_digits.simps) (simp add: uint_cutoff_def max_uint64_def)
  next
    case False
    with 1 have "parse_uint 0 (nat_digits (n div 10)) = Inr (n div 10)" by simp
    with False "1.prems" show ?thesis
      by (subst nat_digits.simps)
        (simp add: parse_uint_append_digit uint_cutoff_def max_uint64_def)
  qed
qed

lemma atoi_itoa [simp, string_simps]:
  assumes "int64 i"
  shows "atoi (itoa i) = (i, None)"
proof (cases "i < 0")
  case True
  with assms have "parse_uint 0 (nat_digits (nat (- i))) = Inr (nat (- i))"
    by (intro parse_uint_digits)
      (simp add: int64_def min_int64_def max_uint64_def nat_le_iff)
  with True assms show ?thesis
    by (simp add: atoi_def itoa_def parse_int_def int64_def)
next
  case False
  obtain c cs where cs: "nat_digits (nat i) = c # cs" by (metis nat_digits_not_Nil neq_Nil_conv)
  then have "c \<noteq> CHR ''-''" "c \<noteq> CHR ''+''"
    using nat_digits_chars [of c "nat i"] by auto
  moreover have "parse_uint 0 (nat_digits (nat i)) = Inr (nat i)"
    using assms by (intro parse_uint_digits)
      (simp add: int64_def max_int64_def max_uint64_def nat_le_iff)
  ultimately show ?thesis
    using False assms cs by (simp add: atoi_def itoa_def parse_int_def int64_def)
qed

lemma itoa_no_sep [simp]: "CHR ''.'' \<notin> set (itoa i)" "CHR ''/'' \<notin> set (itoa i)"
  by (auto simp: itoa_def)

lemma itoa_nonneg_no_dash [simp]: "0 \<le> i \<Longrightarrow> CHR ''-'' \<notin> set (itoa i)"
  by (auto simp: itoa_def)

lemma atoi_bound: "int64 (fst (atoi s))"
  by (auto simp: atoi_def parse_int_def int64_def max_int64_def min_int64_def
      split: list.splits sum.splits num_error.splits)

section \<open>path/filepath\<close>

text \<open>
  \<open>filepath.Clean\<close> on Unix.  The elements kept so far are in \<open>out\<close>; a \<open>..\<close> takes the last one
  back unless that is itself a \<open>..\<close> kept at the front of a relative path.
\<close>

definition clean_step :: "bool \<Rightarrow> string list \<Rightarrow> string \<Rightarrow> string list" where
  "clean_step rooted out e =
     (if e = [] \<or> e = ''.'' then out
      else if e = ''..'' then
        (if out \<noteq> [] \<and> last out \<noteq> ''..'' then butlast out
         else if rooted then out else out @ [''..''])
      else out @ [e])"

definition clean :: "string \<Rightarrow> string" where
  "clean path =
     (if path = [] then ''.''
      else let rooted = (hd path = CHR ''/'');
               out = foldl (clean_step rooted) [] (split_on CHR ''/'' path)
           in if rooted then CHR ''/'' # join_with CHR ''/'' out
              else if out = [] then ''.'' else join_with CHR ''/'' out)"

text \<open>\<open>filepath.Join\<close>: leading empty elements are dropped, the rest is joined and cleaned.\<close>

definition path_join :: "string list \<Rightarrow> string" where
  "path_join es = (case dropWhile (\<lambda>e. e = []) es of
     [] \<Rightarrow> [] | e # es' \<Rightarrow> clean (join_with CHR ''/'' (e # es')))"

definition path_dir :: "string \<Rightarrow> string" where
  "path_dir p = clean (rev (dropWhile (\<lambda>c. c \<noteq> CHR ''/'') (rev p)))"

definition path_base :: "string \<Rightarrow> string" where
  "path_base p =
     (if p = [] then ''.''
      else let q = rev (takeWhile (\<lambda>c. c \<noteq> CHR ''/'') (dropWhile (\<lambda>c. c = CHR ''/'') (rev p)))
           in if q = [] then ''/'' else q)"

text \<open>\<open>filepath.Ext\<close>: from the last dot of the last element, empty when it has none.\<close>

definition path_ext :: "string \<Rightarrow> string" where
  "path_ext p =
     (let q = rev (takeWhile (\<lambda>c. c \<noteq> CHR ''/'') (rev p));
          r = takeWhile (\<lambda>c. c \<noteq> CHR ''.'') (rev q)
      in if CHR ''.'' \<in> set q then CHR ''.'' # rev r else [])"

text \<open>An element that Clean keeps as it is.\<close>

definition plain_elem :: "string \<Rightarrow> bool" where
  "plain_elem e \<longleftrightarrow> e \<noteq> [] \<and> e \<noteq> ''.'' \<and> e \<noteq> ''..'' \<and> CHR ''/'' \<notin> set e"

text \<open>The path elements of a string, the empty ones left out.\<close>

definition path_elems :: "string \<Rightarrow> string list" where
  "path_elems s = filter (\<lambda>e. e \<noteq> []) (split_on CHR ''/'' s)"

lemma plain_elemD [dest]:
  "plain_elem e \<Longrightarrow> e \<noteq> [] \<and> CHR ''/'' \<notin> set e"
  by (simp add: plain_elem_def)

lemma path_elems_Nil [simp]: "path_elems [] = []"
  by (simp add: path_elems_def)

lemma path_elems_plain [simp]: "plain_elem e \<Longrightarrow> path_elems e = [e]"
  by (auto simp: path_elems_def plain_elem_def split_on_plain)

lemma path_elems_join:
  "es \<noteq> [] \<Longrightarrow> path_elems (join_with CHR ''/'' es) = concat (map path_elems es)"
  by (simp add: path_elems_def [abs_def] split_on_join_gen filter_concat o_def)

lemma foldl_clean_plain:
  "\<forall>e \<in> set es. e = [] \<or> plain_elem e \<Longrightarrow>
     foldl (clean_step r) out es = out @ filter (\<lambda>e. e \<noteq> []) es"
  by (induction es arbitrary: out) (auto simp: clean_step_def plain_elem_def)

lemma clean_plain:
  assumes "p \<noteq> []" "hd p \<noteq> CHR ''/''" "\<forall>e \<in> set (path_elems p). plain_elem e"
  shows "clean p = (if path_elems p = [] then ''.'' else join_with CHR ''/'' (path_elems p))"
proof -
  have "\<forall>e \<in> set (split_on CHR ''/'' p). e = [] \<or> plain_elem e"
    using assms(3) by (auto simp: path_elems_def)
  then have "foldl (clean_step False) [] (split_on CHR ''/'' p) = path_elems p"
    by (simp add: foldl_clean_plain path_elems_def)
  with assms show ?thesis by (auto simp: clean_def)
qed

lemma join_hd:
  "e \<noteq> [] \<Longrightarrow> hd (join_with c (e # es)) = hd e \<and> join_with c (e # es) \<noteq> []"
  by (cases es) auto

text \<open>
  The law of \<open>filepath.Join\<close> the keys rest on: it is concatenation with slashes as long as no
  argument starts with a slash and no element is a dot or a double dot.
\<close>

lemma path_join_plain:
  assumes "\<forall>s \<in> set es. \<forall>e \<in> set (path_elems s). plain_elem e"
    and "\<forall>s \<in> set es. s \<noteq> [] \<longrightarrow> hd s \<noteq> CHR ''/''"
    and "\<exists>s \<in> set es. path_elems s \<noteq> []"
  shows "path_join es = join_with CHR ''/'' (concat (map path_elems es))"
proof -
  let ?ds = "dropWhile (\<lambda>e. e = []) es"
  have "?ds \<noteq> []"
  proof
    assume "?ds = []"
    then have "\<forall>s \<in> set es. s = []" by (simp add: dropWhile_eq_Nil_conv)
    with assms(3) show False by auto
  qed
  then obtain d ds where ds: "?ds = d # ds" by (meson neq_Nil_conv)
  have sub: "set (d # ds) \<subseteq> set es" unfolding ds [symmetric] by (auto dest: set_dropWhileD)
  have d: "d \<noteq> []" using hd_dropWhile [of "\<lambda>e. e = []" es] ds by simp
  have el: "concat (map path_elems es) = concat (map path_elems (d # ds))"
  proof -
    have "concat (map path_elems (takeWhile (\<lambda>e. e = []) es)) = []"
      by (auto dest: set_takeWhileD)
    moreover have "map path_elems es = map path_elems (takeWhile (\<lambda>e. e = []) es)
        @ map path_elems (d # ds)"
      unfolding ds [symmetric] map_append [symmetric] by simp
    ultimately show ?thesis by simp
  qed
  have "concat (map path_elems es) \<noteq> []" using assms(3) by auto
  moreover have "clean (join_with CHR ''/'' (d # ds))
      = (if path_elems (join_with CHR ''/'' (d # ds)) = [] then ''.''
         else join_with CHR ''/'' (path_elems (join_with CHR ''/'' (d # ds))))"
  proof (rule clean_plain)
    show "join_with CHR ''/'' (d # ds) \<noteq> []" "hd (join_with CHR ''/'' (d # ds)) \<noteq> CHR ''/''"
      using d sub assms(2) join_hd [of d "CHR ''/''" ds] by auto
    show "\<forall>e \<in> set (path_elems (join_with CHR ''/'' (d # ds))). plain_elem e"
      using sub assms(1) unfolding path_elems_join [OF list.distinct(2)] by auto
  qed
  ultimately show ?thesis
    unfolding path_join_def ds el list.case path_elems_join [OF list.distinct(2)]
    by auto
qed

lemma plain_elems_join:
  assumes "\<forall>e \<in> set es. plain_elem e"
  shows "path_elems (join_with CHR ''/'' es) = es"
proof (cases "es = []")
  case False
  have "map path_elems es = map (\<lambda>e. [e]) es" using assms by simp
  then show ?thesis by (simp only: path_elems_join [OF False] concat_map_singleton) simp
qed simp

lemma split_join_plain:
  "es \<noteq> [] \<Longrightarrow> \<forall>e \<in> set es. plain_elem e \<Longrightarrow> split_on CHR ''/'' (join_with CHR ''/'' es) = es"
  by (rule split_on_join) auto

lemma join_with_snoc:
  "es \<noteq> [] \<Longrightarrow> join_with c (es @ [x]) = join_with c es @ c # x"
  by (induction c es rule: join_with.induct) auto

lemma path_dir_join:
  assumes "es \<noteq> []" "\<forall>e \<in> set es. plain_elem e" "CHR ''/'' \<notin> set f"
  shows "path_dir (join_with CHR ''/'' (es @ [f])) = join_with CHR ''/'' es"
proof -
  let ?d = "join_with CHR ''/'' es"
  obtain e es' where es: "es = e # es'" using assms(1) by (cases es) auto
  have hd: "?d \<noteq> []" "hd ?d \<noteq> CHR ''/''"
  proof -
    have e: "e \<noteq> []" "CHR ''/'' \<notin> set e" using assms(2) es by (auto simp: plain_elem_def)
    have "hd e \<noteq> CHR ''/''" using e hd_in_set [OF e(1)] by metis
    with e show "?d \<noteq> []" "hd ?d \<noteq> CHR ''/''" using join_hd [of e "CHR ''/''" es'] es by simp_all
  qed
  have "dropWhile (\<lambda>c. c \<noteq> CHR ''/'') (rev f @ CHR ''/'' # rev ?d) = CHR ''/'' # rev ?d"
    using assms(3) by (subst dropWhile_append2) auto
  then have "path_dir (join_with CHR ''/'' (es @ [f])) = clean (?d @ [CHR ''/''])"
    by (simp add: path_dir_def join_with_snoc [OF assms(1)])
  also have el: "path_elems (?d @ [CHR ''/'']) = es"
  proof -
    have "path_elems (?d @ [CHR ''/'']) = path_elems (join_with CHR ''/'' (es @ [[]]))"
      by (simp add: join_with_snoc [OF assms(1)])
    then show ?thesis
      using plain_elems_join [OF assms(2)] assms(1) by (simp add: path_elems_join)
  qed
  have "clean (?d @ [CHR ''/'']) = ?d"
    using hd assms(1,2) by (subst clean_plain) (simp_all add: el)
  finally show ?thesis by simp
qed

end
