(* ===== verification/Unstructured.thy ===== *)
theory Unstructured
  imports Go_Strings Complex_Main
begin

text \<open>
  Kubernetes objects as the code sees them: apimachinery's \<open>unstructured.Unstructured\<close>, a tree
  of JSON values, with the accessors the code calls (vendored helpers.go and unstructured.go)
  and Go's \<open>reflect.DeepEqual\<close> on such trees.
\<close>

section \<open>JSON values\<close>

text \<open>
  What \<open>interface{}\<close> holds in an unstructured object: nil, a bool, an int64, a float64, a
  string, a slice or a map.
\<close>

datatype json =
    VNull
  | VBool bool
  | VInt int
  | VFloat rat
  | VString string
  | VList "json list"
  | VMap "(string \<times> json) list"

type_synonym object = "(string, json) go_map"

section \<open>Reading fields\<close>

definition json_path :: "string list \<Rightarrow> string" where
  "json_path fields = CHR ''.'' # str_join ''.'' fields"

fun nested_field_from :: "string list \<Rightarrow> json \<Rightarrow> string list \<Rightarrow> (json \<times> bool) result" where
  "nested_field_from seen val [] = Ok (val, True)"
| "nested_field_from seen val (field # fields) =
     (case val of
        VNull \<Rightarrow> Ok (VNull, False)
      | VMap m \<Rightarrow>
          (case go_get m field of
             None \<Rightarrow> Ok (VNull, False)
           | Some v \<Rightarrow> nested_field_from (seen @ [field]) v fields)
      | _ \<Rightarrow> Err (ErrMsg (json_path (seen @ [field]) @ '' accessor error'')))"

definition NestedFieldNoCopy :: "object \<Rightarrow> string list \<Rightarrow> (json \<times> bool) result" where
  "NestedFieldNoCopy obj fields = nested_field_from [] (VMap obj) fields"

definition NestedString :: "object \<Rightarrow> string list \<Rightarrow> (string \<times> bool) result" where
  "NestedString obj fields = result_bind (NestedFieldNoCopy obj fields) (\<lambda>(val, found).
     if \<not> found then Ok ([], False)
     else (case val of
        VString s \<Rightarrow> Ok (s, True)
      | _ \<Rightarrow> Err (ErrMsg (json_path fields @ '' accessor error''))))"

definition getNestedString :: "object \<Rightarrow> string list \<Rightarrow> string" where
  "getNestedString obj fields = (case NestedString obj fields of Ok (s, True) \<Rightarrow> s | _ \<Rightarrow> [])"

fun string_entries :: "(string \<times> json) list \<Rightarrow> (string, string) go_map option" where
  "string_entries [] = Some []"
| "string_entries ((k, v) # m) =
     (case v of
        VString s \<Rightarrow> map_option (\<lambda>r. (k, s) # r) (string_entries m)
      | _ \<Rightarrow> None)"

definition NestedStringMap ::
    "object \<Rightarrow> string list \<Rightarrow> ((string, string) go_map \<times> bool) result" where
  "NestedStringMap obj fields = result_bind (NestedFieldNoCopy obj fields) (\<lambda>(val, found).
     if \<not> found then Ok ([], False)
     else (case val of
        VMap m \<Rightarrow> (case string_entries m of
             Some r \<Rightarrow> Ok (r, True)
           | None \<Rightarrow> Err (ErrMsg (json_path fields @ '' accessor error'')))
      | _ \<Rightarrow> Err (ErrMsg (json_path fields @ '' accessor error''))))"

definition GetAPIVersion :: "object \<Rightarrow> string" where
  "GetAPIVersion u = getNestedString u [''apiVersion'']"

definition GetKind :: "object \<Rightarrow> string" where
  "GetKind u = getNestedString u [''kind'']"

definition GetNamespace :: "object \<Rightarrow> string" where
  "GetNamespace u = getNestedString u [''metadata'', ''namespace'']"

definition GetName :: "object \<Rightarrow> string" where
  "GetName u = getNestedString u [''metadata'', ''name'']"

definition GetResourceVersion :: "object \<Rightarrow> string" where
  "GetResourceVersion u = getNestedString u [''metadata'', ''resourceVersion'']"

text \<open>\<open>GetLabels\<close> drops the error, which leaves a nil map.\<close>

definition GetLabels :: "object \<Rightarrow> (string, string) go_map" where
  "GetLabels u = (case NestedStringMap u [''metadata'', ''labels''] of
     Ok (m, _) \<Rightarrow> m | _ \<Rightarrow> [])"

section \<open>Writing fields\<close>

fun SetNestedField :: "object \<Rightarrow> json \<Rightarrow> string list \<Rightarrow> object result" where
  "SetNestedField obj val [] = Crash (Panic ''slice bounds out of range'')"
| "SetNestedField obj val [field] = Ok (go_put field val obj)"
| "SetNestedField obj val (field # g # fields) =
     (case go_get obj field of
        Some (VMap m) \<Rightarrow> result_bind (SetNestedField m val (g # fields))
                           (\<lambda>m'. Ok (go_put field (VMap m') obj))
      | Some _ \<Rightarrow> Err (ErrMsg ''value cannot be set'')
      | None \<Rightarrow> result_bind (SetNestedField [] val (g # fields))
                           (\<lambda>m'. Ok (go_put field (VMap m') obj)))"

fun RemoveNestedField :: "object \<Rightarrow> string list \<Rightarrow> object" where
  "RemoveNestedField obj [] = obj"
| "RemoveNestedField obj [field] = go_del field obj"
| "RemoveNestedField obj (field # g # fields) =
     (case go_get obj field of
        Some (VMap m) \<Rightarrow> go_put field (VMap (RemoveNestedField m (g # fields))) obj
      | _ \<Rightarrow> obj)"

section \<open>reflect.DeepEqual\<close>

text \<open>Maps are equal when they have the same keys with equal values, in whatever order.\<close>

fun deep_equal :: "json \<Rightarrow> json \<Rightarrow> bool"
  and deep_equal_list :: "json list \<Rightarrow> json list \<Rightarrow> bool"
  and deep_equal_entries :: "(string \<times> json) list \<Rightarrow> (string \<times> json) list \<Rightarrow> bool" where
  "deep_equal VNull w = (w = VNull)"
| "deep_equal (VBool b) w = (w = VBool b)"
| "deep_equal (VInt i) w = (w = VInt i)"
| "deep_equal (VFloat x) w = (w = VFloat x)"
| "deep_equal (VString s) w = (w = VString s)"
| "deep_equal (VList xs) w = (case w of VList ys \<Rightarrow> deep_equal_list xs ys | _ \<Rightarrow> False)"
| "deep_equal (VMap m) w =
     (case w of VMap n \<Rightarrow> length m = length n \<and> deep_equal_entries m n | _ \<Rightarrow> False)"
| "deep_equal_list [] ys = (ys = [])"
| "deep_equal_list (x # xs) ys =
     (case ys of [] \<Rightarrow> False | y # ys' \<Rightarrow> deep_equal x y \<and> deep_equal_list xs ys')"
| "deep_equal_entries [] n = True"
| "deep_equal_entries ((k, v) # m) n =
     ((case go_get n k of None \<Rightarrow> False | Some w \<Rightarrow> deep_equal v w) \<and> deep_equal_entries m n)"

text \<open>No map of a value has a repeated key: what every Go map satisfies.\<close>

fun wf_value :: "json \<Rightarrow> bool"
  and wf_values :: "json list \<Rightarrow> bool"
  and wf_entries :: "(string \<times> json) list \<Rightarrow> bool" where
  "wf_value (VList xs) = wf_values xs"
| "wf_value (VMap m) = (go_wf m \<and> wf_entries m)"
| "wf_value v = True"
| "wf_values [] = True"
| "wf_values (x # xs) = (wf_value x \<and> wf_values xs)"
| "wf_entries [] = True"
| "wf_entries ((k, v) # m) = (wf_value v \<and> wf_entries m)"

lemma deep_equal_entries_refl:
  "\<forall>(k, v) \<in> set m. go_get n k = Some v \<and> deep_equal v v \<Longrightarrow> deep_equal_entries m n"
  by (induction m) auto

lemma wf_entries_in: "wf_entries m \<Longrightarrow> (k, v) \<in> set m \<Longrightarrow> wf_value v"
  by (induction m) auto

lemma deep_equal_refl_all:
  "wf_value v \<Longrightarrow> deep_equal v v"
  "wf_values xs \<Longrightarrow> deep_equal_list xs xs"
  "wf_entries m \<Longrightarrow> (\<And>k v. (k, v) \<in> set m \<Longrightarrow> deep_equal v v)"
proof (induction v and xs and m rule: wf_value_wf_values_wf_entries.induct)
  case (2 m)
  then have "deep_equal_entries m m"
    by (intro deep_equal_entries_refl) (auto simp: go_get_in)
  then show ?case by simp
qed auto

lemma deep_equal_refl [simp]: "wf_value v \<Longrightarrow> deep_equal v v"
  by (rule deep_equal_refl_all(1))

section \<open>Facts about the accessors\<close>

lemma NestedField_Cons_get:
  "NestedFieldNoCopy obj (f # fs) = (case go_get obj f of
     None \<Rightarrow> Ok (VNull, False) | Some v \<Rightarrow> nested_field_from [f] v fs)"
  by (simp add: NestedFieldNoCopy_def split: option.split)

lemma nested_field_no_crash: "nested_field_from seen v fs \<noteq> Crash c"
  by (induction seen v fs rule: nested_field_from.induct) (auto split: json.splits option.splits)

lemma set_nested_read:
  "SetNestedField obj v fs = Ok obj' \<Longrightarrow> nested_field_from seen (VMap obj') fs = Ok (v, True)"
proof (induction obj v fs arbitrary: obj' seen rule: SetNestedField.induct)
  case (3 obj val field g fields)
  then show ?case
    by (fastforce simp: result_bind_eq_Ok simp del: nested_field_from.simps(2)
        intro: nested_field_from.simps(2) [THEN trans] split: option.splits json.splits)
qed auto

end
