(* ===== verification/Revision.thy ===== *)
theory Revision
  imports Unstructured
begin

text \<open>
  pkg/store/revision.go: revisions, the keys they are stored under and the parser that reads a
  key back.  The state of a revision is the record \<open>revision\<close>; a \<open>Revision\<close> is a concrete
  one (with its content) or one that loads its content on demand.  The main lemmas: a key
  parses back to its revision, so keys are injective, and cutting a slice removes one element.
\<close>

section \<open>Time\<close>

text \<open>
  A \<open>time.Time\<close> is the number of nanoseconds since the Unix epoch, a \<open>time.Duration\<close> a
  64-bit number of nanoseconds that callers widen; \<open>time.Time{}\<close> is the first of January of
  the year 1.
\<close>

type_synonym gotime = int

definition second :: int where "second = 1000000000"
definition zero_time :: gotime where "zero_time = - 62135596800 * second"
definition time_unix :: "int \<Rightarrow> gotime" where "time_unix s = s * second"
definition unix_of :: "gotime \<Rightarrow> int" where "unix_of t = t div second"
definition after :: "gotime \<Rightarrow> gotime \<Rightarrow> bool" where "after t u = (u < t)"

lemma unix_of_time_unix [simp]: "unix_of (time_unix s) = s"
  by (simp add: unix_of_def time_unix_def second_def)

lemma time_unix_le: "time_unix (unix_of t) \<le> t"
  by (simp add: unix_of_def time_unix_def second_def)

section \<open>Revisions\<close>

record revision =
  apiVersion_of :: string
  kind_of :: string
  namespace_of :: string
  name_of :: string
  resourceVersion_of :: int
  timestamp_of :: gotime
  deleted_of :: bool

text \<open>
  The two implementations of the interface \<open>Revision\<close>.  The content of a lazy revision is the
  one loaded so far, \<open>None\<close> while its \<open>sync.Once\<close> has not run to success; the store it loads
  from is an argument of the functions that call \<open>Content\<close> (theory Storage).
\<close>

datatype Revision =
    ConcreteRevision revision object
  | LazyLoadingRevision revision "object option"

fun meta :: "Revision \<Rightarrow> revision" where
  "meta (ConcreteRevision r u) = r"
| "meta (LazyLoadingRevision r c) = r"

definition APIVersion :: "Revision \<Rightarrow> string" where "APIVersion rv = apiVersion_of (meta rv)"
definition Kind :: "Revision \<Rightarrow> string" where "Kind rv = kind_of (meta rv)"
definition Namespace :: "Revision \<Rightarrow> string" where "Namespace rv = namespace_of (meta rv)"
definition Name :: "Revision \<Rightarrow> string" where "Name rv = name_of (meta rv)"
definition ResourceVersion :: "Revision \<Rightarrow> int" where
  "ResourceVersion rv = resourceVersion_of (meta rv)"
definition RevisionTimestamp :: "Revision \<Rightarrow> gotime" where
  "RevisionTimestamp rv = timestamp_of (meta rv)"
definition Deleted :: "Revision \<Rightarrow> bool" where "Deleted rv = deleted_of (meta rv)"

fun SetDeleted :: "bool \<Rightarrow> Revision \<Rightarrow> Revision" where
  "SetDeleted b (ConcreteRevision r u) = ConcreteRevision (r\<lparr>deleted_of := b\<rparr>) u"
| "SetDeleted b (LazyLoadingRevision r c) = LazyLoadingRevision (r\<lparr>deleted_of := b\<rparr>) c"

definition bool_string :: "bool \<Rightarrow> string" where
  "bool_string b = (if b then ''true'' else ''false'')"

definition rev_string :: "Revision \<Rightarrow> string" where
  "rev_string rv = str_join ''/'' [APIVersion rv, Kind rv, Namespace rv, Name rv,
     itoa (ResourceVersion rv), bool_string (Deleted rv)]"

definition rev_list_string :: "Revision list \<Rightarrow> string" where
  "rev_list_string revs = ''['' @ str_join '', '' (map rev_string revs) @ '']''"

text \<open>The structs the two \<open>MarshalJSON\<close> methods hand to encoding/json, as JSON objects.\<close>

definition lazy_json :: "revision \<Rightarrow> object" where
  "lazy_json r =
     [(''apiVersion'', VString (apiVersion_of r)),
      (''kind'', VString (kind_of r)),
      (''namespace'', VString (namespace_of r)),
      (''name'', VString (name_of r)),
      (''resourceVersion'', VInt (resourceVersion_of r)),
      (''revisionTimestamp'', VInt (unix_of (timestamp_of r))),
      (''deleted'', VBool (deleted_of r))]"

definition concrete_json :: "revision \<Rightarrow> object \<Rightarrow> object" where
  "concrete_json r content = lazy_json r @ [(''content'', VMap content)]"

fun MarshalJSON :: "Revision \<Rightarrow> json" where
  "MarshalJSON (ConcreteRevision r u) = VMap (concrete_json r u)"
| "MarshalJSON (LazyLoadingRevision r c) = VMap (lazy_json r)"

named_theorems rev_simps \<open>projections of revisions\<close>

lemma meta_SetDeleted [simp, rev_simps]: "meta (SetDeleted b rv) = (meta rv)\<lparr>deleted_of := b\<rparr>"
  by (cases rv) auto

lemma SetDeleted_proj [simp, rev_simps]:
  "APIVersion (SetDeleted b rv) = APIVersion rv"
  "Kind (SetDeleted b rv) = Kind rv"
  "Namespace (SetDeleted b rv) = Namespace rv"
  "Name (SetDeleted b rv) = Name rv"
  "ResourceVersion (SetDeleted b rv) = ResourceVersion rv"
  "RevisionTimestamp (SetDeleted b rv) = RevisionTimestamp rv"
  "Deleted (SetDeleted b rv) = b"
  by (simp_all add: APIVersion_def Kind_def Namespace_def Name_def ResourceVersion_def
      RevisionTimestamp_def Deleted_def)

section \<open>Keys\<close>

definition ResourceKey :: "string \<Rightarrow> string \<Rightarrow> string \<Rightarrow> string \<Rightarrow> string" where
  "ResourceKey apiVersion kind namespace nm = path_join [apiVersion, kind, namespace, nm]"

definition RevisionKey :: "string \<Rightarrow> string \<Rightarrow> string" where
  "RevisionKey resourceKey revisionKey = path_join [resourceKey, revisionKey]"

definition KeyPrefixForAPIVersionKindNamespace :: "string \<Rightarrow> string \<Rightarrow> string \<Rightarrow> string" where
  "KeyPrefixForAPIVersionKindNamespace apiVersion kind namespace
     = path_join [apiVersion, kind, namespace]"

definition KeyPrefixForAPIVersionKind :: "string \<Rightarrow> string \<Rightarrow> string" where
  "KeyPrefixForAPIVersionKind apiVersion kind = path_join [apiVersion, kind]"

definition KeyPrefixForAPIVersion :: "string \<Rightarrow> string" where
  "KeyPrefixForAPIVersion apiVersion = apiVersion"

definition JoinKeyPrefix :: "string list \<Rightarrow> string" where
  "JoinKeyPrefix prefixes = path_join prefixes"

definition revision_ResourceKey :: "revision \<Rightarrow> string" where
  "revision_ResourceKey r = ResourceKey (apiVersion_of r) (kind_of r) (namespace_of r) (name_of r)"

definition revision_RevisionKey :: "revision \<Rightarrow> string" where
  "revision_RevisionKey r =
     (if \<not> deleted_of r
      then itoa (resourceVersion_of r) @ ''-'' @ itoa (unix_of (timestamp_of r)) @ ''.json''
      else itoa (resourceVersion_of r) @ ''-'' @ itoa (unix_of (timestamp_of r)) @ ''.json.deleted'')"

definition revision_Key :: "revision \<Rightarrow> string" where
  "revision_Key r = RevisionKey (revision_ResourceKey r) (revision_RevisionKey r)"

abbreviation rev_ResourceKey :: "Revision \<Rightarrow> string" where
  "rev_ResourceKey rv \<equiv> revision_ResourceKey (meta rv)"
abbreviation rev_RevisionKey :: "Revision \<Rightarrow> string" where
  "rev_RevisionKey rv \<equiv> revision_RevisionKey (meta rv)"
abbreviation rev_Key :: "Revision \<Rightarrow> string" where
  "rev_Key rv \<equiv> revision_Key (meta rv)"

section \<open>Parsing a path\<close>

text \<open>
  The file name \<open>version-timestamp.json\<close>, with \<open>.deleted\<close> appended for a deletion: the lines
  \<open>parseNamespacedRevision\<close> and \<open>parseClusterScopedRevision\<close> share word for word.
\<close>

definition parse_file :: "string \<Rightarrow> (int \<times> int \<times> bool) result" where
  "parse_file file =
     (let fileSplit = split_on CHR ''-'' file in
      if length fileSplit < 2
      then Err (ErrMsg (''invalid filename: '' @ file @ '', expected revision-timestamp.json''))
      else
        let resourceVersion = fileSplit ! 0; suffix = fileSplit ! 1;
            ts = hd (split_on CHR ''.'' suffix)
        in case atoi ts of
             (_, Some e) \<Rightarrow> Err (ErrMsg (''strconv.Atoi: parsing '' @ ts))
           | (revisionTimestamp, None) \<Rightarrow>
               (case atoi resourceVersion of
                  (_, Some e) \<Rightarrow> Err (ErrMsg (''strconv.Atoi: parsing '' @ resourceVersion))
                | (rv, None) \<Rightarrow> Ok (rv, revisionTimestamp, has_suffix suffix ''deleted'')))"

definition parseNamespacedRevision :: "string list \<Rightarrow> revision result" where
  "parseNamespacedRevision split =
     (if length split < 6 then Crash (Panic ''index out of range'')
      else result_bind (parse_file (split ! 5)) (\<lambda>(rv, ts, del). Ok
        \<lparr>apiVersion_of = path_join [split ! 0, split ! 1], kind_of = split ! 2,
         namespace_of = split ! 3, name_of = split ! 4, resourceVersion_of = rv,
         timestamp_of = time_unix ts, deleted_of = del\<rparr>))"

definition parseClusterScopedRevision :: "string list \<Rightarrow> revision result" where
  "parseClusterScopedRevision split =
     (if length split < 5 then Crash (Panic ''index out of range'')
      else result_bind (parse_file (split ! 4)) (\<lambda>(rv, ts, del). Ok
        \<lparr>apiVersion_of = path_join [split ! 0, split ! 1], kind_of = split ! 2,
         namespace_of = [], name_of = split ! 3, resourceVersion_of = rv,
         timestamp_of = time_unix ts, deleted_of = del\<rparr>))"

definition ParseLazyLoadingRevision :: "string \<Rightarrow> Revision result" where
  "ParseLazyLoadingRevision path =
     (let split = split_on CHR ''/'' path; depth = length split in
      if depth = 0 then Err (ErrMsg (''invalid path for revision: '' @ path))
      else
        let (split, depth) =
              (if split ! 0 = ''v1'' then ([] # split, depth + 1) else (split, depth))
        in if depth = 5 then
             result_bind (parseClusterScopedRevision split) (\<lambda>r. Ok (LazyLoadingRevision r None))
           else if depth = 6 then
             result_bind (parseNamespacedRevision split) (\<lambda>r. Ok (LazyLoadingRevision r None))
           else Err (ErrMsg (''invalid path for revision: '' @ path)))"

text \<open>
  \<open>RevisionFrom\<close>: \<open>Atoi\<close>'s value is used even when it reports an error, and the timestamp is the
  clock's, \<open>now\<close>.
\<close>

definition RevisionFrom :: "gotime \<Rightarrow> object \<Rightarrow> Revision" where
  "RevisionFrom now u =
     (let (rv, err) = atoi (GetResourceVersion u) in
      ConcreteRevision
        \<lparr>apiVersion_of = GetAPIVersion u, kind_of = GetKind u, namespace_of = GetNamespace u,
         name_of = GetName u, resourceVersion_of = rv, timestamp_of = now, deleted_of = False\<rparr>
        u)"

section \<open>Revision lists\<close>

text \<open>
  \<open>RevisionList.Cut\<close> works on the backing array: it returns the mutated array (nil where it
  cleared an element) and the length of the slice it returns.
\<close>

definition Cut :: "'a option list \<Rightarrow> nat \<Rightarrow> nat \<Rightarrow> ('a option list \<times> nat) result" where
  "Cut revs i j =
     (let n = length revs in
      if i > n \<or> j > n \<or> j < i then Crash (Panic ''slice bounds out of range'')
      else let moved = take i revs @ drop j revs
           in Ok (moved @ replicate (j - i) None, n - j + i))"

definition Less :: "Revision \<Rightarrow> Revision \<Rightarrow> bool" where
  "Less x y = (ResourceVersion x < ResourceVersion y)"

text \<open>
  \<open>sort.Sort\<close> on a RevisionList.  Go leaves the order of revisions with one version open; they
  keep their order here, and no property below is about that order.
\<close>

definition sort_revs :: "Revision list \<Rightarrow> Revision list" where
  "sort_revs revs = sort_key ResourceVersion revs"

section \<open>Stripping metadata\<close>

definition StripMetadata :: "object \<Rightarrow> object" where
  "StripMetadata u =
     (let u1 = RemoveNestedField u [''metadata'', ''creationTimestamp''];
          u2 = RemoveNestedField u1 [''metadata'', ''deletionTimestamp''];
          u3 = RemoveNestedField u2 [''metadata'', ''resourceVersion'']
      in case SetNestedField u3 VNull [''status''] of Ok u4 \<Rightarrow> u4 | _ \<Rightarrow> u3)"

section \<open>Keys parse back\<close>

text \<open>
  What a revision of the Kubernetes API looks like: a group and a version (the core group is
  the bare \<open>v1\<close>), plain names, a non-negative 64-bit version and a timestamp after the epoch.
\<close>

definition valid_api :: "string \<Rightarrow> bool" where
  "valid_api a = (case split_on CHR ''/'' a of
     [v] \<Rightarrow> v = ''v1''
   | [g, v] \<Rightarrow> plain_elem g \<and> plain_elem v \<and> g \<noteq> ''v1''
   | _ \<Rightarrow> False)"

definition valid_revision :: "revision \<Rightarrow> bool" where
  "valid_revision r \<longleftrightarrow> valid_api (apiVersion_of r) \<and> plain_elem (kind_of r)
     \<and> (namespace_of r = [] \<or> plain_elem (namespace_of r)) \<and> plain_elem (name_of r)
     \<and> 0 \<le> resourceVersion_of r \<and> resourceVersion_of r \<le> max_int64
     \<and> 0 \<le> unix_of (timestamp_of r) \<and> unix_of (timestamp_of r) \<le> max_int64"

text \<open>Keys hold whole seconds: the revision a key can stand for.\<close>

definition trunc_revision :: "revision \<Rightarrow> revision" where
  "trunc_revision r = r\<lparr>timestamp_of := time_unix (unix_of (timestamp_of r))\<rparr>"

definition key_elems :: "revision \<Rightarrow> string list" where
  "key_elems r = path_elems (apiVersion_of r) @ [kind_of r]
     @ (if namespace_of r = [] then [] else [namespace_of r]) @ [name_of r]"

named_theorems key_simps \<open>keys of valid revisions\<close>

lemma plain_v1 [simp]: "plain_elem ''v1''"
  by (simp add: plain_elem_def)

lemma valid_apiE:
  assumes "valid_api a"
  obtains "a = ''v1''" "path_elems a = [''v1'']"
  | g v where "a = g @ CHR ''/'' # v" "plain_elem g" "plain_elem v" "g \<noteq> ''v1''"
      "path_elems a = [g, v]"
proof -
  from assms consider "split_on CHR ''/'' a = [''v1'']"
    | g v where "split_on CHR ''/'' a = [g, v]" "plain_elem g" "plain_elem v" "g \<noteq> ''v1''"
    by (auto simp: valid_api_def split: list.splits)
  then show ?thesis
  proof cases
    case 1
    then have "a = join_with CHR ''/'' [''v1'']" by (metis join_split)
    then show ?thesis using that(1) by simp
  next
    case (2 g v)
    then have "a = join_with CHR ''/'' [g, v]" by (metis join_split)
    moreover have "path_elems a = [g, v]" using 2 by (auto simp: path_elems_def)
    ultimately show ?thesis using that(2) 2 by simp
  qed
qed

lemma valid_api_elems: "valid_api a \<Longrightarrow> e \<in> set (path_elems a) \<Longrightarrow> plain_elem e"
  by (erule valid_apiE) auto

lemma valid_api_hd: "valid_api a \<Longrightarrow> a \<noteq> [] \<and> hd a \<noteq> CHR ''/''"
proof (erule valid_apiE)
  fix g v assume "a = g @ CHR ''/'' # v" "plain_elem g"
  moreover from this have "hd g \<noteq> CHR ''/''" using hd_in_set [of g] by (metis plain_elemD)
  ultimately show ?thesis by auto
qed simp

lemma plain_hd: "plain_elem e \<Longrightarrow> hd e \<noteq> CHR ''/''"
  using hd_in_set [of e] by (metis plain_elemD)

lemma key_elems_plain: "valid_revision r \<Longrightarrow> \<forall>e \<in> set (key_elems r). plain_elem e"
  by (auto simp: valid_revision_def key_elems_def dest: valid_api_elems)

lemma key_elems_not_Nil [simp]: "key_elems r \<noteq> []"
  by (simp add: key_elems_def)

lemma ResourceKey_valid [key_simps]:
  assumes "valid_revision r"
  shows "revision_ResourceKey r = join_with CHR ''/'' (key_elems r)"
proof -
  let ?es = "[apiVersion_of r, kind_of r, namespace_of r, name_of r]"
  have v: "valid_api (apiVersion_of r)" "plain_elem (kind_of r)" "plain_elem (name_of r)"
    "namespace_of r = [] \<or> plain_elem (namespace_of r)"
    using assms by (auto simp: valid_revision_def)
  have "path_join ?es = join_with CHR ''/'' (concat (map path_elems ?es))"
  proof (rule path_join_plain)
    show "\<forall>s \<in> set ?es. \<forall>e \<in> set (path_elems s). plain_elem e"
      using v by (auto dest: valid_api_elems)
    show "\<forall>s \<in> set ?es. s \<noteq> [] \<longrightarrow> hd s \<noteq> CHR ''/''"
      using v by (auto dest: valid_api_hd plain_hd)
    show "\<exists>s \<in> set ?es. path_elems s \<noteq> []"
      using v by auto
  qed
  also have "concat (map path_elems ?es) = key_elems r"
    using v by (auto simp: key_elems_def)
  finally show ?thesis by (simp add: revision_ResourceKey_def ResourceKey_def)
qed

lemma RevisionKey_plain: "plain_elem (revision_RevisionKey r)"
  by (auto simp: plain_elem_def revision_RevisionKey_def Cons_eq_append_conv append_eq_Cons_conv)

lemma Key_valid [key_simps]:
  assumes "valid_revision r"
  shows "revision_Key r = join_with CHR ''/'' (key_elems r @ [revision_RevisionKey r])"
proof -
  let ?k = "join_with CHR ''/'' (key_elems r)" and ?f = "revision_RevisionKey r"
  have el: "path_elems ?k = key_elems r"
    by (rule plain_elems_join [OF key_elems_plain [OF assms]])
  have hd: "hd ?k \<noteq> CHR ''/''"
  proof -
    obtain e es where es: "key_elems r = e # es" by (meson key_elems_not_Nil neq_Nil_conv)
    then have "plain_elem e" using key_elems_plain [OF assms] by auto
    then show ?thesis using join_hd [of e "CHR ''/''" es] es plain_hd [of e] by auto
  qed
  have "path_join [?k, ?f] = join_with CHR ''/'' (concat (map path_elems [?k, ?f]))"
    using hd RevisionKey_plain [of r] key_elems_plain [OF assms] el
    by (intro path_join_plain) (auto dest: plain_hd)
  also have "concat (map path_elems [?k, ?f]) = key_elems r @ [?f]"
    using el RevisionKey_plain [of r] by simp
  finally show ?thesis
    by (simp add: revision_Key_def RevisionKey_def ResourceKey_valid [OF assms])
qed

lemma Key_dir:
  assumes "valid_revision r"
  shows "path_dir (revision_Key r) = revision_ResourceKey r"
  using RevisionKey_plain [of r] key_elems_plain [OF assms]
  by (simp add: Key_valid [OF assms] ResourceKey_valid [OF assms] path_dir_join plain_elem_def)

lemma parse_file_RevisionKey:
  assumes "valid_revision r"
  shows "parse_file (revision_RevisionKey r)
     = Ok (resourceVersion_of r, unix_of (timestamp_of r), deleted_of r)"
proof -
  let ?v = "itoa (resourceVersion_of r)" and ?t = "itoa (unix_of (timestamp_of r))"
  define suf where "suf = (if deleted_of r then ''.json.deleted'' else ''.json'')"
  have key: "revision_RevisionKey r = ?v @ CHR ''-'' # ?t @ suf"
    by (simp add: revision_RevisionKey_def suf_def)
  have nodash: "CHR ''-'' \<notin> set ?v" "CHR ''-'' \<notin> set (?t @ suf)"
    using assms by (auto simp: valid_revision_def suf_def)
  have split: "split_on CHR ''-'' (revision_RevisionKey r) = [?v, ?t @ suf]"
    unfolding key by (simp only: split_on_append [OF nodash(1)] split_on_plain [OF nodash(2)])
  have ts: "hd (split_on CHR ''.'' (?t @ suf)) = ?t"
    by (simp add: suf_def split_on_append)
  have "has_suffix (?t @ suf) ''deleted'' = deleted_of r"
    by (simp add: suf_def has_suffix_def has_prefix_def)
  moreover have "int64 (resourceVersion_of r)" "int64 (unix_of (timestamp_of r))"
    using assms by (auto simp: valid_revision_def int64_def min_int64_def)
  ultimately show ?thesis
    using ts by (simp add: parse_file_def split Let_def)
qed

lemma parse_Key:
  assumes "valid_revision r"
  shows "ParseLazyLoadingRevision (revision_Key r)
     = Ok (LazyLoadingRevision (trunc_revision r) None)"
proof -
  let ?f = "revision_RevisionKey r"
  have split: "split_on CHR ''/'' (revision_Key r) = key_elems r @ [?f]"
    unfolding Key_valid [OF assms]
    using RevisionKey_plain [of r] key_elems_plain [OF assms]
    by (intro split_join_plain) auto
  have pj: "path_join [g, v] = g @ CHR ''/'' # v" if "plain_elem g" "plain_elem v" for g v
    using that by (subst path_join_plain) (auto dest: plain_hd)
  have pj1: "path_join [[], ''v1''] = ''v1''"
    by (subst path_join_plain) auto
  have v: "valid_api (apiVersion_of r)" using assms by (simp add: valid_revision_def)
  note defs = ParseLazyLoadingRevision_def split key_elems_def parseClusterScopedRevision_def
    parseNamespacedRevision_def parse_file_RevisionKey [OF assms] trunc_revision_def
  from v show ?thesis
  proof (cases rule: valid_apiE)
    case 1
    then show ?thesis by (auto simp: defs pj1 intro!: revision.equality)
  next
    case (2 g v)
    then show ?thesis by (auto simp: defs pj intro!: revision.equality)
  qed
qed

lemma Key_inject:
  assumes "valid_revision r" "valid_revision r'" "revision_Key r = revision_Key r'"
  shows "trunc_revision r = trunc_revision r'"
  using parse_Key [OF assms(1)] parse_Key [OF assms(2)] assms(3) by simp

lemma ResourceKey_inject:
  assumes "valid_revision r" "valid_revision r'" "revision_ResourceKey r = revision_ResourceKey r'"
  shows "apiVersion_of r = apiVersion_of r' \<and> kind_of r = kind_of r'
     \<and> namespace_of r = namespace_of r' \<and> name_of r = name_of r'"
proof -
  let ?s = "r'\<lparr>resourceVersion_of := resourceVersion_of r, timestamp_of := timestamp_of r,
    deleted_of := deleted_of r\<rparr>"
  have v: "valid_revision ?s" using assms(1,2) by (simp add: valid_revision_def)
  have "revision_Key r = revision_Key ?s"
    using assms(3) by (simp add: revision_Key_def revision_ResourceKey_def revision_RevisionKey_def)
  from Key_inject [OF assms(1) v this] show ?thesis
    by (cases r; cases r') (simp add: trunc_revision_def)
qed

lemma valid_trunc [simp]: "valid_revision r \<Longrightarrow> valid_revision (trunc_revision r)"
  by (simp add: valid_revision_def trunc_revision_def)

lemma trunc_keys [simp]:
  "revision_Key (trunc_revision r) = revision_Key r"
  "revision_ResourceKey (trunc_revision r) = revision_ResourceKey r"
  by (simp_all add: trunc_revision_def revision_Key_def revision_ResourceKey_def
      revision_RevisionKey_def)

section \<open>Cut and sort\<close>

lemma Cut_one:
  assumes "i < length revs"
  shows "\<exists>arr. Cut revs i (i + 1) = Ok (arr, length revs - 1) \<and> length arr = length revs
     \<and> take (length revs - 1) arr = take i revs @ drop (i + 1) revs"
  using assms by (cases "length revs") (auto simp: Cut_def Let_def min_def less_Suc_eq_le dest: le_antisym)

lemma sort_revs_set [simp]: "set (sort_revs revs) = set revs"
  by (simp add: sort_revs_def)

lemma sort_revs_length [simp]: "length (sort_revs revs) = length revs"
  by (simp add: sort_revs_def)

lemma sort_revs_Nil [simp]: "sort_revs revs = [] \<longleftrightarrow> revs = []"
  by (metis length_0_conv sort_revs_length)

lemma sort_revs_sorted: "sorted (map ResourceVersion (sort_revs revs))"
  by (simp add: sort_revs_def)

lemma sort_revs_last_max:
  "rv \<in> set revs \<Longrightarrow> ResourceVersion rv \<le> ResourceVersion (last (sort_revs revs))"
  unfolding sort_revs_def by (rule filter_sort_key_last) auto

end
