(* ===== verification/Blob.thy ===== *)
theory Blob
  imports Revision "HOL-Library.List_Lexorder" "HOL-Library.Char_ord"
begin

text \<open>
  pkg/store/backend: the blob backend over a bucket of the vendored gocloud.dev library.  A
  bucket holds its objects in a Go map; its operations are those of the in-memory driver
  (memblob), and \<open>faults\<close> says at which operation and key the driver of a remote bucket fails.
  With no fault the bucket is memblob.  Everything the backend does with keys (Walk with its
  skipped directories, ReadDir, RemoveAll in chunks) is translated as it is written.
\<close>

section \<open>The bucket\<close>

datatype bucket_op = OpNewWriter | OpWrite | OpCloseWriter | OpNewReader | OpRead | OpDelete | OpNext

record bucket =
  blobs :: "(string, string) go_map"
  faults :: "bucket_op \<Rightarrow> string \<Rightarrow> error option"

record writer =
  w_key :: string
  w_buf :: string

definition not_found :: error where "not_found = ErrExternal ''blob not found''"

definition bucket_NewWriter :: "bucket \<Rightarrow> string \<Rightarrow> writer result" where
  "bucket_NewWriter b key = (case faults b OpNewWriter key of
     Some e \<Rightarrow> Err e | None \<Rightarrow> Ok \<lparr>w_key = key, w_buf = []\<rparr>)"

definition writer_Write :: "bucket \<Rightarrow> writer \<Rightarrow> string \<Rightarrow> writer result" where
  "writer_Write b w p = (case faults b OpWrite (w_key w) of
     Some e \<Rightarrow> Err e | None \<Rightarrow> Ok (w\<lparr>w_buf := w_buf w @ p\<rparr>))"

text \<open>Closing the writer is what stores the object; the empty key is refused there.\<close>

definition writer_Close :: "bucket \<Rightarrow> writer \<Rightarrow> unit result \<times> bucket" where
  "writer_Close b w =
     (if w_key w = [] then (Err (ErrExternal ''invalid key (empty string(''), b)
      else case faults b OpCloseWriter (w_key w) of
        Some e \<Rightarrow> (Err e, b)
      | None \<Rightarrow> (Ok (), b\<lparr>blobs := go_put (w_key w) (w_buf w) (blobs b)\<rparr>))"

text \<open>A reader is the outcome of reading it to its end.\<close>

definition bucket_NewReader :: "bucket \<Rightarrow> string \<Rightarrow> string result result" where
  "bucket_NewReader b key = (case faults b OpNewReader key of
     Some e \<Rightarrow> Err e
   | None \<Rightarrow> (case go_get (blobs b) key of
        None \<Rightarrow> Err not_found
      | Some d \<Rightarrow> Ok (case faults b OpRead key of Some e \<Rightarrow> Err e | None \<Rightarrow> Ok d)))"

definition bucket_Delete :: "bucket \<Rightarrow> string \<Rightarrow> unit result \<times> bucket" where
  "bucket_Delete b key = (case faults b OpDelete key of
     Some e \<Rightarrow> (Err e, b)
   | None \<Rightarrow> (case go_get (blobs b) key of
        None \<Rightarrow> (Err not_found, b)
      | Some _ \<Rightarrow> (Ok (), b\<lparr>blobs := go_del key (blobs b)\<rparr>)))"

text \<open>
  \<open>ListPaged\<close> over all pages: keys in byte order under a prefix; with a delimiter the keys below
  it collapse to one directory entry each.
\<close>

record list_object =
  lo_key :: string
  lo_is_dir :: bool

fun list_entries :: "string \<Rightarrow> char option \<Rightarrow> string \<Rightarrow> string list \<Rightarrow> list_object list" where
  "list_entries pre delim last_prefix [] = []"
| "list_entries pre delim last_prefix (key # keys) =
     (if \<not> has_prefix key pre then list_entries pre delim last_prefix keys
      else case delim of
        None \<Rightarrow> \<lparr>lo_key = key, lo_is_dir = False\<rparr> # list_entries pre delim last_prefix keys
      | Some d \<Rightarrow>
          let rest = drop (length pre) key in
          if d \<in> set rest then
            let p = pre @ takeWhile (\<lambda>c. c \<noteq> d) rest @ [d] in
            if p = last_prefix then list_entries pre delim last_prefix keys
            else \<lparr>lo_key = p, lo_is_dir = True\<rparr> # list_entries pre delim p keys
          else \<lparr>lo_key = key, lo_is_dir = False\<rparr> # list_entries pre delim last_prefix keys)"

definition bucket_List :: "bucket \<Rightarrow> string \<Rightarrow> char option \<Rightarrow> list_object list" where
  "bucket_List b pre delim = list_entries pre delim [] (sort (map fst (blobs b)))"

section \<open>The backend\<close>

text \<open>
  \<open>be_s3\<close> is the S3 client the bucket converts to (\<open>None\<close> when \<open>As\<close> fails) as far as the code
  calls it: \<open>DeleteObjects\<close> takes the bucket's name and the keys and answers with the deleted
  keys (a key may be nil; the whole answer may be nil) and an error.
\<close>

record Config =
  BucketName :: string
  Root :: string
  S3 :: "(string \<times> string \<times> string \<times> string \<times> string) option"

type_synonym s3_client =
  "string \<Rightarrow> string list \<Rightarrow> bucket \<Rightarrow> ((string option list option \<times> error option) \<times> bucket)"

record Backend =
  be_provider :: string
  be_config :: Config
  be_bucket :: bucket
  be_s3 :: "s3_client option"

definition S3Provider :: string where "S3Provider = ''S3''"
definition MemProvider :: string where "MemProvider = ''memory''"
definition FSProvider :: string where "FSProvider = ''filesystem''"

definition Providers :: "string list" where
  "Providers = [S3Provider, MemProvider, FSProvider]"

definition ProviderMap :: "(string, string) go_map" where
  "ProviderMap = [(S3Provider, S3Provider), (MemProvider, MemProvider), (FSProvider, FSProvider)]"

subsection \<open>Construction\<close>

definition DefaultFSRoot :: string where "DefaultFSRoot = ''.saiki''"
definition DefaultCloudRoot :: string where "DefaultCloudRoot = []"

definition s3ConfigFromEnv ::
    "(string \<Rightarrow> string) \<Rightarrow> string \<times> string \<times> string \<times> string \<times> string" where
  "s3ConfigFromEnv env = (env ''aws-endpoint'', env ''aws-default-region'',
     env ''aws-access-key-id'', env ''aws-secret-access-key'', env ''aws-session-token'')"

definition ConfigFromEnv :: "(string \<Rightarrow> string) \<Rightarrow> string \<Rightarrow> Config" where
  "ConfigFromEnv env provider =
     (let rt = env ''root'' in
      \<lparr>BucketName = env ''aws-bucket'',
       Root = (if rt = [] then
                 (if provider = S3Provider \<or> provider = MemProvider
                  then DefaultCloudRoot else DefaultFSRoot)
               else rt),
       S3 = Some (s3ConfigFromEnv env)\<rparr>)"

text \<open>
  The three \<open>OpenBucket\<close> functions are gocloud's; \<open>openers\<close> gives the bucket each opens.
  Opening a memory bucket cannot fail.
\<close>

record openers =
  open_s3 :: "Config \<Rightarrow> (bucket \<times> s3_client option) result"
  open_mem :: "Config \<Rightarrow> bucket"
  open_fs :: "Config \<Rightarrow> bucket result"

datatype backend_option = WithProvider string | WithConfig Config

fun apply_backend_option :: "backend_option \<Rightarrow> string \<times> Config \<Rightarrow> string \<times> Config" where
  "apply_backend_option (WithProvider p) (_, c) = (p, c)"
| "apply_backend_option (WithConfig c) (p, _) = (p, c)"

definition newS3Provider :: "openers \<Rightarrow> Config \<Rightarrow> (bucket \<times> s3_client option) result" where
  "newS3Provider op config = (case S3 config of
     None \<Rightarrow> Err (ErrMsg ''s3 config empty'')
   | Some _ \<Rightarrow> open_s3 op config)"

definition Backend_New :: "openers \<Rightarrow> backend_option list \<Rightarrow> Backend result" where
  "Backend_New op opts =
     (let (p, c) = fold apply_backend_option opts ([], \<lparr>BucketName = [], Root = [], S3 = None\<rparr>);
          mk = (\<lambda>b s3. \<lparr>be_provider = p, be_config = c, be_bucket = b, be_s3 = s3\<rparr>)
      in if p = S3Provider then
           result_bind (newS3Provider op c) (\<lambda>(b, s3). Ok (mk b s3))
         else if p = MemProvider then Ok (mk (open_mem op c) None)
         else if p = FSProvider then result_bind (open_fs op c) (\<lambda>b. Ok (mk b None))
         else Err (ErrMsg (''implementation not found for provider: '' @ p)))"

definition Backend_NewFromEnv :: "openers \<Rightarrow> (string \<Rightarrow> string) \<Rightarrow> Backend result" where
  "Backend_NewFromEnv op env =
     (let provider = env ''blob-provider'' in
      case go_get ProviderMap provider of
        None \<Rightarrow> Err (ErrMsg (''provider implementation not found for provider: '' @ provider))
      | Some p \<Rightarrow> Backend_New op [WithProvider p, WithConfig (ConfigFromEnv env p)])"

text \<open>
  backends.go: the environment's backend, instrumented.  The error of \<open>blob.NewFromEnv\<close> is
  returned beside the (then nil) backend, which callers do not use.
\<close>

definition backend_NewFromEnv :: "openers \<Rightarrow> (string \<Rightarrow> string) \<Rightarrow> Backend result" where
  "backend_NewFromEnv op env =
     (if env ''backend'' = ''blob'' then Backend_NewFromEnv op env
      else Err (ErrMsg (''no backend store implementation found for '' @ env ''backend'')))"

subsection \<open>Single objects\<close>

definition Backend_Create :: "Backend \<Rightarrow> string \<Rightarrow> writer result" where
  "Backend_Create b name = bucket_NewWriter (be_bucket b) name"

definition Backend_Write :: "Backend \<Rightarrow> writer \<Rightarrow> string \<Rightarrow> writer result" where
  "Backend_Write b w p = writer_Write (be_bucket b) w p"

definition Backend_CloseWriter :: "Backend \<Rightarrow> writer \<Rightarrow> unit result \<times> Backend" where
  "Backend_CloseWriter b w =
     (let (r, bu) = writer_Close (be_bucket b) w in (r, b\<lparr>be_bucket := bu\<rparr>))"

definition Backend_Open :: "Backend \<Rightarrow> string \<Rightarrow> string result result" where
  "Backend_Open b name = bucket_NewReader (be_bucket b) name"

definition Backend_Remove :: "Backend \<Rightarrow> string \<Rightarrow> unit result \<times> Backend" where
  "Backend_Remove b key =
     (let (r, bu) = bucket_Delete (be_bucket b) key in (r, b\<lparr>be_bucket := bu\<rparr>))"

subsection \<open>Listing\<close>

definition FileInfo_IsDir :: "list_object \<Rightarrow> bool" where "FileInfo_IsDir f = lo_is_dir f"
definition FileInfo_Name :: "list_object \<Rightarrow> string" where "FileInfo_Name f = path_base (lo_key f)"

fun readdir_loop :: "bucket \<Rightarrow> list_object list \<Rightarrow> list_object list \<Rightarrow> list_object list result" where
  "readdir_loop b ret [] = Ok ret"
| "readdir_loop b ret (obj # objs) =
     (case faults b OpNext (lo_key obj) of
        Some e \<Rightarrow> Err e
      | None \<Rightarrow> readdir_loop b (if \<not> lo_is_dir obj then ret @ [obj] else ret) objs)"

definition Backend_ReadDir :: "Backend \<Rightarrow> string \<Rightarrow> list_object list result" where
  "Backend_ReadDir b path = readdir_loop (be_bucket b) []
     (bucket_List (be_bucket b) (path @ ''/'') (Some CHR ''/''))"

text \<open>
  \<open>Walk\<close>: the callback works on a state \<open>'s\<close> of its own; once it answers \<open>SkipDir\<close> for a key, the
  later keys of that key's directory are passed over.
\<close>

fun walk_loop :: "(string \<Rightarrow> error option) \<Rightarrow> (string \<Rightarrow> list_object \<Rightarrow> 's \<Rightarrow> unit result \<times> 's)
    \<Rightarrow> string list \<Rightarrow> list_object list \<Rightarrow> 's \<Rightarrow> unit result \<times> 's" where
  "walk_loop next walkFn skippedDirs [] s = (Ok (), s)"
| "walk_loop next walkFn skippedDirs (obj # objs) s =
     (case next (lo_key obj) of
        Some e \<Rightarrow> (Err e, s)
      | None \<Rightarrow>
          let dir = path_dir (lo_key obj) in
          if dir \<in> set skippedDirs then walk_loop next walkFn skippedDirs objs s
          else case walkFn (lo_key obj) obj s of
            (Ok _, s') \<Rightarrow> walk_loop next walkFn skippedDirs objs s'
          | (Err e, s') \<Rightarrow>
              if e = ErrSkipDir then walk_loop next walkFn (dir # skippedDirs) objs s'
              else (Err e, s')
          | (Crash c, s') \<Rightarrow> (Crash c, s'))"

definition Backend_Walk :: "Backend \<Rightarrow> string
    \<Rightarrow> (string \<Rightarrow> list_object \<Rightarrow> 's \<Rightarrow> unit result \<times> 's) \<Rightarrow> 's \<Rightarrow> unit result \<times> 's" where
  "Backend_Walk b prefix walkFn s =
     walk_loop (faults (be_bucket b) OpNext) walkFn [] (bucket_List (be_bucket b) prefix None) s"

subsection \<open>Bulk removal\<close>

definition chunkSize :: nat where "chunkSize = 1000"

definition s3_chunk :: "string list \<Rightarrow> nat \<Rightarrow> string list" where
  "s3_chunk keys i =
     (let startChunk = i * chunkSize;
          endChunk = (if i * chunkSize + chunkSize > length keys then length keys
                      else i * chunkSize + chunkSize)
      in take (endChunk - startChunk) (drop startChunk keys))"

fun s3_remove_loop :: "s3_client \<Rightarrow> string \<Rightarrow> string list list \<Rightarrow> string list \<Rightarrow> bucket
    \<Rightarrow> (string list \<times> error option) \<times> bucket" where
  "s3_remove_loop client name [] deletedKeys bu = ((deletedKeys, None), bu)"
| "s3_remove_loop client name (chunk # chunks) deletedKeys bu =
     (case client name chunk bu of
        ((None, err), bu') \<Rightarrow> (([], err), bu')
      | ((Some out, err), bu') \<Rightarrow>
          s3_remove_loop client name chunks (deletedKeys @ List.map_filter id out) bu')"

fun remove_each :: "Backend \<Rightarrow> string list \<Rightarrow> string list \<Rightarrow> error option
    \<Rightarrow> (string list \<times> error option) \<times> Backend" where
  "remove_each b [] deletedKeys err = ((deletedKeys, err), b)"
| "remove_each b (key # keys) deletedKeys err =
     (case Backend_Remove b key of
        (Ok _, b') \<Rightarrow> remove_each b' keys (deletedKeys @ [key]) None
      | (Err e, b') \<Rightarrow> remove_each b' keys deletedKeys (Some e)
      | (Crash c, b') \<Rightarrow> remove_each b' keys deletedKeys err)"

definition Backend_RemoveAll ::
    "Backend \<Rightarrow> string list \<Rightarrow> (string list \<times> error option) \<times> Backend" where
  "Backend_RemoveAll b keys =
     (if be_provider b = S3Provider then
        (case be_s3 b of
           None \<Rightarrow> (([], Some (ErrMsg ''error converting blob.Bucket to s3.Bucket'')), b)
         | Some client \<Rightarrow>
             let (r, bu) = s3_remove_loop client (BucketName (be_config b))
                   (map (s3_chunk keys) [0 ..< length keys div chunkSize + 1]) [] (be_bucket b)
             in (r, b\<lparr>be_bucket := bu\<rparr>))
      else remove_each b keys [] None)"

section \<open>The contract of a backend\<close>

text \<open>
  What the store and the config rely on: \<open>objs\<close> are the stored objects, a closed writer is what
  a later \<open>Open\<close> reads, and every operation that reports an error has stored nothing.
\<close>

locale backend_contract =
  fixes objs :: "'b \<Rightarrow> string \<Rightarrow> string option"
    and create :: "'b \<Rightarrow> string \<Rightarrow> writer result"
    and wrt :: "'b \<Rightarrow> writer \<Rightarrow> string \<Rightarrow> writer result"
    and close :: "'b \<Rightarrow> writer \<Rightarrow> unit result \<times> 'b"
    and opn :: "'b \<Rightarrow> string \<Rightarrow> string result result"
    and remove :: "'b \<Rightarrow> string \<Rightarrow> unit result \<times> 'b"
  assumes create_ok: "create b k = Ok w \<Longrightarrow> w_key w = k \<and> w_buf w = []"
    and write_ok: "wrt b w p = Ok w' \<Longrightarrow> w_key w' = w_key w \<and> w_buf w' = w_buf w @ p"
    and close_ok: "close b w = (Ok (), b') \<Longrightarrow> objs b' = (objs b)(w_key w \<mapsto> w_buf w)"
    and close_fail: "close b w = (r, b') \<Longrightarrow> r \<noteq> Ok () \<Longrightarrow> objs b' = objs b"
    and open_ok: "opn b k = Ok (Ok d) \<Longrightarrow> objs b k = Some d"
    and open_missing: "objs b k = None \<Longrightarrow> \<exists>e. opn b k = Err e"
    and remove_ok: "remove b k = (Ok (), b') \<Longrightarrow> objs b k \<noteq> None \<and> objs b' = (objs b)(k := None)"
    and remove_fail: "remove b k = (r, b') \<Longrightarrow> r \<noteq> Ok () \<Longrightarrow> objs b' = objs b"
begin

lemma store_then_open:
  assumes "create b k = Ok w" "wrt b w d = Ok w'" "close b w' = (Ok (), b')"
    "opn b' k = Ok (Ok d')"
  shows "d' = d"
  using create_ok [OF assms(1)] write_ok [OF assms(2)] close_ok [OF assms(3)] open_ok [OF assms(4)]
  by simp

lemma close_frame: "close b w = (r, b') \<Longrightarrow> k \<noteq> w_key w \<Longrightarrow> objs b' k = objs b k"
  by (cases "r = Ok ()") (auto dest: close_ok close_fail)

lemma remove_frame: "remove b k = (r, b') \<Longrightarrow> k' \<noteq> k \<Longrightarrow> objs b' k' = objs b k'"
  by (cases "r = Ok ()") (auto dest: remove_ok remove_fail)

lemma remove_shrinks: "remove b k = (r, b') \<Longrightarrow> dom (objs b') \<subseteq> dom (objs b)"
  by (cases "r = Ok ()") (auto dest!: remove_ok remove_fail split: if_splits)

lemma removed_stays_unreadable:
  assumes "remove b k = (Ok (), b')"
  shows "\<exists>e. opn b' k = Err e"
  using remove_ok [OF assms] by (auto intro: open_missing)

end

definition backend_objs :: "Backend \<Rightarrow> string \<Rightarrow> string option" where
  "backend_objs b = go_get (blobs (be_bucket b))"

lemmas blob_defs = Backend_Create_def Backend_Write_def Backend_CloseWriter_def Backend_Open_def
  Backend_Remove_def bucket_NewWriter_def writer_Write_def writer_Close_def bucket_NewReader_def
  bucket_Delete_def backend_objs_def

interpretation blob_be: backend_contract backend_objs Backend_Create Backend_Write
    Backend_CloseWriter Backend_Open Backend_Remove
  by unfold_locales
    (auto simp: blob_defs Let_def split: option.splits if_splits result.splits prod.splits)

text \<open>The other fields of a backend are never changed.\<close>

lemma Backend_CloseWriter_frame [simp]:
  "faults (be_bucket (snd (Backend_CloseWriter b w))) = faults (be_bucket b)"
  "be_provider (snd (Backend_CloseWriter b w)) = be_provider b"
  by (auto simp: blob_defs Let_def split: option.splits)

lemma Backend_Remove_frame [simp]:
  "faults (be_bucket (snd (Backend_Remove b k))) = faults (be_bucket b)"
  "be_provider (snd (Backend_Remove b k)) = be_provider b"
  by (auto simp: blob_defs Let_def split: option.splits)

section \<open>Walking with skipped directories\<close>

text \<open>The walk without the bookkeeping of skipped directories: \<open>SkipDir\<close> only passes a key over.\<close>

fun walk_all :: "(string \<Rightarrow> error option) \<Rightarrow> (string \<Rightarrow> list_object \<Rightarrow> 's \<Rightarrow> unit result \<times> 's)
    \<Rightarrow> list_object list \<Rightarrow> 's \<Rightarrow> unit result \<times> 's" where
  "walk_all next fn [] s = (Ok (), s)"
| "walk_all next fn (obj # objs) s =
     (case next (lo_key obj) of
        Some e \<Rightarrow> (Err e, s)
      | None \<Rightarrow>
          (case fn (lo_key obj) obj s of
            (Ok _, s') \<Rightarrow> walk_all next fn objs s'
          | (Err e, s') \<Rightarrow> if e = ErrSkipDir then walk_all next fn objs s' else (Err e, s')
          | (Crash c, s') \<Rightarrow> (Crash c, s')))"

text \<open>
  The contract between \<open>Walk\<close> and its callback: on the keys walked, answering \<open>SkipDir\<close> changes
  nothing and is an answer for the whole directory.
\<close>

locale walk_callback =
  fixes fn :: "string \<Rightarrow> list_object \<Rightarrow> 's \<Rightarrow> unit result \<times> 's"
    and walked :: "list_object \<Rightarrow> bool"
  assumes skip_frame: "walked obj \<Longrightarrow> fn (lo_key obj) obj s = (Err ErrSkipDir, s') \<Longrightarrow> s' = s"
    and skip_dir: "walked obj \<Longrightarrow> walked obj' \<Longrightarrow> path_dir (lo_key obj') = path_dir (lo_key obj)
      \<Longrightarrow> fst (fn (lo_key obj) obj s) = Err ErrSkipDir
      \<Longrightarrow> fst (fn (lo_key obj') obj' s'') = Err ErrSkipDir"
begin

lemma walk_loop_all:
  assumes "\<forall>obj \<in> set objs. walked obj"
    and "\<forall>d \<in> set skipped. \<exists>obj s. walked obj \<and> path_dir (lo_key obj) = d
      \<and> fst (fn (lo_key obj) obj s) = Err ErrSkipDir"
  shows "walk_loop next fn skipped objs s = walk_all next fn objs s"
  using assms
proof (induction objs arbitrary: skipped s)
  case (Cons obj objs)
  let ?k = "lo_key obj"
  have w: "walked obj" using Cons.prems(1) by simp
  show ?case
  proof (cases "next ?k")
    case None
    show ?thesis
    proof (cases "path_dir ?k \<in> set skipped")
      case True
      then obtain obj' s' where "walked obj'" "path_dir (lo_key obj') = path_dir ?k"
        "fst (fn (lo_key obj') obj' s') = Err ErrSkipDir" using Cons.prems(2) by blast
      then have "fst (fn ?k obj s) = Err ErrSkipDir"
        using skip_dir [of obj' obj s' s] w by simp
      then have "fn ?k obj s = (Err ErrSkipDir, s)"
        using skip_frame [OF w] by (metis prod.collapse)
      with True None Cons show ?thesis by simp
    next
      case False
      obtain r s' where fn: "fn ?k obj s = (r, s')" by (cases "fn ?k obj s")
      have sk: "\<exists>obj s. walked obj \<and> path_dir (lo_key obj) = path_dir ?k
          \<and> fst (fn (lo_key obj) obj s) = Err ErrSkipDir"
        if "r = Err ErrSkipDir" using that fn w by (metis fst_conv)
      show ?thesis using False None fn sk Cons by (auto split: result.split)
    qed
  qed simp
qed simp

end

lemma list_entries_flat:
  "list_entries pre None lp keys
     = map (\<lambda>k. \<lparr>lo_key = k, lo_is_dir = False\<rparr>) (filter (\<lambda>k. has_prefix k pre) keys)"
  by (induction keys arbitrary: lp) auto

lemma bucket_List_flat:
  "bucket_List b pre None = map (\<lambda>k. \<lparr>lo_key = k, lo_is_dir = False\<rparr>)
     (filter (\<lambda>k. has_prefix k pre) (sort (map fst (blobs b))))"
  by (simp add: bucket_List_def list_entries_flat)

lemma list_entries_files:
  "filter (\<lambda>obj. \<not> lo_is_dir obj) (list_entries pre (Some d) lp keys)
     = map (\<lambda>k. \<lparr>lo_key = k, lo_is_dir = False\<rparr>)
         (filter (\<lambda>k. has_prefix k pre \<and> d \<notin> set (drop (length pre) k)) keys)"
  by (induction keys arbitrary: lp) (auto simp: Let_def)

lemma readdir_loop_ok:
  "\<forall>k. faults b OpNext k = None \<Longrightarrow>
     readdir_loop b ret objs = Ok (ret @ filter (\<lambda>obj. \<not> lo_is_dir obj) objs)"
  by (induction objs arbitrary: ret) auto

lemma Backend_ReadDir_ok:
  assumes "\<forall>k. faults (be_bucket b) OpNext k = None"
  shows "Backend_ReadDir b path = Ok (map (\<lambda>k. \<lparr>lo_key = k, lo_is_dir = False\<rparr>)
     (filter (\<lambda>k. has_prefix k (path @ ''/'') \<and> CHR ''/'' \<notin> set (drop (length path + 1) k))
        (sort (map fst (blobs (be_bucket b))))))"
  by (simp add: Backend_ReadDir_def readdir_loop_ok [OF assms] bucket_List_def list_entries_files)

section \<open>Bulk removal\<close>

lemma concat_take_drop:
  "concat (map (\<lambda>i. take c (drop (i * c) xs)) [0 ..< n]) = take (n * c) xs"
proof (induction n)
  case (Suc n)
  then show ?case by (simp add: take_add [symmetric] add.commute)
qed simp

lemma s3_chunk_take:
  "i * chunkSize \<le> length keys \<Longrightarrow> s3_chunk keys i = take chunkSize (drop (i * chunkSize) keys)"
  by (auto simp: s3_chunk_def Let_def)

definition s3_chunks :: "string list \<Rightarrow> string list list" where
  "s3_chunks keys = map (s3_chunk keys) [0 ..< length keys div chunkSize + 1]"

lemma chunkSize_pos [simp]: "0 < chunkSize" "chunkSize \<noteq> 0" by (simp_all add: chunkSize_def)

lemma chunk_start:
  assumes "i < length keys div chunkSize + 1"
  shows "i * chunkSize \<le> length keys"
proof -
  have "i \<le> length keys div chunkSize" using assms by simp
  then have "i * chunkSize \<le> (length keys div chunkSize) * chunkSize" by simp
  also have "\<dots> \<le> length keys" by simp
  finally show ?thesis .
qed

lemma s3_chunks_concat: "concat (s3_chunks keys) = keys"
proof -
  have "s3_chunks keys = map (\<lambda>i. take chunkSize (drop (i * chunkSize) keys))
      [0 ..< length keys div chunkSize + 1]"
    unfolding s3_chunks_def by (rule map_cong) (auto intro!: s3_chunk_take chunk_start)
  then have "concat (s3_chunks keys) = take ((length keys div chunkSize + 1) * chunkSize) keys"
    by (simp add: concat_take_drop del: upt_Suc)
  moreover have "length keys \<le> (length keys div chunkSize + 1) * chunkSize"
    using dividend_less_div_times [OF chunkSize_pos(1), of "length keys"] by (simp add: algebra_simps)
  ultimately show ?thesis by simp
qed

lemma s3_chunks_bound: "c \<in> set (s3_chunks keys) \<Longrightarrow> length c \<le> chunkSize"
  by (auto simp: s3_chunks_def s3_chunk_take chunk_start less_Suc_eq_le simp del: upt_Suc)

lemma s3_last_chunk_empty: "last (s3_chunks keys) = [] \<longleftrightarrow> chunkSize dvd length keys"
proof -
  let ?q = "length keys div chunkSize"
  have "last (s3_chunks keys) = take chunkSize (drop (?q * chunkSize) keys)"
    by (simp add: s3_chunks_def s3_chunk_take chunk_start)
  then have "last (s3_chunks keys) = [] \<longleftrightarrow> length keys \<le> ?q * chunkSize"
    using chunkSize_pos by simp
  also have "\<dots> \<longleftrightarrow> length keys mod chunkSize = 0"
    using div_mult_mod_eq [of "length keys" chunkSize] by linarith
  finally show ?thesis by (simp add: dvd_eq_mod_eq_0)
qed

definition removable :: "Backend \<Rightarrow> string \<Rightarrow> bool" where
  "removable b k \<longleftrightarrow> faults (be_bucket b) OpDelete k = None \<and> backend_objs b k \<noteq> None"

lemma Backend_Remove_result:
  "fst (Backend_Remove b k) = Ok () \<longleftrightarrow> removable b k"
  "fst (Backend_Remove b k) \<noteq> Crash c"
  by (auto simp: removable_def blob_defs Let_def split: option.splits)

lemma removable_other:
  "k' \<noteq> k \<Longrightarrow> removable (snd (Backend_Remove b k)) k' = removable b k'"
  using blob_be.remove_frame [of b k "fst (Backend_Remove b k)" "snd (Backend_Remove b k)" k']
  by (simp add: removable_def)

lemma remove_each_deleted:
  "distinct keys \<Longrightarrow>
     fst (fst (remove_each b keys acc err)) = acc @ filter (removable b) keys"
proof (induction keys arbitrary: b acc err)
  case (Cons k keys)
  obtain r b' where r: "Backend_Remove b k = (r, b')" by (cases "Backend_Remove b k")
  have *: "filter (removable b') keys = filter (removable b) keys"
  proof (rule filter_cong [OF refl])
    fix x assume "x \<in> set keys"
    with Cons.prems have "x \<noteq> k" by auto
    from removable_other [OF this, of b] r show "removable b' x = removable b x" by simp
  qed
  show ?case
    using Cons Backend_Remove_result [of b k] r * by (auto split: result.split)
qed simp

lemma remove_each_objs:
  "distinct keys \<Longrightarrow> backend_objs (snd (remove_each b keys acc err)) k
     = (if k \<in> set keys \<and> removable b k then None else backend_objs b k)"
proof (induction keys arbitrary: b acc err)
  case (Cons k0 keys)
  obtain r b' where r: "Backend_Remove b k0 = (r, b')" by (cases "Backend_Remove b k0")
  have ok: "r = Ok () \<longleftrightarrow> removable b k0" and nc: "\<And>c. r \<noteq> Crash c"
    using Backend_Remove_result [of b k0] r by auto
  have step: "backend_objs (snd (remove_each b (k0 # keys) acc err)) k
      = (if k \<in> set keys \<and> removable b' k then None else backend_objs b' k)"
    using Cons nc by (auto simp: r split: result.split)
  show ?case
  proof (cases "k = k0")
    case True
    with Cons.prems have "k \<notin> set keys" by simp
    with step True ok blob_be.remove_ok [of b k0 b'] blob_be.remove_fail [of b k0 r b'] r
    show ?thesis by (cases "r = Ok ()") auto
  next
    case False
    then show ?thesis
      using step removable_other [of k k0 b] blob_be.remove_frame [OF r, of k] r by simp
  qed
qed simp

lemma remove_each_error:
  "distinct keys \<Longrightarrow> keys \<noteq> [] \<Longrightarrow>
     snd (fst (remove_each b keys acc err)) = None \<longleftrightarrow> removable b (last keys)"
proof (induction keys arbitrary: b acc err)
  case (Cons k keys)
  obtain r b' where r: "Backend_Remove b k = (r, b')" by (cases "Backend_Remove b k")
  have ok: "r = Ok () \<longleftrightarrow> removable b k" and nc: "\<And>c. r \<noteq> Crash c"
    using Backend_Remove_result [of b k] r by auto
  show ?case
  proof (cases "keys = []")
    case True
    with ok nc show ?thesis by (auto simp: r split: result.split)
  next
    case False
    then have "last keys \<noteq> k" using Cons.prems by (metis distinct.simps(2) last_in_set)
    then have "removable b' (last keys) = removable b (last keys)"
      using removable_other [of "last keys" k b] r by simp
    with False Cons nc show ?thesis by (auto simp: r split: result.split)
  qed
qed simp

end
