(* ===== verification/Crypt.thy ===== *)
theory Crypt
  imports Revision
begin

text \<open>
  pkg/store/crypt: the encrypters.  The cipher is Go's crypto library and stays a parameter
  (\<open>aead\<close>, \<open>crypto_lib\<close>); what the code does with it, the nonce in front of the sealed data and
  the unchecked slicing when it decrypts, is translated.
\<close>

record aead =
  NonceSize :: nat
  Seal :: "string \<Rightarrow> string \<Rightarrow> string"
  Open :: "string \<Rightarrow> string \<Rightarrow> string result"

record AESEncrypter =
  HashAlgorithm :: string
  AEAD :: aead

text \<open>\<open>random\<close> is the outcome of filling the nonce, \<open>r\<close> that of reading the input to its end.\<close>

definition AES_Encrypt :: "AESEncrypter \<Rightarrow> string result \<Rightarrow> string result \<Rightarrow> string result" where
  "AES_Encrypt a random r = result_bind random (\<lambda>nonce.
     result_bind r (\<lambda>data. Ok (nonce @ Seal (AEAD a) nonce data)))"

definition AES_Decrypt :: "AESEncrypter \<Rightarrow> string result \<Rightarrow> string result" where
  "AES_Decrypt a r = result_bind r (\<lambda>data.
     let nonceSize = NonceSize (AEAD a) in
     if length data < nonceSize then Crash (Panic ''slice bounds out of range'')
     else Open (AEAD a) (take nonceSize data) (drop nonceSize data))"

definition AES_Algorithm :: "AESEncrypter \<Rightarrow> string" where "AES_Algorithm a = ''AES''"
definition AES_Hasher :: "AESEncrypter \<Rightarrow> string" where "AES_Hasher a = HashAlgorithm a"

text \<open>
  The crypto library as far as the constructors use it: whether SHA-256 is linked in, its digest,
  and the AES block cipher in Galois counter mode for a key.
\<close>

record crypto_lib =
  sha256_available :: bool
  sha256 :: "string \<Rightarrow> string result"
  aes_cipher :: "string \<Rightarrow> string result"
  new_gcm :: "string \<Rightarrow> aead result"

definition createHash :: "crypto_lib \<Rightarrow> string \<Rightarrow> string result" where
  "createHash lib key = sha256 lib key"

definition fatal_on_err :: "string \<Rightarrow> 'a result \<Rightarrow> 'a result" where
  "fatal_on_err msg r = (case r of Err e \<Rightarrow> Crash (Fatal msg) | _ \<Rightarrow> r)"

definition NewAESEncrypter :: "crypto_lib \<Rightarrow> string \<Rightarrow> AESEncrypter result" where
  "NewAESEncrypter lib key =
     (if key = [] then Crash (Fatal ''aes encryption key cannot be blank'')
      else if \<not> sha256_available lib
      then Crash (Fatal ''could not find compatible hash algorithm'')
      else result_bind (fatal_on_err ''creating crypto hash'' (createHash lib key)) (\<lambda>hash.
           result_bind (fatal_on_err ''creating aes cipher'' (aes_cipher lib hash)) (\<lambda>block.
           result_bind (fatal_on_err ''creating gcm'' (new_gcm lib block)) (\<lambda>gcm.
             Ok \<lparr>HashAlgorithm = ''SHA256'', AEAD = gcm\<rparr>))))"

definition Crypt_New :: "crypto_lib \<Rightarrow> string \<Rightarrow> string \<Rightarrow> AESEncrypter result" where
  "Crypt_New lib algorithm key =
     (if algorithm = ''AES'' then NewAESEncrypter lib key
      else Err (ErrMsg (''encrypter not found with algorithm: '' @ algorithm)))"

text \<open>No algorithm or no key means no encrypter.\<close>

definition Crypt_NewFromEnv :: "crypto_lib \<Rightarrow> (string \<Rightarrow> string) \<Rightarrow> AESEncrypter option result" where
  "Crypt_NewFromEnv lib env =
     (let algorithm = env ''encryption-algorithm''; key = env ''encryption-key'' in
      if algorithm = [] \<or> key = [] then Ok None
      else result_bind (Crypt_New lib algorithm key) (\<lambda>a. Ok (Some a)))"

text \<open>What the code relies on: opening what was sealed under the same nonce gives it back.\<close>

definition aead_sound :: "aead \<Rightarrow> bool" where
  "aead_sound a \<longleftrightarrow> (\<forall>nonce data. length nonce = NonceSize a \<longrightarrow>
     Open a nonce (Seal a nonce data) = Ok data)"

lemma AES_round_trip:
  assumes "aead_sound (AEAD a)" "length nonce = NonceSize (AEAD a)"
  shows "result_bind (AES_Encrypt a (Ok nonce) (Ok data)) (\<lambda>c. AES_Decrypt a (Ok c)) = Ok data"
  using assms by (simp add: AES_Encrypt_def AES_Decrypt_def aead_sound_def)

lemma AES_Decrypt_short:
  "length data < NonceSize (AEAD a) \<Longrightarrow>
     AES_Decrypt a (Ok data) = Crash (Panic ''slice bounds out of range'')"
  by (simp add: AES_Decrypt_def)

end
