(* ===== verification/Storage.thy ===== *)
theory Storage
  imports Blob Crypt
begin

text \<open>
  pkg/store/storage.go: the revision store on a backend.  Its state is the backend, the
  optional encrypter and the cache of the latest revision key per resource.  This theory has
  the single-revision operations (\<open>get\<close>, \<open>save\<close>, \<open>List\<close>, \<open>Get\<close>, \<open>Update\<close>, \<open>Delete\<close>), the content of lazy
  revisions and the purger; the walks (\<open>State\<close>, \<open>Sync\<close>) are in theory Store\_Walk.
\<close>

section \<open>The store\<close>

text \<open>
  Parameters of a store that stand for other code: \<open>codec\<close> is encoding/json on unstructured
  objects, \<open>s_clock\<close> and \<open>s_nonce\<close> give the n-th reading of the clock and of the random source,
  \<open>s_ticks\<close> counts the readings.  \<open>s_bulk\<close> says whether the backend is a \<open>BulkRemover\<close>.
\<close>

record codec =
  json_marshal :: "object \<Rightarrow> string result"
  json_unmarshal :: "string \<Rightarrow> object result"

record store =
  s_backend :: Backend
  s_bulk :: bool
  s_enableCache :: bool
  s_encrypter :: "AESEncrypter option"
  s_writeSemaphore :: "int option"
  s_latestCache :: "(string, string) go_map"
  s_deleteUntracked :: bool
  s_codec :: codec
  s_clock :: "nat \<Rightarrow> gotime"
  s_nonce :: "nat \<Rightarrow> string result"
  s_ticks :: nat

definition tick :: "store \<Rightarrow> store" where
  "tick s = s\<lparr>s_ticks := Suc (s_ticks s)\<rparr>"

definition store_Backend :: "store \<Rightarrow> string" where
  "store_Backend s = be_provider (s_backend s)"

section \<open>Reading\<close>

definition store_get :: "string \<Rightarrow> store \<Rightarrow> Revision result \<times> store" where
  "store_get filepath s = on_ok (Backend_Open (s_backend s) filepath, s) (\<lambda>f s.
     on_ok (case s_encrypter s of Some a \<Rightarrow> AES_Decrypt a f | None \<Rightarrow> f, s) (\<lambda>data s.
     on_ok (json_unmarshal (s_codec s) data, s) (\<lambda>storedU s.
       (Ok (RevisionFrom (s_clock s (s_ticks s)) storedU), tick s))))"

fun list_loop :: "string \<Rightarrow> list_object list \<Rightarrow> Revision list \<Rightarrow> Revision list result" where
  "list_loop resourceKey [] revisions = Ok revisions"
| "list_loop resourceKey (info # infos) revisions =
     result_bind (ParseLazyLoadingRevision (RevisionKey resourceKey (FileInfo_Name info)))
       (\<lambda>r. list_loop resourceKey infos (if \<not> Deleted r then revisions @ [r] else revisions))"

definition ns_List :: "string \<Rightarrow> string \<Rightarrow> string \<Rightarrow> string \<Rightarrow> store \<Rightarrow> Revision list result" where
  "ns_List ns apiVersion kind nm s =
     (let resourceKey = ResourceKey apiVersion kind ns nm in
      result_bind (Backend_ReadDir (s_backend s) resourceKey) (\<lambda>infos.
      result_bind (list_loop resourceKey infos []) (\<lambda>revisions. Ok (sort_revs revisions))))"

text \<open>\<open>latestTS\<close> stays at the zero time: the loop never assigns it.\<close>

fun latest_loop :: "gotime \<Rightarrow> Revision list \<Rightarrow> Revision option \<Rightarrow> Revision option" where
  "latest_loop latestTS [] latest = latest"
| "latest_loop latestTS (r # revisions) latest =
     latest_loop latestTS revisions
       (if after (RevisionTimestamp r) latestTS then Some r else latest)"

definition latestRevision :: "Revision \<Rightarrow> store \<Rightarrow> Revision option result" where
  "latestRevision rv s =
     result_bind (ns_List (Namespace rv) (APIVersion rv) (Kind rv) (Name rv) s)
       (\<lambda>revisions. Ok (latest_loop zero_time revisions None))"

text \<open>\<open>Ok None\<close> is the pair \<open>nil, nil\<close>.\<close>

definition ns_Get :: "Revision \<Rightarrow> store \<Rightarrow> Revision option result \<times> store" where
  "ns_Get rv s =
     (let resourceKey = rev_ResourceKey rv in
      case go_get (s_latestCache s) resourceKey of
        Some latest \<Rightarrow>
          on_ok (store_get (RevisionKey resourceKey latest) s) (\<lambda>r s. (Ok (Some r), s))
      | None \<Rightarrow> on_ok (latestRevision rv s, s) (\<lambda>latest s.
          case latest of
            None \<Rightarrow> (Ok None, s)
          | Some l \<Rightarrow>
              let s = s\<lparr>s_latestCache := go_put resourceKey (rev_RevisionKey l) (s_latestCache s)\<rparr>
              in on_ok (store_get (RevisionKey resourceKey (rev_RevisionKey l)) s)
                   (\<lambda>r s. (Ok (Some r), s))))"

section \<open>Content\<close>

text \<open>
  The content of a revision, with the revision after the call: a lazy one keeps what its
  \<open>sync.Once\<close> loaded, and nothing when loading failed.
\<close>

fun Content :: "Revision \<Rightarrow> store \<Rightarrow> object result \<times> (store \<times> Revision)" where
  "Content (ConcreteRevision r u) s = (Ok u, (s, ConcreteRevision r u))"
| "Content (LazyLoadingRevision r (Some u)) s = (Ok u, (s, LazyLoadingRevision r (Some u)))"
| "Content (LazyLoadingRevision r None) s =
     (let l = LazyLoadingRevision r None in
      case ns_Get l s of
        (Err e, s') \<Rightarrow> (Err e, (s', l))
      | (Crash c, s') \<Rightarrow> (Crash c, (s', l))
      | (Ok got, s') \<Rightarrow>
          (case got of
             Some (ConcreteRevision _ u) \<Rightarrow> (Ok u, (s', LazyLoadingRevision r (Some u)))
           | _ \<Rightarrow> (Crash (Fatal
               ''lazy loading revision's store must return a concrete revision on get''), (s', l))))"

section \<open>Writing\<close>

definition encrypt_data :: "string \<Rightarrow> store \<Rightarrow> string result \<times> store" where
  "encrypt_data data s = (case s_encrypter s of
     None \<Rightarrow> (Ok data, s)
   | Some a \<Rightarrow> (AES_Encrypt a (s_nonce s (s_ticks s)) (Ok data), tick s))"

definition store_write :: "writer \<Rightarrow> Revision \<Rightarrow> store \<Rightarrow> unit result \<times> (writer \<times> store \<times> Revision)"
where
  "store_write w rv s =
     (case Content rv s of (ru, (s, rv)) \<Rightarrow>
      on_ok (ru, (w, s, rv)) (\<lambda>u (w, s, rv).
      on_ok (json_marshal (s_codec s) u, (w, s, rv)) (\<lambda>data (w, s, rv).
      case encrypt_data data s of (rd, s) \<Rightarrow>
      on_ok (rd, (w, s, rv)) (\<lambda>data (w, s, rv).
      on_ok (Backend_Write (s_backend s) w data, (w, s, rv)) (\<lambda>w' (w, s, rv).
        (Ok (), (w', s, rv)))))))"

text \<open>
  The deferred \<open>Close\<close> runs whether \<open>write\<close> succeeds, fails or panics, and its error is dropped;
  klog's \<open>Fatal\<close> ends the process before it.
\<close>

definition store_save :: "Revision \<Rightarrow> store \<Rightarrow> unit result \<times> (store \<times> Revision)" where
  "store_save rv s =
     on_ok (Backend_Create (s_backend s) (rev_Key rv), (s, rv)) (\<lambda>f (s, rv).
     case store_write f rv s of (r, (f, s, rv)) \<Rightarrow>
       (case r of
          Crash (Fatal m) \<Rightarrow> (r, (s, rv))
        | _ \<Rightarrow> (r, (s\<lparr>s_backend := snd (Backend_CloseWriter (s_backend s) f)\<rparr>, rv))))"

definition ns_Update :: "Revision \<Rightarrow> store \<Rightarrow> Revision result \<times> (store \<times> Revision)" where
  "ns_Update rv s = on_ok (store_save rv s) (\<lambda>_ (s, rv).
     (Ok rv, (s\<lparr>s_latestCache := go_put (rev_ResourceKey rv) (rev_RevisionKey rv)
                  (s_latestCache s)\<rparr>, rv)))"

definition ns_Create :: "Revision \<Rightarrow> store \<Rightarrow> Revision result \<times> (store \<times> Revision)" where
  "ns_Create rv s = ns_Update rv s"

definition ns_Delete :: "Revision \<Rightarrow> store \<Rightarrow> unit result \<times> (store \<times> Revision)" where
  "ns_Delete rv s = store_save (SetDeleted True rv) s"

section \<open>Purging\<close>

definition PurgeRevision :: "Revision \<Rightarrow> store \<Rightarrow> unit result \<times> store" where
  "PurgeRevision rv s =
     (let (r, b) = Backend_Remove (s_backend s) (rev_Key rv) in (r, s\<lparr>s_backend := b\<rparr>))"

text \<open>The deleted keys, parsed back; a key that does not parse is left out.\<close>

fun parse_deleted :: "string list \<Rightarrow> Revision list \<Rightarrow> Revision list result" where
  "parse_deleted [] deletedRevs = Ok deletedRevs"
| "parse_deleted (k # ks) deletedRevs =
     (case ParseLazyLoadingRevision k of
        Ok rv \<Rightarrow> parse_deleted ks (deletedRevs @ [rv])
      | Err e \<Rightarrow> parse_deleted ks deletedRevs
      | Crash c \<Rightarrow> Crash c)"

fun purge_each :: "string list \<Rightarrow> Revision list \<Rightarrow> store \<Rightarrow> Revision list result \<times> store" where
  "purge_each [] deletedRevs s = (Ok deletedRevs, s)"
| "purge_each (key # keys) deletedRevs s =
     (let (r, b) = Backend_Remove (s_backend s) key; s = s\<lparr>s_backend := b\<rparr> in
      case r of
        Err e \<Rightarrow> purge_each keys deletedRevs s
      | Crash c \<Rightarrow> (Crash c, s)
      | Ok _ \<Rightarrow>
          (case ParseLazyLoadingRevision key of
             Ok rv \<Rightarrow> purge_each keys (deletedRevs @ [rv]) s
           | Err e \<Rightarrow> purge_each keys deletedRevs s
           | Crash c \<Rightarrow> (Crash c, s)))"

definition PurgeRevisions ::
    "Revision list \<Rightarrow> store \<Rightarrow> (Revision list \<times> error option) result \<times> store" where
  "PurgeRevisions revs s =
     (if revs = [] then (Ok ([], None), s)
      else
        let keys = map rev_Key revs in
        if s_bulk s then
          let ((deletedKeys, err), b) = Backend_RemoveAll (s_backend s) keys in
          on_ok (parse_deleted deletedKeys [], s\<lparr>s_backend := b\<rparr>)
            (\<lambda>deletedRevs s. (Ok (deletedRevs, err), s))
        else on_ok (purge_each keys [] s) (\<lambda>deletedRevs s. (Ok (deletedRevs, None), s)))"

section \<open>Stored keys\<close>

text \<open>
  The keys a store holds: the configuration's, and keys of valid revisions.  \<open>stored_revs\<close> are the
  revisions a backend holds, in the order of a walk.
\<close>

definition DefaultConfig :: string where "DefaultConfig = ''config.json''"

definition key_rev :: "string \<Rightarrow> Revision option" where
  "key_rev k = (case ParseLazyLoadingRevision k of Ok rv \<Rightarrow> Some rv | _ \<Rightarrow> None)"

definition stored_key :: "string \<Rightarrow> bool" where
  "stored_key k = (case key_rev k of
     Some rv \<Rightarrow> valid_revision (meta rv) \<and> rev_Key rv = k | None \<Rightarrow> False)"

definition stored_revs :: "Backend \<Rightarrow> Revision list" where
  "stored_revs b = List.map_filter key_rev (sort (map fst (blobs (be_bucket b))))"

definition backend_wf :: "Backend \<Rightarrow> bool" where
  "backend_wf b \<longleftrightarrow> go_wf (blobs (be_bucket b))
     \<and> (\<forall>(k, d) \<in> set (blobs (be_bucket b)). k = DefaultConfig \<or> stored_key k)"

definition fault_free :: "Backend \<Rightarrow> bool" where
  "fault_free b \<longleftrightarrow> faults (be_bucket b) = (\<lambda>_ _. None)"

named_theorems store_simps \<open>parsing the keys of a store\<close>

lemma key_rev_Key [store_simps]:
  "valid_revision r \<Longrightarrow> key_rev (revision_Key r) = Some (LazyLoadingRevision (trunc_revision r) None)"
  by (simp add: key_rev_def parse_Key)

lemma stored_key_Key [store_simps]: "valid_revision r \<Longrightarrow> stored_key (revision_Key r)"
  by (simp add: stored_key_def key_rev_Key)

lemma stored_keyE:
  assumes "stored_key k"
  obtains r where "valid_revision r" "k = revision_Key r" "trunc_revision r = r"
    "key_rev k = Some (LazyLoadingRevision r None)"
    "ParseLazyLoadingRevision k = Ok (LazyLoadingRevision r None)"
proof -
  from assms obtain rv where rv: "valid_revision (meta rv)" "rev_Key rv = k"
    by (auto simp: stored_key_def split: option.splits)
  let ?r = "trunc_revision (meta rv)"
  have "trunc_revision ?r = ?r" by (simp add: trunc_revision_def)
  with rv show ?thesis
    using that [of ?r] key_rev_Key [of "meta rv"] parse_Key [of "meta rv"] by simp
qed

lemma config_parse:
  "ParseLazyLoadingRevision DefaultConfig
     = Err (ErrMsg (''invalid path for revision: '' @ DefaultConfig))"
  "path_dir DefaultConfig = ''.''" "key_rev DefaultConfig = None" "\<not> stored_key DefaultConfig"
proof -
  show *: "ParseLazyLoadingRevision DefaultConfig
     = Err (ErrMsg (''invalid path for revision: '' @ DefaultConfig))"
    by (simp add: ParseLazyLoadingRevision_def DefaultConfig_def)
  show "path_dir DefaultConfig = ''.''" by (simp add: path_dir_def DefaultConfig_def clean_def)
  show "key_rev DefaultConfig = None" by (simp add: key_rev_def *)
  then show "\<not> stored_key DefaultConfig" by (simp add: stored_key_def)
qed

lemma Key_split:
  "valid_revision r \<Longrightarrow> revision_Key r = revision_ResourceKey r @ CHR ''/'' # revision_RevisionKey r"
  by (simp add: Key_valid ResourceKey_valid join_with_snoc)

lemma RevisionKey_no_slash [simp]: "CHR ''/'' \<notin> set (revision_RevisionKey r)"
  using RevisionKey_plain [of r] by (auto simp: plain_elem_def)

lemma path_base_append:
  assumes "CHR ''/'' \<notin> set f" "f \<noteq> []"
  shows "path_base (d @ CHR ''/'' # f) = f"
proof -
  obtain c g where g: "rev f = c # g" using assms(2) by (cases "rev f") auto
  then have "c \<in> set f" by (metis list.set_intros(1) set_rev)
  with assms(1) have c: "c \<noteq> CHR ''/''" by metis
  have "takeWhile (\<lambda>c. c \<noteq> CHR ''/'') (rev f @ CHR ''/'' # rev d) = rev f"
    using assms(1) by (subst takeWhile_append2) auto
  moreover have "dropWhile (\<lambda>c. c = CHR ''/'') (rev f @ CHR ''/'' # rev d) = rev f @ CHR ''/'' # rev d"
    using c by (simp add: g)
  ultimately show ?thesis using assms(2) by (simp add: path_base_def Let_def)
qed

lemma Key_base: "valid_revision r \<Longrightarrow> path_base (revision_Key r) = revision_RevisionKey r"
  using RevisionKey_plain [of r] by (simp add: Key_split path_base_append plain_elem_def)

lemma last_slash_unique:
  assumes "d @ CHR ''/'' # t = d' @ CHR ''/'' # t'" "CHR ''/'' \<notin> set t" "CHR ''/'' \<notin> set t'"
  shows "d = d'"
proof -
  have "rev t @ CHR ''/'' # rev d = rev t' @ CHR ''/'' # rev d'"
    using arg_cong [OF assms(1), of rev] by simp
  then have "dropWhile (\<lambda>c. c \<noteq> CHR ''/'') (rev t @ CHR ''/'' # rev d)
      = dropWhile (\<lambda>c. c \<noteq> CHR ''/'') (rev t' @ CHR ''/'' # rev d')" by simp
  moreover have "dropWhile (\<lambda>c. c \<noteq> CHR ''/'') (rev u @ CHR ''/'' # v) = CHR ''/'' # v"
    if "CHR ''/'' \<notin> set u" for u v using that by (subst dropWhile_append2) auto
  ultimately show ?thesis using assms(2,3) by simp
qed

lemma Key_under_dir:
  assumes "valid_revision r"
  shows "has_prefix (revision_Key r) (d @ ''/'')
     \<and> CHR ''/'' \<notin> set (drop (length d + 1) (revision_Key r)) \<longleftrightarrow> revision_ResourceKey r = d"
    (is "?l \<longleftrightarrow> ?r")
proof
  assume ?l
  then obtain t where t: "revision_Key r = d @ CHR ''/'' # t" "CHR ''/'' \<notin> set t"
    by (auto simp: has_prefix_iff)
  with Key_split [OF assms] RevisionKey_no_slash [of r] show ?r
    by (metis last_slash_unique)
qed (auto simp: Key_split [OF assms] has_prefix_iff)

lemma backend_wf_keys:
  "backend_wf b \<Longrightarrow> k \<in> set (sort (map fst (blobs (be_bucket b)))) \<Longrightarrow> k = DefaultConfig \<or> stored_key k"
  by (auto simp: backend_wf_def)

section \<open>What List and Get return\<close>

lemma list_loop_ok:
  "\<forall>k \<in> set ks. stored_key k \<and> path_dir k = rk \<Longrightarrow>
     list_loop rk (map (\<lambda>k. \<lparr>lo_key = k, lo_is_dir = d\<rparr>) ks) acc
       = Ok (acc @ filter (\<lambda>r. \<not> Deleted r) (List.map_filter key_rev ks))"
proof (induction ks arbitrary: acc)
  case (Cons k ks)
  then have "stored_key k" "path_dir k = rk" by simp_all
  then obtain r where r: "valid_revision r" "k = revision_Key r"
    "key_rev k = Some (LazyLoadingRevision r None)"
    "ParseLazyLoadingRevision k = Ok (LazyLoadingRevision r None)"
    by (auto elim: stored_keyE)
  have "RevisionKey rk (path_base k) = k"
    using \<open>path_dir k = rk\<close> unfolding r(2) Key_base [OF r(1)] Key_dir [OF r(1)]
    by (simp add: revision_Key_def)
  with r Cons show ?case by (simp add: FileInfo_Name_def List.map_filter_simps)
qed (simp add: List.map_filter_simps)

lemma map_filter_filter:
  "(\<And>k. k \<in> set ks \<Longrightarrow> P k \<longleftrightarrow> (case f k of None \<Rightarrow> False | Some y \<Rightarrow> Q y)) \<Longrightarrow>
     List.map_filter f (filter P ks) = filter Q (List.map_filter f ks)"
  by (induction ks) (auto simp: List.map_filter_simps split: option.splits)

lemma ns_List_spec:
  assumes "backend_wf (s_backend s)" "fault_free (s_backend s)"
  shows "ns_List ns a k n s = Ok (sort_revs (filter (\<lambda>rv. rev_ResourceKey rv = ResourceKey a k ns n
     \<and> \<not> Deleted rv) (stored_revs (s_backend s))))"
proof -
  let ?b = "s_backend s" and ?rk = "ResourceKey a k ns n"
  let ?keys = "sort (map fst (blobs (be_bucket ?b)))"
  define P where "P k \<longleftrightarrow> has_prefix k (?rk @ ''/'') \<and> CHR ''/'' \<notin> set (drop (length ?rk + 1) k)" for k
  have Pc: "\<not> P DefaultConfig" by (auto simp: P_def has_prefix_iff DefaultConfig_def Cons_eq_append_conv)
  have P: "P k \<longleftrightarrow> (case key_rev k of None \<Rightarrow> False | Some y \<Rightarrow> rev_ResourceKey y = ?rk)"
    "P k \<Longrightarrow> stored_key k \<and> path_dir k = ?rk" if "k \<in> set ?keys" for k
  proof -
    note k_in = that
    consider "k = DefaultConfig" | "stored_key k"
      using backend_wf_keys [OF assms(1) k_in] by blast
    then have "(P k \<longleftrightarrow> (case key_rev k of None \<Rightarrow> False | Some y \<Rightarrow> rev_ResourceKey y = ?rk))
        \<and> (P k \<longrightarrow> stored_key k \<and> path_dir k = ?rk)"
    proof cases
      case 1
      then show ?thesis using Pc by (simp add: config_parse)
    next
      case 2
      then obtain r where r: "valid_revision r" "k = revision_Key r"
        "key_rev k = Some (LazyLoadingRevision r None)" by (auto elim: stored_keyE)
      then show ?thesis using 2 Key_under_dir [OF r(1), of ?rk] by (auto simp: P_def Key_dir)
    qed
    then show "P k \<longleftrightarrow> (case key_rev k of None \<Rightarrow> False | Some y \<Rightarrow> rev_ResourceKey y = ?rk)"
      "P k \<Longrightarrow> stored_key k \<and> path_dir k = ?rk" by auto
  qed
  have "Backend_ReadDir ?b ?rk = Ok (map (\<lambda>k. \<lparr>lo_key = k, lo_is_dir = False\<rparr>) (filter P ?keys))"
    using assms(2) by (simp add: Backend_ReadDir_ok fault_free_def P_def [abs_def])
  moreover have "list_loop ?rk (map (\<lambda>k. \<lparr>lo_key = k, lo_is_dir = False\<rparr>) (filter P ?keys)) []
      = Ok (filter (\<lambda>r. \<not> Deleted r) (List.map_filter key_rev (filter P ?keys)))"
    using P(2) by (subst list_loop_ok) auto
  moreover have "List.map_filter key_rev (filter P ?keys)
      = filter (\<lambda>y. rev_ResourceKey y = ?rk) (stored_revs ?b)"
    unfolding stored_revs_def by (rule map_filter_filter) (rule P(1))
  ultimately show ?thesis by (simp add: ns_List_def Let_def conj_commute)
qed

lemma latest_loop_last:
  "\<forall>r \<in> set revs. after (RevisionTimestamp r) t \<Longrightarrow>
     latest_loop t revs l = (if revs = [] then l else Some (last revs))"
  by (induction revs arbitrary: l) auto

lemma stored_revs_valid:
  assumes "backend_wf b" "rv \<in> set (stored_revs b)"
  shows "valid_revision (meta rv)" "backend_objs b (rev_Key rv) \<noteq> None"
    "\<exists>r. rv = LazyLoadingRevision r None"
proof -
  from assms(2) obtain k where k: "k \<in> fst ` set (blobs (be_bucket b))" "key_rev k = Some rv"
    by (force simp: stored_revs_def List.map_filter_def)
  then have "stored_key k"
    using assms(1) by (auto simp: backend_wf_def config_parse)
  with k show "valid_revision (meta rv)" "\<exists>r. rv = LazyLoadingRevision r None"
    "backend_objs b (rev_Key rv) \<noteq> None"
    by (auto simp: backend_objs_def go_get_None_iff image_iff elim!: stored_keyE) force+
qed

lemma valid_after_zero: "valid_revision r \<Longrightarrow> after (timestamp_of r) zero_time"
proof -
  assume "valid_revision r"
  then have "0 \<le> timestamp_of r"
    by (auto simp: valid_revision_def unix_of_def second_def pos_imp_zdiv_nonneg_iff)
  then show ?thesis by (simp add: after_def zero_time_def second_def)
qed

definition live_revs :: "string \<Rightarrow> Backend \<Rightarrow> Revision list" where
  "live_revs rk b = filter (\<lambda>rv. rev_ResourceKey rv = rk \<and> \<not> Deleted rv) (stored_revs b)"

text \<open>The stored revisions have different keys, and are the lazy revisions of the keys in the bucket.\<close>

lemma stored_revs_keys:
  "\<forall>k \<in> set ks. k = DefaultConfig \<or> stored_key k \<Longrightarrow>
     map rev_Key (List.map_filter key_rev ks) = filter (\<lambda>k. k \<noteq> DefaultConfig) ks"
proof (induction ks)
  case (Cons k ks)
  then show ?case
    using config_parse(3,4) by (cases "k = DefaultConfig") (auto simp: List.map_filter_simps elim!: stored_keyE)
qed (simp add: List.map_filter_simps)

lemma live_revs_distinct:
  assumes "backend_wf b"
  shows "distinct (map rev_Key (live_revs rk b))"
proof -
  let ?ks = "sort (map fst (blobs (be_bucket b)))"
  have "map rev_Key (stored_revs b) = filter (\<lambda>k. k \<noteq> DefaultConfig) ?ks"
    unfolding stored_revs_def using backend_wf_keys [OF assms] by (intro stored_revs_keys) blast
  then have "distinct (map rev_Key (stored_revs b))"
    using assms by (simp add: backend_wf_def go_wf_def)
  then show ?thesis unfolding live_revs_def by (rule distinct_map_filter)
qed

lemma stored_revs_iff:
  assumes "backend_wf b"
  shows "rv \<in> set (stored_revs b) \<longleftrightarrow> (\<exists>r. rv = LazyLoadingRevision r None \<and> valid_revision r
     \<and> trunc_revision r = r \<and> backend_objs b (revision_Key r) \<noteq> None)"
proof
  assume "rv \<in> set (stored_revs b)"
  then obtain k where k: "k \<in> fst ` set (blobs (be_bucket b))" "key_rev k = Some rv"
    by (force simp: stored_revs_def List.map_filter_def)
  then have "stored_key k" using assms by (auto simp: backend_wf_def config_parse)
  with k show "\<exists>r. rv = LazyLoadingRevision r None \<and> valid_revision r \<and> trunc_revision r = r
      \<and> backend_objs b (revision_Key r) \<noteq> None"
    by (auto simp: backend_objs_def go_get_None_iff elim!: stored_keyE)
next
  assume "\<exists>r. rv = LazyLoadingRevision r None \<and> valid_revision r \<and> trunc_revision r = r
      \<and> backend_objs b (revision_Key r) \<noteq> None"
  then obtain r where r: "rv = LazyLoadingRevision r None" "valid_revision r" "trunc_revision r = r"
    "revision_Key r \<in> fst ` set (blobs (be_bucket b))"
    by (auto simp: backend_objs_def go_get_None_iff)
  then show "rv \<in> set (stored_revs b)"
    using key_rev_Key [OF r(2)] by (force simp: stored_revs_def List.map_filter_def)
qed

lemma latestRevision_spec:
  assumes "backend_wf (s_backend s)" "fault_free (s_backend s)"
  shows "latestRevision rv s = Ok
     (let revs = live_revs (rev_ResourceKey rv) (s_backend s)
      in if revs = [] then None else Some (last (sort_revs revs)))"
proof -
  let ?revs = "live_revs (rev_ResourceKey rv) (s_backend s)"
  have rk: "ResourceKey (APIVersion rv) (Kind rv) (Namespace rv) (Name rv) = rev_ResourceKey rv"
    by (simp add: revision_ResourceKey_def APIVersion_def Kind_def Namespace_def Name_def)
  have "\<forall>r \<in> set (sort_revs ?revs). after (RevisionTimestamp r) zero_time"
    using stored_revs_valid(1) [OF assms(1)]
    by (auto simp: live_revs_def RevisionTimestamp_def intro: valid_after_zero)
  then show ?thesis
    by (simp add: latestRevision_def ns_List_spec [OF assms] rk latest_loop_last live_revs_def
        [symmetric] Let_def)
qed

section \<open>Storing and reading back\<close>

text \<open>Encryption is off, or the cipher is sound and the random source gives the next nonce.\<close>

definition encrypter_ready :: "store \<Rightarrow> bool" where
  "encrypter_ready s \<longleftrightarrow> (case s_encrypter s of
     None \<Rightarrow> True
   | Some a \<Rightarrow> aead_sound (AEAD a) \<and> (case s_nonce s (s_ticks s) of
       Ok nonce \<Rightarrow> length nonce = NonceSize (AEAD a) | _ \<Rightarrow> False))"

lemma encrypt_data_spec:
  assumes "encrypter_ready s"
  obtains c t where "encrypt_data d s = (Ok c, s\<lparr>s_ticks := t\<rparr>)"
    "(case s_encrypter s of Some a \<Rightarrow> AES_Decrypt a (Ok c) | None \<Rightarrow> Ok c) = Ok d"
proof (cases "s_encrypter s")
  case None
  then show ?thesis using that [of d "s_ticks s"] by (simp add: encrypt_data_def)
next
  case (Some a)
  with assms obtain nonce where n: "aead_sound (AEAD a)" "s_nonce s (s_ticks s) = Ok nonce"
    "length nonce = NonceSize (AEAD a)" by (auto simp: encrypter_ready_def split: result.splits)
  let ?c = "nonce @ Seal (AEAD a) nonce d"
  have "AES_Encrypt a (Ok nonce) (Ok d) = Ok ?c" by (simp add: AES_Encrypt_def)
  moreover from this have "AES_Decrypt a (Ok ?c) = Ok d"
    using AES_round_trip [OF n(1,3), of d] by simp
  ultimately show ?thesis
    using that [of ?c "Suc (s_ticks s)"] n(2) Some by (simp add: encrypt_data_def tick_def)
qed

lemma store_save_spec:
  assumes "fault_free (s_backend s)" "revision_Key r \<noteq> []" "json_marshal (s_codec s) u = Ok d"
    "encrypt_data d s = (Ok c, s\<lparr>s_ticks := t\<rparr>)"
  shows "store_save (ConcreteRevision r u) s =
     (Ok (), (s\<lparr>s_ticks := t, s_backend := (s_backend s)\<lparr>be_bucket :=
        (be_bucket (s_backend s))\<lparr>blobs := go_put (revision_Key r) c (blobs (be_bucket (s_backend s)))\<rparr>\<rparr>\<rparr>,
      ConcreteRevision r u))"
  using assms by (simp add: store_save_def store_write_def blob_defs fault_free_def)

lemma store_get_spec:
  assumes "fault_free (s_backend s)" "backend_objs (s_backend s) k = Some c"
    "(case s_encrypter s of Some a \<Rightarrow> AES_Decrypt a (Ok c) | None \<Rightarrow> Ok c) = Ok d"
    "json_unmarshal (s_codec s) d = Ok u"
  shows "store_get k s = (Ok (RevisionFrom (s_clock s (s_ticks s)) u), tick s)"
  using assms by (simp add: store_get_def blob_defs fault_free_def)

lemma revision_Key_not_Nil: "valid_revision r \<Longrightarrow> revision_Key r \<noteq> []"
  by (simp add: Key_split)

lemma update_then_get:
  assumes "valid_revision r" "fault_free (s_backend s)" "encrypter_ready s"
    "json_marshal (s_codec s) u = Ok d" "json_unmarshal (s_codec s) d = Ok u'"
  shows "\<exists>s' t. ns_Update (ConcreteRevision r u) s = (Ok (ConcreteRevision r u), (s', ConcreteRevision r u))
     \<and> fst (ns_Get (ConcreteRevision r u) s') = Ok (Some (RevisionFrom t u'))
     \<and> (\<forall>k. k \<noteq> revision_Key r \<longrightarrow> backend_objs (s_backend s') k = backend_objs (s_backend s) k)
     \<and> (backend_wf (s_backend s) \<longrightarrow> backend_wf (s_backend s'))"
proof -
  from encrypt_data_spec [OF assms(3), of d] obtain c t where
    c: "encrypt_data d s = (Ok c, s\<lparr>s_ticks := t\<rparr>)"
      "(case s_encrypter s of Some a \<Rightarrow> AES_Decrypt a (Ok c) | None \<Rightarrow> Ok c) = Ok d" by blast
  let ?b = "(s_backend s)\<lparr>be_bucket := (be_bucket (s_backend s))
        \<lparr>blobs := go_put (revision_Key r) c (blobs (be_bucket (s_backend s)))\<rparr>\<rparr>"
  let ?s = "s\<lparr>s_ticks := t, s_backend := ?b,
      s_latestCache := go_put (revision_ResourceKey r) (revision_RevisionKey r) (s_latestCache s)\<rparr>"
  have up: "ns_Update (ConcreteRevision r u) s
      = (Ok (ConcreteRevision r u), (?s, ConcreteRevision r u))"
    by (simp add: ns_Update_def store_save_spec [OF assms(2) revision_Key_not_Nil [OF assms(1)] assms(4) c(1)])
  have "store_get (revision_Key r) ?s = (Ok (RevisionFrom (s_clock ?s t) u'), tick ?s)"
    using store_get_spec [of ?s "revision_Key r" c d u'] assms(2,5) c(2)
    by (simp add: fault_free_def backend_objs_def)
  then have "fst (ns_Get (ConcreteRevision r u) ?s) = Ok (Some (RevisionFrom (s_clock ?s t) u'))"
    by (simp add: ns_Get_def revision_Key_def [symmetric])
  moreover have "backend_wf (s_backend s) \<longrightarrow> backend_wf ?b"
    using assms(1) by (auto simp: backend_wf_def set_go_put stored_key_Key)
  ultimately show ?thesis using up by (intro exI [of _ ?s]) (auto simp: backend_objs_def)
qed

text \<open>A write that fails still stores the empty object the deferred \<open>Close\<close> commits.\<close>

lemma failed_save_stores_empty:
  assumes "fault_free (s_backend s)" "revision_Key r \<noteq> []" "json_marshal (s_codec s) u = Err e"
  shows "\<exists>s'. store_save (ConcreteRevision r u) s = (Err e, (s', ConcreteRevision r u))
     \<and> backend_objs (s_backend s') (revision_Key r) = Some []"
  using assms by (simp add: store_save_def store_write_def blob_defs fault_free_def)

text \<open>The error of the deferred \<open>Close\<close> is lost: nothing is stored and Update reports success.\<close>

lemma lost_close_error:
  assumes "faults (be_bucket (s_backend s)) OpNewWriter (revision_Key r) = None"
    "faults (be_bucket (s_backend s)) OpWrite (revision_Key r) = None"
    "faults (be_bucket (s_backend s)) OpCloseWriter (revision_Key r) = Some e"
    "json_marshal (s_codec s) u = Ok d" "s_encrypter s = None"
  shows "\<exists>s'. ns_Update (ConcreteRevision r u) s = (Ok (ConcreteRevision r u), (s', ConcreteRevision r u))
     \<and> backend_objs (s_backend s') = backend_objs (s_backend s)"
  using assms by (simp add: ns_Update_def store_save_def store_write_def blob_defs encrypt_data_def)

section \<open>Content of lazy revisions\<close>

text \<open>What a lazy revision loads depends on its resource alone, not on its version.\<close>

lemma Content_ignores_version:
  assumes "apiVersion_of r = apiVersion_of r'" "kind_of r = kind_of r'"
    "namespace_of r = namespace_of r'" "name_of r = name_of r'"
  shows "fst (Content (LazyLoadingRevision r None) s) = fst (Content (LazyLoadingRevision r' None) s)"
proof -
  have rk: "revision_ResourceKey r = revision_ResourceKey r'"
    using assms by (simp add: revision_ResourceKey_def)
  have "latestRevision (LazyLoadingRevision r None) s = latestRevision (LazyLoadingRevision r' None) s"
    using assms by (simp add: latestRevision_def APIVersion_def Kind_def Namespace_def Name_def)
  then have "ns_Get (LazyLoadingRevision r None) s = ns_Get (LazyLoadingRevision r' None) s"
    by (simp only: ns_Get_def meta.simps rk)
  then show ?thesis
    by (simp add: Let_def split: prod.split result.split option.split Revision.split)
qed

lemma ns_Get_latest:
  assumes "backend_wf (s_backend s)" "fault_free (s_backend s)"
    "go_get (s_latestCache s) (rev_ResourceKey rv) = None"
    "live_revs (rev_ResourceKey rv) (s_backend s) \<noteq> []"
  defines "l \<equiv> last (sort_revs (live_revs (rev_ResourceKey rv) (s_backend s)))"
  assumes "backend_objs (s_backend s) (rev_Key l) = Some c"
    "(case s_encrypter s of Some a \<Rightarrow> AES_Decrypt a (Ok c) | None \<Rightarrow> Ok c) = Ok d"
    "json_unmarshal (s_codec s) d = Ok u"
  shows "fst (ns_Get rv s) = Ok (Some (RevisionFrom (s_clock s (s_ticks s)) u))"
proof -
  have "l \<in> set (live_revs (rev_ResourceKey rv) (s_backend s))"
    using last_in_set [of "sort_revs (live_revs (rev_ResourceKey rv) (s_backend s))"] assms(4)
    by (simp add: l_def)
  then have rk: "RevisionKey (rev_ResourceKey rv) (rev_RevisionKey l) = rev_Key l"
    by (simp add: live_revs_def revision_Key_def)
  let ?s = "s\<lparr>s_latestCache := go_put (rev_ResourceKey rv) (rev_RevisionKey l) (s_latestCache s)\<rparr>"
  have "store_get (rev_Key l) ?s = (Ok (RevisionFrom (s_clock s (s_ticks s)) u), tick ?s)"
    using store_get_spec [of ?s "rev_Key l" c d u] assms(2,6-8) by simp
  then show ?thesis
    using assms(4) by (simp add: ns_Get_def assms(3) latestRevision_spec [OF assms(1,2)] l_def
        [symmetric] Let_def rk)
qed

lemma ns_Get_none:
  assumes "backend_wf (s_backend s)" "fault_free (s_backend s)"
    "go_get (s_latestCache s) (rev_ResourceKey rv) = None"
    "live_revs (rev_ResourceKey rv) (s_backend s) = []"
  shows "ns_Get rv s = (Ok None, s)"
  using assms(3,4) by (simp add: ns_Get_def latestRevision_spec [OF assms(1,2)])

lemma purge_then_get:
  assumes "PurgeRevision rv s = (Ok (), s')"
    "go_get (s_latestCache s) (rev_ResourceKey rv) = Some (rev_RevisionKey rv)"
  shows "\<exists>e. fst (ns_Get rv s') = Err e"
proof -
  from assms(1) obtain b where b: "Backend_Remove (s_backend s) (rev_Key rv) = (Ok (), b)"
    "s' = s\<lparr>s_backend := b\<rparr>"
    by (auto simp: PurgeRevision_def split: prod.splits)
  from blob_be.removed_stays_unreadable [OF b(1)] obtain e where
    "Backend_Open b (rev_Key rv) = Err e" by blast
  then have "store_get (rev_Key rv) s' = (Err e, s')" by (simp add: store_get_def b(2))
  then show ?thesis using assms(2) b(2)
    by (auto simp: ns_Get_def revision_Key_def [symmetric])
qed

section \<open>Purging\<close>

abbreviation lazy_of :: "Revision \<Rightarrow> Revision" where
  "lazy_of rv \<equiv> LazyLoadingRevision (trunc_revision (meta rv)) None"

lemma parse_deleted_keys:
  "\<forall>rv \<in> set revs. valid_revision (meta rv) \<Longrightarrow>
     parse_deleted (map rev_Key revs) acc = Ok (acc @ map lazy_of revs)"
  by (induction revs arbitrary: acc) (auto simp: parse_Key)

lemma purge_each_remove_each:
  "\<forall>rv \<in> set revs. valid_revision (meta rv) \<Longrightarrow> distinct (map rev_Key revs) \<Longrightarrow>
     purge_each (map rev_Key revs) acc s =
       (Ok (acc @ map lazy_of (filter (\<lambda>rv. removable (s_backend s) (rev_Key rv)) revs)),
        s\<lparr>s_backend := snd (remove_each (s_backend s) (map rev_Key revs) del err)\<rparr>)"
proof (induction revs arbitrary: acc s del err)
  case (Cons rv revs)
  obtain r b where r: "Backend_Remove (s_backend s) (rev_Key rv) = (r, b)"
    by (cases "Backend_Remove (s_backend s) (rev_Key rv)")
  have ok: "r = Ok () \<longleftrightarrow> removable (s_backend s) (rev_Key rv)" and nc: "\<And>c. r \<noteq> Crash c"
    using Backend_Remove_result [of "s_backend s" "rev_Key rv"] r by auto
  have "filter (\<lambda>rv. removable b (rev_Key rv)) revs
      = filter (\<lambda>rv. removable (s_backend s) (rev_Key rv)) revs"
  proof (rule filter_cong [OF refl])
    fix x assume "x \<in> set revs"
    with Cons.prems(2) have "rev_Key x \<noteq> rev_Key rv" by (force simp: image_iff)
    from removable_other [OF this, of "s_backend s"] r
    show "removable b (rev_Key x) = removable (s_backend s) (rev_Key x)" by simp
  qed
  note filt = this
  have prems: "\<forall>rv \<in> set revs. valid_revision (meta rv)" "distinct (map rev_Key revs)"
    "valid_revision (meta rv)" using Cons.prems by auto
  show ?case
  proof (cases r)
    case (Ok x)
    then show ?thesis
      using ok r filt Cons.IH [OF prems(1,2), of "acc @ [lazy_of rv]" "s\<lparr>s_backend := b\<rparr>"
          "del @ [rev_Key rv]" None]
      by (simp add: Let_def parse_Key [OF prems(3)])
  next
    case (Err e)
    then show ?thesis
      using ok r filt Cons.IH [OF prems(1,2), of acc "s\<lparr>s_backend := b\<rparr>" del "Some e"]
      by (simp add: Let_def)
  qed (use nc in simp)
qed simp

lemma PurgeRevisions_spec:
  assumes "\<forall>rv \<in> set revs. valid_revision (meta rv)" "distinct (map rev_Key revs)"
    "be_provider (s_backend s) \<noteq> S3Provider"
  shows "\<exists>err s'. PurgeRevisions revs s =
       (Ok (map lazy_of (filter (\<lambda>rv. removable (s_backend s) (rev_Key rv)) revs), err), s')
     \<and> (\<forall>k. backend_objs (s_backend s') k =
          (if k \<in> rev_Key ` set revs \<and> removable (s_backend s) k then None
           else backend_objs (s_backend s) k))"
proof (cases "revs = []")
  case True
  then show ?thesis by (simp add: PurgeRevisions_def)
next
  case False
  let ?b = "s_backend s" and ?keys = "map rev_Key revs"
  let ?gone = "filter (\<lambda>rv. removable ?b (rev_Key rv)) revs"
  have objs: "backend_objs (snd (remove_each ?b ?keys [] None)) k =
      (if k \<in> rev_Key ` set revs \<and> removable ?b k then None else backend_objs ?b k)" for k
    using remove_each_objs [OF assms(2), of ?b "[]" None k] by simp
  show ?thesis
  proof (cases "s_bulk s")
    case True
    obtain ks err b where rm: "remove_each ?b ?keys [] None = ((ks, err), b)"
      by (metis surj_pair)
    have "ks = map rev_Key ?gone"
      using remove_each_deleted [OF assms(2), of ?b "[]" None] rm by (simp add: filter_map o_def)
    then have "parse_deleted ks [] = Ok (map lazy_of ?gone)"
      using parse_deleted_keys [of ?gone "[]"] assms(1) by simp
    then have "PurgeRevisions revs s = (Ok (map lazy_of ?gone, err), s\<lparr>s_backend := b\<rparr>)"
      using False True assms(3) rm by (simp add: PurgeRevisions_def Backend_RemoveAll_def)
    then show ?thesis using objs rm by simp
  next
    case nb: False
    show ?thesis
      using False nb objs purge_each_remove_each [OF assms(1,2), of "[]" s "[]" None]
      by (simp add: PurgeRevisions_def)
  qed
qed

section \<open>Parsing never panics\<close>

lemma parse_file_no_crash: "parse_file f \<noteq> Crash c"
  by (auto simp: parse_file_def Let_def split: prod.split option.split)

lemma parse_no_crash: "ParseLazyLoadingRevision p \<noteq> Crash c"
  using parse_file_no_crash
  by (auto simp: ParseLazyLoadingRevision_def Let_def parseClusterScopedRevision_def
      parseNamespacedRevision_def result_bind_def split: result.split)

end
