(* ===== verification/Handlers.thy ===== *)
theory Handlers
  imports Revision
begin

text \<open>
  pkg/handler and pkg/discovery: the handlers of the watched resources, looked up by API version,
  kind and namespace with a fall-back to the handler of all namespaces.  Of a handler the code
  uses the informer's store, the work queue and the identity of its dynamic client.
\<close>

record GroupVersion =
  gv_group :: string
  gv_version :: string

record Dynamic =
  dyn_gv :: GroupVersion
  dyn_resource :: string
  dyn_kind :: string
  dyn_namespace :: string

text \<open>\<open>schema.GroupVersion.String\<close>: the version alone when the group is empty.\<close>

definition gv_string :: "GroupVersion \<Rightarrow> string" where
  "gv_string gv = (if gv_group gv = [] then gv_version gv
     else gv_group gv @ ''/'' @ gv_version gv)"

definition ClientForGroupVersionResource ::
    "GroupVersion \<Rightarrow> string \<Rightarrow> string \<Rightarrow> string \<Rightarrow> Dynamic" where
  "ClientForGroupVersionResource gv resource kind namespace =
     \<lparr>dyn_gv = gv, dyn_resource = resource, dyn_kind = kind, dyn_namespace = namespace\<rparr>"

text \<open>
  An informer's store maps \<open>namespace/name\<close> keys to objects; \<open>rh_keyErr\<close> is where its key function
  fails.  \<open>'q\<close> is the type of the queue's items.
\<close>

record 'q ResourceHandler =
  rh_store :: "(string, object) go_map"
  rh_keyErr :: "string \<Rightarrow> error option"
  rh_queue :: "'q list"
  rh_client :: Dynamic

type_synonym 'q ResourceHandlers = "(string, 'q ResourceHandler) go_map"

definition handler_key :: "string \<Rightarrow> string \<Rightarrow> string \<Rightarrow> string" where
  "handler_key apiVersion kind namespace = path_join [apiVersion, kind, namespace]"

definition handlers_Set :: "string \<Rightarrow> string \<Rightarrow> string \<Rightarrow> 'q ResourceHandler
    \<Rightarrow> 'q ResourceHandlers \<Rightarrow> 'q ResourceHandlers" where
  "handlers_Set apiVersion kind namespace h r = go_put (handler_key apiVersion kind namespace) h r"

definition HandlerFor :: "'q ResourceHandlers \<Rightarrow> string \<Rightarrow> string \<Rightarrow> string
    \<Rightarrow> 'q ResourceHandler option" where
  "HandlerFor r apiVersion kind namespace =
     (case go_get r (handler_key apiVersion kind namespace) of
        Some h \<Rightarrow> Some h
      | None \<Rightarrow> go_get r (handler_key apiVersion kind []))"

definition GetByKey :: "'q ResourceHandler \<Rightarrow> string \<Rightarrow> object option result" where
  "GetByKey h key = (case rh_keyErr h key of
     Some e \<Rightarrow> Err e | None \<Rightarrow> Ok (go_get (rh_store h) key))"

text \<open>client-go's key of an object in an informer's store.\<close>

definition meta_namespace_key :: "string \<Rightarrow> string \<Rightarrow> string" where
  "meta_namespace_key namespace nm = (if namespace \<noteq> [] then namespace @ ''/'' @ nm else nm)"

lemma handlers_Set_For:
  "HandlerFor (handlers_Set a k ns h r) a k ns = Some h"
  by (simp add: HandlerFor_def handlers_Set_def)

lemma HandlerFor_fallback:
  assumes "go_get r (handler_key a k ns) = None"
  shows "HandlerFor r a k ns = go_get r (handler_key a k [])"
  using assms by (simp add: HandlerFor_def)

end
