(* ===== verification/Store_Walk.thy ===== *)
theory Store_Walk
  imports Storage Handlers
begin

text \<open>
  \<open>State\<close> and \<open>Sync\<close> of pkg/store/storage.go: the two walks over a backend.  Their callbacks are
  translated as written, skipping directories included; the main lemmas say what state a walk
  over a well-formed store returns, whatever the order of its keys.
\<close>

section \<open>State\<close>

text \<open>
  A label selector is what \<open>metav1.LabelSelectorAsSelector\<close> makes of it: an error, or a predicate
  on labels.  A \<open>State\<close> maps resource keys to revision lists; a key whose value is nil counts as
  absent, as in \<open>res[resourceKey] == nil\<close>.
\<close>

record StateOptions =
  so_APIVersion :: string
  so_Kind :: string
  so_LabelSelector :: "((string, string) go_map \<Rightarrow> bool) result option"
  so_Time :: gotime
  so_Namespace :: string
  so_AllNamespaces :: bool
  so_Name :: string
  so_AllRevisions :: bool
  so_OnlyDeleted :: bool

type_synonym State = "(string, Revision list) go_map"

definition state_root :: "StateOptions \<Rightarrow> string" where
  "state_root opt =
     (let a = so_APIVersion opt; k = so_Kind opt; ns = so_Namespace opt; n = so_Name opt;
          one_ns = ns \<noteq> [] \<and> \<not> so_AllNamespaces opt
      in if a \<noteq> [] \<and> k \<noteq> [] \<and> one_ns \<and> n \<noteq> [] then ResourceKey a k ns n
         else if a \<noteq> [] \<and> k \<noteq> [] \<and> one_ns then KeyPrefixForAPIVersionKindNamespace a k ns
         else if a \<noteq> [] \<and> k \<noteq> [] then KeyPrefixForAPIVersionKind a k
         else if a \<noteq> [] then KeyPrefixForAPIVersion a
         else [])"

text \<open>The directory test and the parsing at the head of the callback; \<open>None\<close> is \<open>return nil\<close>.\<close>

definition walked_revision :: "string \<Rightarrow> list_object \<Rightarrow> Revision option result" where
  "walked_revision path info =
     (if FileInfo_IsDir info then Ok None
      else let dir = path_dir path in
        if dir = [] \<or> dir = ''.'' then Ok None
        else result_bind (ParseLazyLoadingRevision (trim_prefix path ''/'')) (\<lambda>rv. Ok (Some rv)))"

text \<open>The four tests that skip the rest of a directory.\<close>

definition state_skips :: "StateOptions \<Rightarrow> Revision \<Rightarrow> bool" where
  "state_skips opt rv \<longleftrightarrow>
     (\<not> so_AllNamespaces opt \<and> so_Namespace opt \<noteq> [] \<and> Namespace rv \<noteq> so_Namespace opt)
     \<or> (so_Name opt \<noteq> [] \<and> Name rv \<noteq> so_Name opt)
     \<or> (so_Kind opt \<noteq> [] \<and> Kind rv \<noteq> so_Kind opt)
     \<or> (so_APIVersion opt \<noteq> [] \<and> APIVersion rv \<noteq> so_APIVersion opt)"

text \<open>The two tests that pass one revision over.\<close>

definition state_passes :: "StateOptions \<Rightarrow> Revision \<Rightarrow> bool" where
  "state_passes opt rv \<longleftrightarrow>
     (so_OnlyDeleted opt \<and> \<not> Deleted rv)
     \<or> (so_Time opt \<noteq> zero_time \<and> \<not> after (so_Time opt) (RevisionTimestamp rv))"

definition state_add :: "StateOptions \<Rightarrow> Revision \<Rightarrow> State \<Rightarrow> State" where
  "state_add opt rv res =
     (let resourceKey = rev_ResourceKey rv in
      if \<not> so_AllRevisions opt then go_put resourceKey [rv] res
      else go_put resourceKey
        ((case go_get res resourceKey of None \<Rightarrow> [] | Some l \<Rightarrow> l) @ [rv]) res)"

definition state_wanted :: "StateOptions \<Rightarrow> Revision \<Rightarrow> State \<Rightarrow> bool" where
  "state_wanted opt rv res \<longleftrightarrow> so_AllRevisions opt
     \<or> (case go_get res (rev_ResourceKey rv) of
          Some (r # _) \<Rightarrow> after (RevisionTimestamp rv) (RevisionTimestamp r)
        | _ \<Rightarrow> True)"

definition state_walkFn :: "StateOptions \<Rightarrow> string \<Rightarrow> list_object \<Rightarrow> State \<times> store
    \<Rightarrow> unit result \<times> (State \<times> store)" where
  "state_walkFn opt path info st =
     on_ok (walked_revision path info, st) (\<lambda>parsed (res, s).
     case parsed of
       None \<Rightarrow> (Ok (), (res, s))
     | Some rv \<Rightarrow>
         if state_skips opt rv then (Err ErrSkipDir, (res, s))
         else if state_passes opt rv then (Ok (), (res, s))
         else if state_wanted opt rv res then
           (case so_LabelSelector opt of
              Some (Ok selector) \<Rightarrow>
                (let (ru, (s, rv)) = Content rv s in
                 on_ok (ru, (res, s)) (\<lambda>u (res, s).
                   if \<not> selector (GetLabels u) then (Ok (), (res, s))
                   else (Ok (), (state_add opt rv res, s))))
            | _ \<Rightarrow> (Ok (), (state_add opt rv res, s)))
         else (Ok (), (res, s)))"

text \<open>The state found so far is returned together with the walk's error.\<close>

definition store_State :: "StateOptions \<Rightarrow> store \<Rightarrow> (State \<times> error option) result \<times> store" where
  "store_State opt s =
     (case so_LabelSelector opt of
        Some (Err e) \<Rightarrow> (Ok ([], Some e), s)
      | Some (Crash c) \<Rightarrow> (Crash c, s)
      | _ \<Rightarrow>
          (case Backend_Walk (s_backend s) (state_root opt) (state_walkFn opt) ([], s) of
             (Ok _, (res, s)) \<Rightarrow> (Ok (res, None), s)
           | (Err e, (res, s)) \<Rightarrow> (Ok (res, Some e), s)
           | (Crash c, (res, s)) \<Rightarrow> (Crash c, s)))"

section \<open>Sync\<close>

definition sync_walkFn :: "bool \<Rightarrow> 'q ResourceHandlers \<Rightarrow> string \<Rightarrow> list_object
    \<Rightarrow> State \<times> Revision list \<Rightarrow> unit result \<times> (State \<times> Revision list)" where
  "sync_walkFn deleteUntracked handlers path info st =
     (case st of (state, toDelete) \<Rightarrow>
      on_ok (case walked_revision path info of
               Err e \<Rightarrow> Err (ErrWrap ''error parsing lazy revision from informer store'' e)
             | r \<Rightarrow> r, st) (\<lambda>parsed (state, toDelete).
      case parsed of
        None \<Rightarrow> (Ok (), (state, toDelete))
      | Some rv \<Rightarrow>
          (case HandlerFor handlers (APIVersion rv) (Kind rv) (Namespace rv) of
             None \<Rightarrow>
               if deleteUntracked then (Ok (), (state, toDelete @ [rv]))
               else (Err ErrSkipDir, (state, toDelete))
           | Some h \<Rightarrow>
               let resourceKey = rev_ResourceKey rv;
                   state = go_put resourceKey
                     ((case go_get state resourceKey of None \<Rightarrow> [] | Some l \<Rightarrow> l) @ [rv]) state;
                   storeKey = (if length (Namespace rv) > 0 then Namespace rv @ ''/'' else [])
                     @ Name rv
               in (case GetByKey h storeKey of
                     Err e \<Rightarrow> (Err (ErrWrap ''error getting revision from informer store'' e),
                               (state, toDelete))
                   | Crash c \<Rightarrow> (Crash c, (state, toDelete))
                   | Ok None \<Rightarrow> (Ok (), (state, toDelete @ [rv]))
                   | Ok (Some _) \<Rightarrow> (Ok (), (state, toDelete))))))"

definition store_Sync :: "'q ResourceHandlers \<Rightarrow> store
    \<Rightarrow> (State \<times> Revision list \<times> error option) result" where
  "store_Sync handlers s =
     (case Backend_Walk (s_backend s) [] (sync_walkFn (s_deleteUntracked s) handlers) ([], []) of
        (Ok _, (state, toDelete)) \<Rightarrow> Ok (state, toDelete, None)
      | (Err e, (state, toDelete)) \<Rightarrow> Ok (state, toDelete, Some e)
      | (Crash c, _) \<Rightarrow> Crash c)"

section \<open>Both callbacks keep the contract of Walk\<close>

definition walked_obj :: "list_object \<Rightarrow> bool" where
  "walked_obj obj \<longleftrightarrow> \<not> lo_is_dir obj \<and> (lo_key obj = DefaultConfig \<or> stored_key (lo_key obj))"

lemma stored_key_path:
  "stored_key k \<Longrightarrow> path_dir k \<noteq> [] \<and> path_dir k \<noteq> ''.'' \<and> trim_prefix k ''/'' = k"
proof (erule stored_keyE)
  fix r assume r: "valid_revision r" "k = revision_Key r"
  obtain e es where es: "key_elems r = e # es" by (meson key_elems_not_Nil neq_Nil_conv)
  have "plain_elem (name_of r)" "plain_elem (kind_of r)"
    using r(1) by (auto simp: valid_revision_def)
  have ek: "key_elems r = path_elems (apiVersion_of r) @ kind_of r
      # (if namespace_of r = [] then [] else [namespace_of r]) @ [name_of r]"
    by (simp add: key_elems_def)
  have e: "plain_elem e" using key_elems_plain [OF r(1)] es by auto
  have rk: "revision_ResourceKey r = join_with CHR ''/'' (e # es)"
    by (simp add: ResourceKey_valid [OF r(1)] es)
  have hd: "revision_ResourceKey r \<noteq> []" "hd (revision_ResourceKey r) \<noteq> CHR ''/''"
    using join_hd [of e "CHR ''/''" es] e plain_hd [OF e] by (auto simp: rk)
  have "path_elems (revision_ResourceKey r) = e # es"
    using plain_elems_join [of "e # es"] key_elems_plain [OF r(1)] es rk by simp
  then have "revision_ResourceKey r \<noteq> ''.''"
    using e by (auto simp: path_elems_def plain_elem_def split: if_splits)
  moreover have "\<not> has_prefix k ''/''"
    using hd by (cases "revision_ResourceKey r")
      (auto simp: r(2) Key_split [OF r(1)] has_prefix_def)
  ultimately show ?thesis using hd by (simp add: r(2) Key_dir [OF r(1)])
qed

lemma walked_config [simp]: "walked_revision DefaultConfig obj = Ok None"
  by (simp add: walked_revision_def config_parse)

lemma walked_stored:
  assumes "stored_key k" "\<not> lo_is_dir obj"
  obtains r where "valid_revision r" "k = revision_Key r" "key_rev k = Some (LazyLoadingRevision r None)"
    "walked_revision k obj = Ok (Some (LazyLoadingRevision r None))"
    "path_dir k = revision_ResourceKey r"
proof -
  from assms(1) obtain r where r: "valid_revision r" "k = revision_Key r"
    "key_rev k = Some (LazyLoadingRevision r None)"
    "ParseLazyLoadingRevision k = Ok (LazyLoadingRevision r None)" by (auto elim: stored_keyE)
  with that [of r] stored_key_path [OF assms(1)] assms(2) Key_dir [OF r(1)] show ?thesis
    by (simp add: walked_revision_def Let_def FileInfo_IsDir_def)
qed

lemma walked_objE:
  assumes "walked_obj obj"
  obtains "lo_key obj = DefaultConfig" "walked_revision (lo_key obj) obj = Ok None"
      "path_dir (lo_key obj) = ''.''"
    | r where "valid_revision r" "lo_key obj = revision_Key r"
      "key_rev (lo_key obj) = Some (LazyLoadingRevision r None)"
      "walked_revision (lo_key obj) obj = Ok (Some (LazyLoadingRevision r None))"
      "path_dir (lo_key obj) = revision_ResourceKey r" "revision_ResourceKey r \<noteq> ''.''"
proof (cases "lo_key obj = DefaultConfig")
  case True
  then show ?thesis using that(1) config_parse(2) by simp
next
  case False
  then have st: "stored_key (lo_key obj)" "\<not> lo_is_dir obj"
    using assms by (simp_all add: walked_obj_def)
  from st show ?thesis
  proof (rule walked_stored)
    fix r assume r: "valid_revision r" "lo_key obj = revision_Key r"
      "key_rev (lo_key obj) = Some (LazyLoadingRevision r None)"
      "walked_revision (lo_key obj) obj = Ok (Some (LazyLoadingRevision r None))"
      "path_dir (lo_key obj) = revision_ResourceKey r"
    have "revision_ResourceKey r \<noteq> ''.''" using stored_key_path [OF st(1)] r(5) by simp
    with r show ?thesis by (rule that(2))
  qed
qed

definition no_selector :: "StateOptions \<Rightarrow> StateOptions" where
  "no_selector opt = opt\<lparr>so_LabelSelector := None\<rparr>"

lemma state_walkFn_config:
  "walked_revision k obj = Ok None \<Longrightarrow> state_walkFn opt k obj (res, s) = (Ok (), (res, s))"
  by (simp add: state_walkFn_def)

lemma state_walkFn_rev:
  assumes "walked_revision k obj = Ok (Some rv)" "so_LabelSelector opt = None"
  shows "state_walkFn opt k obj (res, s) =
    (if state_skips opt rv then (Err ErrSkipDir, (res, s))
     else if \<not> state_passes opt rv \<and> state_wanted opt rv res
     then (Ok (), (state_add opt rv res, s)) else (Ok (), (res, s)))"
  using assms by (auto simp: state_walkFn_def)

lemma state_skips_resource:
  assumes "valid_revision (meta rv)" "valid_revision (meta rv')"
    "rev_ResourceKey rv = rev_ResourceKey rv'"
  shows "state_skips opt rv = state_skips opt rv'"
  using ResourceKey_inject [OF assms]
  by (simp add: state_skips_def APIVersion_def Kind_def Namespace_def Name_def)

interpretation state_cb: walk_callback "state_walkFn (no_selector opt)" walked_obj for opt
proof
  fix obj and s s' :: "State \<times> store"
  assume w: "walked_obj obj"
    and sk: "state_walkFn (no_selector opt) (lo_key obj) obj s = (Err ErrSkipDir, s')"
  obtain res st where s: "s = (res, st)" by (cases s)
  from w show "s' = s"
  proof (cases rule: walked_objE)
    case 1
    with sk show ?thesis by (simp add: s state_walkFn_config)
  next
    case (2 r)
    with sk show ?thesis by (simp add: s state_walkFn_rev no_selector_def split: if_splits)
  qed
next
  fix obj obj' and s s'' :: "State \<times> store"
  assume w: "walked_obj obj" "walked_obj obj'" and d: "path_dir (lo_key obj') = path_dir (lo_key obj)"
    and sk: "fst (state_walkFn (no_selector opt) (lo_key obj) obj s) = Err ErrSkipDir"
  obtain res st where s: "s = (res, st)" by (cases s)
  obtain res' st' where s'': "s'' = (res', st')" by (cases s'')
  from w(1) show "fst (state_walkFn (no_selector opt) (lo_key obj') obj' s'') = Err ErrSkipDir"
  proof (cases rule: walked_objE)
    case 1
    with sk show ?thesis by (simp add: s state_walkFn_config)
  next
    case (2 r)
    with sk have skip: "state_skips (no_selector opt) (LazyLoadingRevision r None)"
      by (simp add: s state_walkFn_rev no_selector_def split: if_splits)
    from w(2) show ?thesis
    proof (cases rule: walked_objE)
      case 1
      with 2 d show ?thesis by simp
    next
      case (2 r')
      with \<open>path_dir (lo_key obj) = revision_ResourceKey r\<close> d \<open>valid_revision r\<close> skip
      have "state_skips (no_selector opt) (LazyLoadingRevision r' None)"
        using state_skips_resource [of "LazyLoadingRevision r None" "LazyLoadingRevision r' None"] by simp
      with 2 show ?thesis by (simp add: s'' state_walkFn_rev no_selector_def)
    qed
  qed
qed

section \<open>What State returns\<close>

definition state_matches :: "StateOptions \<Rightarrow> Revision \<Rightarrow> bool" where
  "state_matches opt rv \<longleftrightarrow> \<not> state_skips opt rv \<and> \<not> state_passes opt rv"

definition state_step :: "StateOptions \<Rightarrow> Revision \<Rightarrow> State \<Rightarrow> State" where
  "state_step opt rv res =
     (if state_matches opt rv \<and> state_wanted opt rv res then state_add opt rv res else res)"

lemma walk_all_state:
  assumes "so_LabelSelector opt = None"
  shows "\<forall>obj \<in> set objs. walked_obj obj \<Longrightarrow>
     walk_all (\<lambda>_. None) (state_walkFn opt) objs (res, s) =
       (Ok (), (fold (state_step opt) (List.map_filter (\<lambda>obj. key_rev (lo_key obj)) objs) res, s))"
proof (induction objs arbitrary: res)
  case (Cons obj objs)
  then have w: "walked_obj obj" by simp
  from w show ?case
  proof (cases rule: walked_objE)
    case 1
    with Cons show ?thesis
      by (simp add: state_walkFn_config List.map_filter_simps config_parse)
  next
    case (2 r)
    with Cons assms show ?thesis
      by (simp add: state_walkFn_rev List.map_filter_simps state_step_def state_matches_def)
  qed
qed (simp add: List.map_filter_simps)

lemma join_prefix: "xs \<noteq> [] \<Longrightarrow> has_prefix (join_with c (xs @ ys)) (join_with c xs)"
proof (induction c xs rule: join_with.induct)
  case (2 c x)
  then show ?case by (cases ys) (auto simp: has_prefix_iff)
qed (auto simp: has_prefix_iff)

lemma state_root_prefix:
  assumes "valid_revision (meta rv)" "\<not> state_skips opt rv"
  shows "has_prefix (rev_Key rv) (state_root opt)"
proof -
  let ?r = "meta rv" and ?f = "rev_RevisionKey rv"
  let ?a = "apiVersion_of ?r" and ?k = "kind_of ?r" and ?ns = "namespace_of ?r"
  have v: "valid_api ?a" "plain_elem ?k" "?ns = [] \<or> plain_elem ?ns"
    using assms(1) by (auto simp: valid_revision_def)
  have key: "rev_Key rv = join_with CHR ''/'' (path_elems ?a @ ?k # (if ?ns = [] then [] else [?ns])
      @ [name_of ?r] @ [?f])"
    using Key_valid [OF assms(1)] by (simp add: key_elems_def)
  have el: "path_elems ?a \<noteq> []" using v(1) by (auto elim: valid_apiE)
  have join: "path_join es = join_with CHR ''/'' (concat (map path_elems es))"
    if "?a \<in> set es" "set es \<subseteq> {?a, ?k, ?ns}" for es
    using that v el by (intro path_join_plain) (auto dest: valid_api_elems valid_api_hd plain_hd)
  have one: "has_prefix (rev_Key rv) ?a"
  proof -
    have "?a = join_with CHR ''/'' (path_elems ?a)" using v(1) by (auto elim: valid_apiE)
    then show ?thesis using join_prefix [OF el] by (metis key)
  qed
  have two: "has_prefix (rev_Key rv) (path_join [?a, ?k])"
    using join_prefix [of "path_elems ?a @ [?k]"] v(2)
    by (simp add: join key)
  have three: "has_prefix (rev_Key rv) (path_join [?a, ?k, ?ns])" if "?ns \<noteq> []"
    using join_prefix [of "path_elems ?a @ [?k, ?ns]"] v that
    by (auto simp: join key)
  have four: "has_prefix (rev_Key rv) (rev_ResourceKey rv)"
    by (simp add: Key_split [OF assms(1)])
  show ?thesis
    using assms(2) one two three four
    by (auto simp: state_root_def Let_def state_skips_def APIVersion_def Kind_def Namespace_def
        Name_def KeyPrefixForAPIVersion_def KeyPrefixForAPIVersionKind_def
        KeyPrefixForAPIVersionKindNamespace_def revision_ResourceKey_def has_prefix_def)
qed

lemma fold_map_filter_filter:
  "(\<And>x y. x \<in> set xs \<Longrightarrow> \<not> P x \<Longrightarrow> g x = Some y \<Longrightarrow> f y = id) \<Longrightarrow>
     fold f (List.map_filter g (filter P xs)) = fold f (List.map_filter g xs)"
proof (induction xs)
  case (Cons a xs)
  have "fold f (List.map_filter g (filter P xs)) = fold f (List.map_filter g xs)"
    using Cons.prems by (intro Cons.IH) auto
  moreover have "f y = id" if "\<not> P a" "g a = Some y" for y
    by (rule Cons.prems [of a]) (use that in auto)
  ultimately show ?case by (auto simp: List.map_filter_simps split: option.splits)
qed simp

lemma store_State_fold:
  assumes "backend_wf (s_backend s)" "fault_free (s_backend s)" "so_LabelSelector opt = None"
  shows "store_State opt s =
     (Ok (fold (state_step opt) (stored_revs (s_backend s)) [], None), s)"
proof -
  let ?b = "s_backend s" and ?rt = "state_root opt"
  let ?keys = "sort (map fst (blobs (be_bucket ?b)))"
  let ?objs = "map (\<lambda>k. \<lparr>lo_key = k, lo_is_dir = False\<rparr>) (filter (\<lambda>k. has_prefix k ?rt) ?keys)"
  have w: "\<forall>obj \<in> set ?objs. walked_obj obj"
    using backend_wf_keys [OF assms(1)] by (auto simp: walked_obj_def)
  have opt: "no_selector opt = opt" using assms(3) by (simp add: no_selector_def)
  have "Backend_Walk ?b ?rt (state_walkFn opt) ([], s)
      = walk_loop (\<lambda>_. None) (state_walkFn opt) [] ?objs ([], s)"
    using assms(2) by (simp add: Backend_Walk_def bucket_List_flat fault_free_def)
  also have "\<dots> = walk_all (\<lambda>_. None) (state_walkFn opt) ?objs ([], s)"
    using state_cb.walk_loop_all [of ?objs "[]" opt] w by (simp add: opt)
  also have "\<dots> = (Ok (), (fold (state_step opt)
      (List.map_filter (\<lambda>obj. key_rev (lo_key obj)) ?objs) [], s))"
    by (rule walk_all_state [OF assms(3) w])
  also have "List.map_filter (\<lambda>obj. key_rev (lo_key obj)) ?objs
      = List.map_filter key_rev (filter (\<lambda>k. has_prefix k ?rt) ?keys)"
    by (simp add: List.map_filter_def filter_map o_def)
  also have "fold (state_step opt) \<dots> = fold (state_step opt) (stored_revs ?b)"
    unfolding stored_revs_def
  proof (rule fold_map_filter_filter)
    fix k rv assume k: "k \<in> set ?keys" "\<not> has_prefix k ?rt" "key_rev k = Some rv"
    then have "stored_key k" using backend_wf_keys [OF assms(1) k(1)] config_parse by auto
    then obtain r where "valid_revision r" "k = revision_Key r" "rv = LazyLoadingRevision r None"
      using k(3) by (auto elim: stored_keyE)
    then show "state_step opt rv = id"
      using state_root_prefix [of rv opt] k(2)
      by (auto simp: state_step_def state_matches_def fun_eq_iff)
  qed
  finally show ?thesis using assms(3) by (simp add: store_State_def)
qed

lemma state_fold_all:
  assumes "so_AllRevisions opt"
  shows "go_get (fold (state_step opt) revs []) k =
     (let l = filter (\<lambda>rv. state_matches opt rv \<and> rev_ResourceKey rv = k) revs
      in if l = [] then None else Some l)"
proof (induction revs rule: rev_induct)
  case (snoc rv revs)
  then show ?case
    using assms by (auto simp: state_step_def state_wanted_def state_add_def Let_def)
qed simp

lemma state_step_latest:
  "\<not> so_AllRevisions opt \<Longrightarrow> go_get (state_step opt rv res) k =
     (if state_matches opt rv \<and> rev_ResourceKey rv = k \<and>
         (case go_get res k of Some (r # _) \<Rightarrow> after (RevisionTimestamp rv) (RevisionTimestamp r)
          | _ \<Rightarrow> True)
      then Some [rv] else go_get res k)"
  by (auto simp: state_step_def state_wanted_def state_add_def)

lemma state_fold_latest:
  assumes "\<not> so_AllRevisions opt"
  defines "cands \<equiv> \<lambda>revs k. filter (\<lambda>rv. state_matches opt rv \<and> rev_ResourceKey rv = k) revs"
  shows "(cands revs k = [] \<longrightarrow> go_get (fold (state_step opt) revs []) k = None)
     \<and> (cands revs k \<noteq> [] \<longrightarrow> (\<exists>rv \<in> set (cands revs k).
          go_get (fold (state_step opt) revs []) k = Some [rv]
        \<and> (\<forall>x \<in> set (cands revs k). RevisionTimestamp x \<le> RevisionTimestamp rv)))"
proof (induction revs rule: rev_induct)
  case (snoc rv revs)
  let ?res = "fold (state_step opt) revs []"
  show ?case
  proof (cases "state_matches opt rv \<and> rev_ResourceKey rv = k")
    case False
    then have "go_get (state_step opt rv ?res) k = go_get ?res k"
      using assms(1) by (auto simp: state_step_latest)
    with False snoc show ?thesis by (auto simp: cands_def)
  next
    case True
    then have c: "cands (revs @ [rv]) k = cands revs k @ [rv]" by (simp add: cands_def)
    show ?thesis
    proof (cases "cands revs k = []")
      case True
      with snoc c assms(1) \<open>state_matches opt rv \<and> rev_ResourceKey rv = k\<close> show ?thesis
        by (simp add: state_step_latest)
    next
      case False
      with snoc obtain r where r: "r \<in> set (cands revs k)" "go_get ?res k = Some [r]"
        "\<forall>x \<in> set (cands revs k). RevisionTimestamp x \<le> RevisionTimestamp r" by auto
      show ?thesis
      proof (cases "after (RevisionTimestamp rv) (RevisionTimestamp r)")
        case True
        with r c assms(1) \<open>state_matches opt rv \<and> rev_ResourceKey rv = k\<close> show ?thesis
          by (auto simp: state_step_latest after_def)
      next
        case False
        with r c assms(1) \<open>state_matches opt rv \<and> rev_ResourceKey rv = k\<close> show ?thesis
          by (auto simp: state_step_latest after_def)
      qed
    qed
  qed
qed (simp add: cands_def)

section \<open>What Sync returns\<close>

lemma sync_walkFn_config:
  "walked_revision k obj = Ok None \<Longrightarrow> sync_walkFn du hs k obj st = (Ok (), st)"
  by (cases st) (simp add: sync_walkFn_def)

definition rev_handler :: "'q ResourceHandlers \<Rightarrow> Revision \<Rightarrow> 'q ResourceHandler option" where
  "rev_handler hs rv = HandlerFor hs (APIVersion rv) (Kind rv) (Namespace rv)"

definition informer_key :: "Revision \<Rightarrow> string" where
  "informer_key rv = meta_namespace_key (Namespace rv) (Name rv)"

definition sync_step ::
    "bool \<Rightarrow> 'q ResourceHandlers \<Rightarrow> Revision \<Rightarrow> State \<times> Revision list \<Rightarrow> State \<times> Revision list" where
  "sync_step du hs rv st =
     (case rev_handler hs rv of
        None \<Rightarrow> (fst st, if du then snd st @ [rv] else snd st)
      | Some h \<Rightarrow>
          (go_put (rev_ResourceKey rv)
             ((case go_get (fst st) (rev_ResourceKey rv) of None \<Rightarrow> [] | Some l \<Rightarrow> l) @ [rv]) (fst st),
           if go_get (rh_store h) (informer_key rv) = None then snd st @ [rv] else snd st))"

lemma sync_walkFn_rev:
  assumes "walked_revision k obj = Ok (Some rv)"
  shows "sync_walkFn du hs k obj st =
    (case rev_handler hs rv of
       None \<Rightarrow> (if du then Ok () else Err ErrSkipDir, sync_step du hs rv st)
     | Some h \<Rightarrow> (case rh_keyErr h (informer_key rv) of
         None \<Rightarrow> (Ok (), sync_step du hs rv st)
       | Some e \<Rightarrow> (Err (ErrWrap ''error getting revision from informer store'' e),
           (fst (sync_step du hs rv st), snd st))))"
  using assms
  by (cases st) (auto simp: sync_walkFn_def sync_step_def rev_handler_def GetByKey_def
      informer_key_def meta_namespace_key_def Let_def split: option.split)

lemma rev_handler_resource:
  assumes "valid_revision (meta rv)" "valid_revision (meta rv')"
    "rev_ResourceKey rv = rev_ResourceKey rv'"
  shows "rev_handler hs rv = rev_handler hs rv'"
  using ResourceKey_inject [OF assms]
  by (simp add: rev_handler_def APIVersion_def Kind_def Namespace_def)

lemma sync_walkFn_skip:
  assumes "walked_obj obj"
  shows "fst (sync_walkFn du hs (lo_key obj) obj st) = Err ErrSkipDir \<longleftrightarrow>
     (\<not> du \<and> (\<exists>rv. walked_revision (lo_key obj) obj = Ok (Some rv) \<and> rev_handler hs rv = None))"
  using assms
proof (cases rule: walked_objE)
  case 1
  then show ?thesis by (simp add: sync_walkFn_config)
next
  case (2 r)
  then show ?thesis by (simp add: sync_walkFn_rev split: option.split)
qed

interpretation sync_cb: walk_callback "sync_walkFn du hs" walked_obj for du hs
proof
  fix obj and s s' :: "State \<times> Revision list"
  assume w: "walked_obj obj"
    and sk: "sync_walkFn du hs (lo_key obj) obj s = (Err ErrSkipDir, s')"
  from w show "s' = s"
  proof (cases rule: walked_objE)
    case 1
    with sk show ?thesis by (simp add: sync_walkFn_config)
  next
    case (2 r)
    with sk show ?thesis
      by (simp add: sync_walkFn_rev sync_step_def split: option.splits if_splits)
  qed
next
  fix obj obj' and s s'' :: "State \<times> Revision list"
  assume w: "walked_obj obj" "walked_obj obj'"
    and d: "path_dir (lo_key obj') = path_dir (lo_key obj)"
    and sk: "fst (sync_walkFn du hs (lo_key obj) obj s) = Err ErrSkipDir"
  from sk obtain rv where rv: "\<not> du" "walked_revision (lo_key obj) obj = Ok (Some rv)"
    "rev_handler hs rv = None" unfolding sync_walkFn_skip [OF w(1)] by blast
  from w(1) obtain r where r: "valid_revision r" "rv = LazyLoadingRevision r None"
    "path_dir (lo_key obj) = revision_ResourceKey r" "revision_ResourceKey r \<noteq> ''.''"
    using rv(2) by (cases rule: walked_objE) auto
  from w(2) have "\<exists>rv'. walked_revision (lo_key obj') obj' = Ok (Some rv') \<and> rev_handler hs rv' = None"
  proof (cases rule: walked_objE)
    case 1
    with d r show ?thesis by simp
  next
    case (2 r')
    then show ?thesis
      using rev_handler_resource [of rv "LazyLoadingRevision r' None" hs] r d rv(3) by simp
  qed
  with rv(1) show "fst (sync_walkFn du hs (lo_key obj') obj' s'') = Err ErrSkipDir"
    unfolding sync_walkFn_skip [OF w(2)] by blast
qed

lemma walk_all_sync:
  assumes "\<forall>obj \<in> set objs. walked_obj obj" "\<forall>(k, h) \<in> set hs. rh_keyErr h = (\<lambda>_. None)"
  shows "walk_all (\<lambda>_. None) (sync_walkFn du hs) objs st =
       (Ok (), fold (sync_step du hs) (List.map_filter (\<lambda>obj. key_rev (lo_key obj)) objs) st)"
  using assms(1)
proof (induction objs arbitrary: st)
  case (Cons obj objs)
  then have w: "walked_obj obj" by simp
  have ke: "rh_keyErr h = (\<lambda>_. None)" if "rev_handler hs rv = Some h" for rv h
    using that assms(2)
    by (auto simp: rev_handler_def HandlerFor_def dest!: go_get_Some_in split: option.splits)
  from w show ?case
  proof (cases rule: walked_objE)
    case 1
    with Cons show ?thesis
      by (simp add: sync_walkFn_config List.map_filter_simps config_parse)
  next
    case (2 r)
    let ?rv = "LazyLoadingRevision r None" and ?fn = "sync_walkFn du hs (lo_key obj) obj st"
    have "?fn = (Ok (), sync_step du hs ?rv st) \<or> ?fn = (Err ErrSkipDir, sync_step du hs ?rv st)"
      using 2 ke by (auto simp: sync_walkFn_rev split: option.split)
    then show ?thesis
      using 2 Cons.IH [of "sync_step du hs ?rv st"] Cons.prems by (auto simp: List.map_filter_simps)
  qed
qed (simp add: List.map_filter_simps)

definition sync_tracked :: "'q ResourceHandlers \<Rightarrow> Revision \<Rightarrow> bool" where
  "sync_tracked hs rv \<longleftrightarrow> rev_handler hs rv \<noteq> None"

definition sync_obsolete :: "bool \<Rightarrow> 'q ResourceHandlers \<Rightarrow> Revision \<Rightarrow> bool" where
  "sync_obsolete du hs rv = (case rev_handler hs rv of
     None \<Rightarrow> du | Some h \<Rightarrow> go_get (rh_store h) (informer_key rv) = None)"

lemma sync_fold:
  "go_get (fst (fold (sync_step du hs) revs ([], []))) k =
     (let l = filter (\<lambda>rv. sync_tracked hs rv \<and> rev_ResourceKey rv = k) revs
      in if l = [] then None else Some l)"
  "snd (fold (sync_step du hs) revs ([], [])) = filter (sync_obsolete du hs) revs"
proof (induction revs rule: rev_induct)
  case (snoc rv revs)
  case 1
  show ?case using snoc(1)
    by (cases "rev_handler hs rv") (auto simp: sync_step_def sync_tracked_def Let_def)
next
  case (snoc rv revs)
  case 2
  show ?case using snoc(2)
    by (cases "rev_handler hs rv") (auto simp: sync_step_def sync_obsolete_def)
qed simp_all

lemma store_Sync_spec:
  assumes "backend_wf (s_backend s)" "fault_free (s_backend s)"
    "\<forall>(k, h) \<in> set hs. rh_keyErr h = (\<lambda>_. None)"
  shows "store_Sync hs s =
     Ok (fst (fold (sync_step (s_deleteUntracked s) hs) (stored_revs (s_backend s)) ([], [])),
       filter (sync_obsolete (s_deleteUntracked s) hs) (stored_revs (s_backend s)), None)"
proof -
  let ?b = "s_backend s" and ?fn = "sync_walkFn (s_deleteUntracked s) hs"
  let ?keys = "sort (map fst (blobs (be_bucket ?b)))"
  let ?objs = "map (\<lambda>k. \<lparr>lo_key = k, lo_is_dir = False\<rparr>) ?keys"
  have w: "\<forall>obj \<in> set ?objs. walked_obj obj"
    using backend_wf_keys [OF assms(1)] by (auto simp: walked_obj_def)
  have "filter (\<lambda>k. has_prefix k []) ?keys = ?keys" by (simp add: has_prefix_def)
  then have "Backend_Walk ?b [] ?fn ([], []) = walk_loop (\<lambda>_. None) ?fn [] ?objs ([], [])"
    using assms(2) by (simp add: Backend_Walk_def bucket_List_flat fault_free_def)
  also have "\<dots> = walk_all (\<lambda>_. None) ?fn ?objs ([], [])"
    using sync_cb.walk_loop_all [of ?objs "[]"] w by simp
  also have "\<dots> = (Ok (), fold (sync_step (s_deleteUntracked s) hs)
      (List.map_filter (\<lambda>obj. key_rev (lo_key obj)) ?objs) ([], []))"
    by (rule walk_all_sync [OF w assms(3)])
  also have "List.map_filter (\<lambda>obj. key_rev (lo_key obj)) ?objs = stored_revs ?b"
    by (simp add: List.map_filter_def stored_revs_def filter_map o_def)
  finally show ?thesis
    using sync_fold(2) [of "s_deleteUntracked s" hs "stored_revs ?b"]
    by (simp add: store_Sync_def split_beta)
qed

end
