(* ===== verification/Samples.thy ===== *)
theory Samples
  imports Store_Walk
begin

text \<open>
  Concrete revisions, a memory-backed store and handlers on which the properties are applied.
  The codec of the sample store knows one object; nothing here models code.
\<close>

definition web_obj :: object where
  "web_obj = [(''apiVersion'', VString ''apps/v1''), (''kind'', VString ''Deployment''),
     (''metadata'', VMap [(''name'', VString ''web''), (''namespace'', VString ''default''),
        (''resourceVersion'', VString ''10'')])]"

definition web_rev :: "int \<Rightarrow> int \<Rightarrow> bool \<Rightarrow> revision" where
  "web_rev v t d = \<lparr>apiVersion_of = ''apps/v1'', kind_of = ''Deployment'', namespace_of = ''default'',
     name_of = ''web'', resourceVersion_of = v, timestamp_of = time_unix t, deleted_of = d\<rparr>"

definition node_rev :: "int \<Rightarrow> int \<Rightarrow> bool \<Rightarrow> revision" where
  "node_rev v t d = \<lparr>apiVersion_of = ''v1'', kind_of = ''Node'', namespace_of = [],
     name_of = ''n1'', resourceVersion_of = v, timestamp_of = time_unix t, deleted_of = d\<rparr>"

definition sample_bucket :: bucket where
  "sample_bucket = \<lparr>blobs = [(''config.json'', ''{}''),
     (''apps/v1/Deployment/default/web/9-1700000000.json'', ''{}''),
     (''apps/v1/Deployment/default/web/10-1700000060.json'', ''{}''),
     (''v1/Node/n1/4-1700000000.json.deleted'', ''{}'')],
     faults = (\<lambda>_ _. None)\<rparr>"

definition sample_config :: Config where
  "sample_config = \<lparr>BucketName = [], Root = [], S3 = None\<rparr>"

definition sample_backend :: Backend where
  "sample_backend = \<lparr>be_provider = ''memory'', be_config = sample_config,
     be_bucket = sample_bucket, be_s3 = None\<rparr>"

definition sample_codec :: codec where
  "sample_codec = \<lparr>json_marshal = (\<lambda>_. Ok ''{}''), json_unmarshal = (\<lambda>_. Ok web_obj)\<rparr>"

definition sample_store :: store where
  "sample_store = \<lparr>s_backend = sample_backend, s_bulk = True, s_enableCache = False,
     s_encrypter = None, s_writeSemaphore = None, s_latestCache = [], s_deleteUntracked = False,
     s_codec = sample_codec, s_clock = (\<lambda>_. 0), s_nonce = (\<lambda>_. Ok []), s_ticks = 0\<rparr>"

text \<open>A cipher for the witnesses: it prepends nothing and is its own inverse.\<close>

definition plain_aead :: aead where
  "plain_aead = \<lparr>NonceSize = 2, Seal = (\<lambda>nonce data. data), Open = (\<lambda>nonce data. Ok data)\<rparr>"

definition web_handlers :: "unit ResourceHandlers" where
  "web_handlers = handlers_Set ''apps/v1'' ''Deployment'' []
     \<lparr>rh_store = [], rh_keyErr = (\<lambda>_. None), rh_queue = [],
      rh_client = \<lparr>dyn_gv = \<lparr>gv_group = ''apps'', gv_version = ''v1''\<rparr>,
        dyn_resource = ''deployments'', dyn_kind = ''Deployment'', dyn_namespace = []\<rparr>\<rparr> []"

lemmas path_eval = path_join_def clean_def clean_step_def path_dir_def path_base_def
  has_suffix_def has_prefix_def trim_prefix_def
lemmas number_eval = itoa_def nat_digits.simps digit_char_def atoi_def parse_int_def digit_val_def
  digit_table_def uint_cutoff_def max_uint64_def max_int64_def min_int64_def
lemmas key_eval = revision_Key_def revision_RevisionKey_def revision_ResourceKey_def
  RevisionKey_def ResourceKey_def key_rev_def ParseLazyLoadingRevision_def
  parseNamespacedRevision_def parseClusterScopedRevision_def parse_file_def
lemmas sample_eval = sample_store_def sample_backend_def sample_bucket_def sample_codec_def
  sample_config_def

lemma sample_fault_free [simp]: "fault_free (s_backend sample_store)" "fault_free sample_backend"
  by (simp_all add: fault_free_def sample_store_def sample_backend_def sample_bucket_def)

lemma sample_valid [simp]:
  "valid_revision (web_rev 9 1700000000 False)" "valid_revision (web_rev 10 1700000060 False)"
  "valid_revision (node_rev 4 1700000000 True)"
  by (simp_all add: valid_revision_def web_rev_def node_rev_def valid_api_def plain_elem_def
      max_int64_def)

lemma sample_keys:
  "revision_Key (web_rev 9 1700000000 False) = ''apps/v1/Deployment/default/web/9-1700000000.json''"
  "revision_Key (web_rev 10 1700000060 False) = ''apps/v1/Deployment/default/web/10-1700000060.json''"
  "revision_Key (node_rev 4 1700000000 True) = ''v1/Node/n1/4-1700000000.json.deleted''"
  "revision_ResourceKey (web_rev v t d) = ''apps/v1/Deployment/default/web''"
  "revision_ResourceKey (node_rev v t d) = ''v1/Node/n1''"
  by (simp_all add: key_eval path_eval number_eval web_rev_def node_rev_def)

lemma sample_trunc [simp]:
  "trunc_revision (web_rev v t d) = web_rev v t d" "trunc_revision (node_rev v t d) = node_rev v t d"
  by (simp_all add: trunc_revision_def web_rev_def node_rev_def)

lemmas sample_stored = sample_valid [THEN stored_key_Key, unfolded sample_keys]
lemmas sample_parsed = sample_valid [THEN key_rev_Key, unfolded sample_keys sample_trunc]

lemma sample_wf [simp]: "backend_wf (s_backend sample_store)" "backend_wf sample_backend"
  by (simp_all add: backend_wf_def sample_eval sample_stored DefaultConfig_def)

text \<open>In a walk version 10 comes before version 9.\<close>

lemma sample_revs:
  "stored_revs sample_backend =
     [LazyLoadingRevision (web_rev 10 1700000060 False) None,
      LazyLoadingRevision (web_rev 9 1700000000 False) None,
      LazyLoadingRevision (node_rev 4 1700000000 True) None]"
proof -
  have "sort (map fst (blobs (be_bucket sample_backend))) =
     [''apps/v1/Deployment/default/web/10-1700000060.json'',
      ''apps/v1/Deployment/default/web/9-1700000000.json'', ''config.json'',
      ''v1/Node/n1/4-1700000000.json.deleted'']"
    by (simp add: sample_eval)
  then show ?thesis
    using config_parse(3)
    by (simp add: stored_revs_def List.map_filter_simps sample_parsed DefaultConfig_def)
qed

lemma sample_live:
  "live_revs ''apps/v1/Deployment/default/web'' sample_backend
     = [LazyLoadingRevision (web_rev 10 1700000060 False) None,
        LazyLoadingRevision (web_rev 9 1700000000 False) None]"
  by (simp add: live_revs_def sample_revs sample_keys Deleted_def) (simp add: web_rev_def)

end
