(* ===== verification/Store_Props.thy ===== *)
theory Store_Props
  imports Samples
begin

text \<open>
  The properties of the revision keys, the blob backend, the encrypter and the store, each with
  its application to the sample store of theory Samples.
\<close>

section \<open>Keys\<close>

text \<open>C7: the key a revision is stored under parses back to that revision, with its timestamp
  cut to whole seconds: ParseLazyLoadingRevision inverts Key on every valid revision,
  namespaced or cluster-scoped, with or without an API group, deleted or not.\<close>

theorem key_round_trip:
  assumes "valid_revision r"
  shows "ParseLazyLoadingRevision (revision_Key r)
     = Ok (LazyLoadingRevision (r\<lparr>timestamp_of := time_unix (unix_of (timestamp_of r))\<rparr>) None)"
  using parse_Key [OF assms] by (simp add: trunc_revision_def)

theorem key_round_trip_witness:
  "ParseLazyLoadingRevision ''v1/Node/n1/4-1700000000.json.deleted''
     = Ok (LazyLoadingRevision (node_rev 4 1700000000 True) None)"
  using key_round_trip [OF sample_valid(3)] by (simp add: sample_keys) (simp add: node_rev_def)

text \<open>Two valid revisions with the same key agree in everything but the fraction of a second,
  and their resource keys agree exactly when API version, kind, namespace and name do.\<close>

theorem keys_injective:
  assumes "valid_revision r" "valid_revision r'"
  shows "(revision_Key r = revision_Key r' \<longleftrightarrow> trunc_revision r = trunc_revision r')
     \<and> (revision_ResourceKey r = revision_ResourceKey r' \<longleftrightarrow>
          apiVersion_of r = apiVersion_of r' \<and> kind_of r = kind_of r'
        \<and> namespace_of r = namespace_of r' \<and> name_of r = name_of r')"
proof (intro conjI iffI)
  assume "trunc_revision r = trunc_revision r'"
  then show "revision_Key r = revision_Key r'"
    using trunc_keys(1) [of r] trunc_keys(1) [of r'] by simp
next
  assume "revision_Key r = revision_Key r'"
  then show "trunc_revision r = trunc_revision r'" by (rule Key_inject [OF assms])
next
  assume "apiVersion_of r = apiVersion_of r' \<and> kind_of r = kind_of r'
        \<and> namespace_of r = namespace_of r' \<and> name_of r = name_of r'"
  then show "revision_ResourceKey r = revision_ResourceKey r'"
    by (simp add: revision_ResourceKey_def)
qed (use ResourceKey_inject [OF assms] in blast)+

theorem keys_injective_witness:
  "revision_Key (web_rev 9 1700000000 False) \<noteq> revision_Key (web_rev 10 1700000060 False)"
  using keys_injective [OF sample_valid(1,2)] by simp (simp add: web_rev_def)

text \<open>Parsing a key never panics, whatever the string: every index into the split path is
  guarded.\<close>

theorem parse_total: "ParseLazyLoadingRevision p \<noteq> Crash c"
  by (rule parse_no_crash)

section \<open>The store\<close>

text \<open>C11: Update stores the revision so that a later Get returns what was marshalled, read
  back through the encrypter; no other object changes and the store stays well formed.\<close>

theorem update_then_get_returns:
  assumes "valid_revision r" "fault_free (s_backend s)" "encrypter_ready s"
    "json_marshal (s_codec s) u = Ok d" "json_unmarshal (s_codec s) d = Ok u'"
  shows "\<exists>s' t. ns_Update (ConcreteRevision r u) s = (Ok (ConcreteRevision r u), (s', ConcreteRevision r u))
     \<and> fst (ns_Get (ConcreteRevision r u) s') = Ok (Some (RevisionFrom t u'))
     \<and> (\<forall>k. k \<noteq> revision_Key r \<longrightarrow> backend_objs (s_backend s') k = backend_objs (s_backend s) k)
     \<and> (backend_wf (s_backend s) \<longrightarrow> backend_wf (s_backend s'))"
  by (rule update_then_get [OF assms])

definition sealed_store :: store where
  "sealed_store = sample_store\<lparr>s_encrypter := Some \<lparr>HashAlgorithm = ''SHA256'', AEAD = plain_aead\<rparr>,
     s_nonce := (\<lambda>_. Ok ''ab'')\<rparr>"

theorem update_then_get_witness:
  "\<exists>s' t. fst (ns_Get (ConcreteRevision (web_rev 9 1700000000 False) web_obj) s')
     = Ok (Some (RevisionFrom t web_obj)) \<and> backend_wf (s_backend s')"
proof -
  have "encrypter_ready sealed_store" "fault_free (s_backend sealed_store)"
    "backend_wf (s_backend sealed_store)"
    "json_marshal (s_codec sealed_store) web_obj = Ok ''{}''"
    "json_unmarshal (s_codec sealed_store) ''{}'' = Ok web_obj"
    by (simp_all add: encrypter_ready_def sealed_store_def aead_sound_def plain_aead_def
        sample_codec_def sample_store_def)
  with update_then_get_returns [OF sample_valid(1), of sealed_store web_obj "''{}''" web_obj]
  show ?thesis by blast
qed

text \<open>C12: on a well-formed store, List returns exactly the live revisions of the resource in the
  order of their versions, and Get on a cold cache opens the one with the highest version.\<close>

theorem list_and_get_latest:
  assumes "backend_wf (s_backend s)" "fault_free (s_backend s)"
  shows "ns_List (Namespace rv) (APIVersion rv) (Kind rv) (Name rv) s
       = Ok (sort_revs (live_revs (rev_ResourceKey rv) (s_backend s)))
     \<and> latestRevision rv s = Ok (if live_revs (rev_ResourceKey rv) (s_backend s) = [] then None
       else Some (last (sort_revs (live_revs (rev_ResourceKey rv) (s_backend s)))))"
  using ns_List_spec [OF assms] latestRevision_spec [OF assms]
  by (simp add: live_revs_def revision_ResourceKey_def APIVersion_def Kind_def Namespace_def
      Name_def Let_def)

theorem list_and_get_latest_witness:
  "latestRevision (ConcreteRevision (web_rev 1 0 False) []) sample_store
     = Ok (Some (LazyLoadingRevision (web_rev 10 1700000060 False) None))"
  using list_and_get_latest [of sample_store "ConcreteRevision (web_rev 1 0 False) []"] sample_live
  by (simp add: sample_keys) (simp add: sort_revs_def ResourceVersion_def sample_store_def web_rev_def)


definition all_options :: "bool \<Rightarrow> StateOptions" where
  "all_options all = \<lparr>so_APIVersion = ''apps/v1'', so_Kind = [], so_LabelSelector = None,
     so_Time = zero_time, so_Namespace = [], so_AllNamespaces = True, so_Name = [],
     so_AllRevisions = all, so_OnlyDeleted = False\<rparr>"

lemmas option_eval = state_matches_def state_skips_def state_passes_def all_options_def
  APIVersion_def Kind_def Namespace_def Name_def RevisionTimestamp_def after_def web_rev_def
  node_rev_def Deleted_def




text \<open>C10: Sync returns the state of all tracked resources and, as revisions to delete, exactly the
  stored revisions whose object the informer no longer has, and those of untracked kinds when
  the store deletes untracked ones.\<close>

theorem sync_result:
  assumes "backend_wf (s_backend s)" "fault_free (s_backend s)"
    "\<forall>(k, h) \<in> set hs. rh_keyErr h = (\<lambda>_. None)"
  shows "\<exists>st. store_Sync hs s =
       Ok (st, filter (\<lambda>rv. case HandlerFor hs (APIVersion rv) (Kind rv) (Namespace rv) of
                None \<Rightarrow> s_deleteUntracked s
              | Some h \<Rightarrow> go_get (rh_store h) (meta_namespace_key (Namespace rv) (Name rv)) = None)
            (stored_revs (s_backend s)), None)
     \<and> (\<forall>k. go_get st k =
          (let l = filter (\<lambda>rv. HandlerFor hs (APIVersion rv) (Kind rv) (Namespace rv) \<noteq> None
                     \<and> rev_ResourceKey rv = k) (stored_revs (s_backend s))
           in if l = [] then None else Some l))"
  using store_Sync_spec [OF assms] sync_fold(1) [of "s_deleteUntracked s" hs]
  unfolding sync_obsolete_def [abs_def] rev_handler_def informer_key_def sync_tracked_def by blast

theorem sync_result_witness:
  "\<exists>st. store_Sync web_handlers sample_store =
     Ok (st, [LazyLoadingRevision (web_rev 10 1700000060 False) None,
              LazyLoadingRevision (web_rev 9 1700000000 False) None], None)"
proof -
  have b: "s_backend sample_store = sample_backend" by (simp add: sample_store_def)
  have h: "\<forall>(k, h) \<in> set web_handlers. rh_keyErr h = (\<lambda>_. None)"
    by (simp add: web_handlers_def handlers_Set_def go_put_def)
  show ?thesis
    using sync_result [OF sample_wf(1) sample_fault_free(1) h]
    by (auto simp: b sample_revs option_eval HandlerFor_def web_handlers_def handlers_Set_def
        handler_key_def path_eval sample_store_def)
qed

end
