(* ===== verification/InMemory.thy ===== *)
theory InMemory
  imports Store_Walk
begin

text \<open>
  pkg/store/inmemory\_getter.go: the revisions kept in memory, per resource key and version, and
  the version written last.  \<open>State\<close> filters a list by cutting it while it ranges over it; the
  backing array and the length of the slice are kept apart, so that what happens then is
  visible.  The locale at the end is the contract between a writer and a later reader.
\<close>

section \<open>The cache\<close>

record rev_cache =
  rc_m :: "(string, (int, Revision) go_map) go_map"
  rc_latestCache :: "(string, int) go_map"

definition NewInMemoryGetter :: rev_cache where
  "NewInMemoryGetter = \<lparr>rc_m = [], rc_latestCache = []\<rparr>"

definition cache_Set :: "Revision \<Rightarrow> rev_cache \<Rightarrow> rev_cache" where
  "cache_Set rv c =
     (let resource = rev_ResourceKey rv;
          revs = (case go_get (rc_m c) resource of None \<Rightarrow> [] | Some revs \<Rightarrow> revs)
      in \<lparr>rc_m = go_put resource (go_put (ResourceVersion rv) rv revs) (rc_m c),
          rc_latestCache = go_put resource (ResourceVersion rv) (rc_latestCache c)\<rparr>)"

text \<open>A version missing from \<open>latestCache\<close> reads as 0, a missing revision as nil.\<close>

definition cache_Get :: "Revision \<Rightarrow> rev_cache \<Rightarrow> Revision option" where
  "cache_Get rv c = (case go_get (rc_m c) (rev_ResourceKey rv) of
     None \<Rightarrow> None
   | Some revs \<Rightarrow> go_get revs (case go_get (rc_latestCache c) (rev_ResourceKey rv) of
        None \<Rightarrow> 0 | Some v \<Rightarrow> v))"

definition cache_Delete :: "Revision \<Rightarrow> rev_cache \<Rightarrow> rev_cache" where
  "cache_Delete rv c = (case go_get (rc_m c) (rev_ResourceKey rv) of
     None \<Rightarrow> c
   | Some revs \<Rightarrow>
       c\<lparr>rc_m := go_put (rev_ResourceKey rv) (go_del (ResourceVersion rv) revs) (rc_m c)\<rparr>)"

text \<open>The nil slice is the empty list.\<close>

definition cache_List :: "string \<Rightarrow> rev_cache \<Rightarrow> Revision list" where
  "cache_List prefix c = (case go_get (rc_m c) prefix of
     None \<Rightarrow> [] | Some revs \<Rightarrow> map snd revs)"

definition cache_State :: "rev_cache \<Rightarrow> State" where
  "cache_State c = filter (\<lambda>(k, revs). revs \<noteq> []) (map (\<lambda>(k, revs). (k, map snd revs)) (rc_m c))"

section \<open>The getter\<close>

definition mem_Backend :: string where "mem_Backend = ''inmemory''"

definition mem_PurgeRevision :: "Revision \<Rightarrow> rev_cache \<Rightarrow> unit result \<times> rev_cache" where
  "mem_PurgeRevision rv c = (Ok (), cache_Delete rv c)"

definition mem_PurgeRevisions ::
    "Revision list \<Rightarrow> rev_cache \<Rightarrow> (Revision list \<times> error option) result \<times> rev_cache" where
  "mem_PurgeRevisions revs c = (Ok (revs, None), fold cache_Delete revs c)"

definition mem_Update :: "Revision \<Rightarrow> rev_cache \<Rightarrow> Revision result \<times> rev_cache" where
  "mem_Update rv c = (Ok rv, cache_Set rv c)"

definition mem_Create :: "Revision \<Rightarrow> rev_cache \<Rightarrow> Revision result \<times> rev_cache" where
  "mem_Create rv c = mem_Update rv c"

definition mem_Delete :: "Revision \<Rightarrow> rev_cache \<Rightarrow> unit result \<times> rev_cache" where
  "mem_Delete rv c = (Ok (), cache_Set rv c)"

definition mem_Get :: "Revision \<Rightarrow> rev_cache \<Rightarrow> Revision result" where
  "mem_Get rv c = (case cache_Get rv c of None \<Rightarrow> Err ErrNotFound | Some r \<Rightarrow> Ok r)"

definition mem_List :: "string \<Rightarrow> string \<Rightarrow> string \<Rightarrow> string \<Rightarrow> rev_cache \<Rightarrow> Revision list result" where
  "mem_List ns apiVersion kind nm c =
     (let revs = cache_List (ResourceKey apiVersion kind ns nm) c in
      if revs = [] then Err ErrNotFound else Ok revs)"

subsection \<open>State\<close>

text \<open>The tests that delete the resource from the state.\<close>

definition mem_skips :: "StateOptions \<Rightarrow> Revision \<Rightarrow> bool" where
  "mem_skips opt rv \<longleftrightarrow>
     (so_APIVersion opt \<noteq> [] \<and> so_APIVersion opt \<noteq> APIVersion rv)
     \<or> (so_Kind opt \<noteq> [] \<and> so_Kind opt \<noteq> Kind rv)
     \<or> (so_Namespace opt \<noteq> [] \<and> so_Namespace opt \<noteq> Namespace rv \<and> \<not> so_AllNamespaces opt)
     \<or> (so_Name opt \<noteq> [] \<and> so_Name opt \<noteq> Name rv)"

text \<open>The tests that cut the revision out of the list.\<close>

definition mem_cuts :: "StateOptions \<Rightarrow> Revision \<Rightarrow> bool" where
  "mem_cuts opt rv \<longleftrightarrow>
     (so_OnlyDeleted opt \<and> \<not> Deleted rv)
     \<or> (so_Time opt \<noteq> zero_time \<and> after (so_Time opt) (RevisionTimestamp rv))"

text \<open>Whether any of the tests looks at the revision at all.\<close>

definition mem_derefs :: "StateOptions \<Rightarrow> bool" where
  "mem_derefs opt \<longleftrightarrow> so_APIVersion opt \<noteq> [] \<or> so_Kind opt \<noteq> [] \<or> so_Namespace opt \<noteq> []
     \<or> so_Name opt \<noteq> [] \<or> so_OnlyDeleted opt \<or> so_Time opt \<noteq> zero_time"

text \<open>
  The inner loop over the indices of the list as it was when the loop began: \<open>arr\<close> is the backing
  array, \<open>n\<close> the length of \<open>state[resourceKey]\<close>.  The result is \<open>None\<close> when the resource was
  deleted from the state.
\<close>

fun mem_loop :: "StateOptions \<Rightarrow> nat list \<Rightarrow> Revision option list \<Rightarrow> nat
    \<Rightarrow> (Revision option list \<times> nat) option result" where
  "mem_loop opt [] arr n = Ok (Some (arr, n))"
| "mem_loop opt (i # is) arr n =
     (case arr ! i of
        None \<Rightarrow> if mem_derefs opt then Crash nil_deref else mem_loop opt is arr n
      | Some rv \<Rightarrow>
          if mem_skips opt rv then Ok None
          else if mem_cuts opt rv then
            result_bind (Cut (take n arr) i (i + 1)) (\<lambda>(cut, n').
              mem_loop opt is (cut @ drop n arr) n')
          else mem_loop opt is arr n)"

definition mem_state_entry :: "StateOptions \<Rightarrow> Revision list \<Rightarrow> Revision list option result" where
  "mem_state_entry opt revs =
     result_bind (mem_loop opt [0 ..< length revs] (map Some revs) (length revs)) (\<lambda>r.
       let kept = (case r of None \<Rightarrow> [] | Some (arr, n) \<Rightarrow> take n arr) in
       if \<not> so_AllRevisions opt then
         if kept = [] then Crash (Panic ''index out of range [-1]'')
         else (case last kept of None \<Rightarrow> Crash nil_deref | Some rv \<Rightarrow> Ok (Some [rv]))
       else (case r of
          None \<Rightarrow> Ok None
        | Some _ \<Rightarrow> (case those kept of
             None \<Rightarrow> Crash nil_deref
           | Some l \<Rightarrow> Ok (Some (sort_revs l)))))"

fun mem_state_loop :: "StateOptions \<Rightarrow> State \<Rightarrow> State \<Rightarrow> State result" where
  "mem_state_loop opt [] state = Ok state"
| "mem_state_loop opt ((resourceKey, revs) # entries) state =
     result_bind (mem_state_entry opt revs) (\<lambda>r.
       mem_state_loop opt entries (case r of
          None \<Rightarrow> go_del resourceKey state | Some l \<Rightarrow> go_put resourceKey l state))"

definition mem_State :: "StateOptions \<Rightarrow> rev_cache \<Rightarrow> State result" where
  "mem_State opt c = mem_state_loop opt (cache_State c) (cache_State c)"

section \<open>The contract of a writer and a reader\<close>

text \<open>
  What the controller expects of a revision interface: \<open>Get\<close> returns what the last successful
  write to the resource gave, and a failed write changes nothing \<open>Get\<close> can see.
\<close>

locale revision_interface =
  fixes update :: "Revision \<Rightarrow> 's \<Rightarrow> Revision result \<times> 's"
    and get :: "Revision \<Rightarrow> 's \<Rightarrow> Revision result"
    and latest :: "'s \<Rightarrow> string \<Rightarrow> Revision option"
  assumes update_ok: "update rv s = (Ok r, s') \<Longrightarrow> latest s' = (latest s)(rev_ResourceKey rv \<mapsto> r)"
    and update_fail: "update rv s = (Err e, s') \<Longrightarrow> latest s' = latest s"
    and get_latest: "get rv s = (case latest s (rev_ResourceKey rv) of
        None \<Rightarrow> Err ErrNotFound | Some r \<Rightarrow> Ok r)"
begin

lemma get_after_update:
  "update rv s = (Ok r, s') \<Longrightarrow> rev_ResourceKey rv' = rev_ResourceKey rv \<Longrightarrow> get rv' s' = Ok r"
  by (auto dest: update_ok simp: get_latest)

lemma get_frame:
  "update rv s = (Ok r, s') \<Longrightarrow> rev_ResourceKey rv' \<noteq> rev_ResourceKey rv \<Longrightarrow> get rv' s' = get rv' s"
  by (auto dest: update_ok simp: get_latest)

lemma get_after_failed_update:
  "update rv s = (Err e, s') \<Longrightarrow> get rv' s' = get rv' s"
  by (auto dest: update_fail simp: get_latest)

text \<open>A sequence of writes, the failed ones passed over.\<close>

primrec updates :: "Revision list \<Rightarrow> 's \<Rightarrow> 's" where
  "updates [] s = s"
| "updates (rv # rvs) s = updates rvs (snd (update rv s))"

lemma updates_other:
  assumes "\<And>rv s c. rv \<in> set rvs \<Longrightarrow> fst (update rv s) \<noteq> Crash c"
    and "\<forall>rv \<in> set rvs. rev_ResourceKey rv \<noteq> rev_ResourceKey rv0"
  shows "get rv0 (updates rvs s) = get rv0 s"
  using assms
proof (induction rvs arbitrary: s)
  case (Cons rv rvs)
  obtain r s' where u: "update rv s = (r, s')" by (cases "update rv s")
  have "r \<noteq> Crash c" for c using Cons.prems(1) [of rv s c] u by simp
  then have "get rv0 s' = get rv0 s"
    using u get_frame [of rv s _ s' rv0] get_after_failed_update [of rv s _ s' rv0] Cons.prems(2)
    by (cases r) auto
  then show ?case using Cons u by simp
qed simp

end

definition cache_latest :: "rev_cache \<Rightarrow> string \<Rightarrow> Revision option" where
  "cache_latest c k = (case go_get (rc_m c) k of
     None \<Rightarrow> None
   | Some revs \<Rightarrow> go_get revs (case go_get (rc_latestCache c) k of None \<Rightarrow> 0 | Some v \<Rightarrow> v))"

lemma cache_Get_latest: "cache_Get rv c = cache_latest c (rev_ResourceKey rv)"
  by (simp add: cache_Get_def cache_latest_def)

lemma cache_latest_Set: "cache_latest (cache_Set rv c) = (cache_latest c)(rev_ResourceKey rv \<mapsto> rv)"
  by (rule ext) (simp add: cache_latest_def cache_Set_def Let_def cong: option.case_cong)

interpretation mem: revision_interface mem_Update mem_Get cache_latest
  by unfold_locales (auto simp: mem_Update_def mem_Get_def cache_Get_latest cache_latest_Set)

section \<open>Lists and purges\<close>

definition cache_wf :: "rev_cache \<Rightarrow> bool" where
  "cache_wf c \<longleftrightarrow> go_wf (rc_m c) \<and> (\<forall>(k, revs) \<in> set (rc_m c). go_wf revs
     \<and> (\<forall>(v, rv) \<in> set revs. ResourceVersion rv = v \<and> rev_ResourceKey rv = k))"

definition cached :: "rev_cache \<Rightarrow> string \<Rightarrow> int \<Rightarrow> Revision option" where
  "cached c k v = (case go_get (rc_m c) k of None \<Rightarrow> None | Some revs \<Rightarrow> go_get revs v)"

lemma cached_Set [simp]:
  "cached (cache_Set rv c) k v =
     (if k = rev_ResourceKey rv \<and> v = ResourceVersion rv then Some rv else cached c k v)"
  by (auto simp: cached_def cache_Set_def Let_def split: option.split)

lemma cached_Delete [simp]:
  "cached (cache_Delete rv c) k v =
     (if k = rev_ResourceKey rv \<and> v = ResourceVersion rv then None else cached c k v)"
  by (auto simp: cached_def cache_Delete_def split: option.split)

lemma cached_NewInMemoryGetter [simp]: "cached NewInMemoryGetter k v = None"
  by (simp add: cached_def NewInMemoryGetter_def)

lemma cache_wf_New [simp]: "cache_wf NewInMemoryGetter"
  by (simp add: cache_wf_def NewInMemoryGetter_def)

lemma cache_wf_get:
  assumes "cache_wf c" "go_get (rc_m c) k = Some revs"
  shows "go_wf revs" "\<forall>(v, rv) \<in> set revs. ResourceVersion rv = v \<and> rev_ResourceKey rv = k"
  using assms go_get_Some_in [OF assms(2)] by (auto simp: cache_wf_def)

lemma cache_wf_put:
  assumes "cache_wf c" "go_wf revs"
    "\<forall>(v, rv) \<in> set revs. ResourceVersion rv = v \<and> rev_ResourceKey rv = k"
  shows "cache_wf \<lparr>rc_m = go_put k revs (rc_m c), rc_latestCache = l\<rparr>"
proof -
  have "go_wf (rc_m c)" using assms(1) by (simp add: cache_wf_def)
  then show ?thesis using assms by (auto simp: cache_wf_def set_go_put)
qed

lemma cache_wf_Set [simp]: "cache_wf c \<Longrightarrow> cache_wf (cache_Set rv c)"
proof -
  assume wf: "cache_wf c"
  define revs where "revs = (case go_get (rc_m c) (rev_ResourceKey rv) of None \<Rightarrow> [] | Some revs \<Rightarrow> revs)"
  have "go_wf revs" "\<forall>(v, r) \<in> set revs. ResourceVersion r = v \<and> rev_ResourceKey r = rev_ResourceKey rv"
    using cache_wf_get [OF wf, of "rev_ResourceKey rv"]
    by (cases "go_get (rc_m c) (rev_ResourceKey rv)"; simp add: revs_def)+
  then have "cache_wf \<lparr>rc_m = go_put (rev_ResourceKey rv) (go_put (ResourceVersion rv) rv revs) (rc_m c),
      rc_latestCache = go_put (rev_ResourceKey rv) (ResourceVersion rv) (rc_latestCache c)\<rparr>"
    by (intro cache_wf_put [OF wf]) (auto simp: set_go_put)
  then show ?thesis by (simp add: cache_Set_def revs_def Let_def)
qed

lemma cache_wf_Delete [simp]: "cache_wf c \<Longrightarrow> cache_wf (cache_Delete rv c)"
proof (cases "go_get (rc_m c) (rev_ResourceKey rv)")
  case (Some revs)
  assume wf: "cache_wf c"
  have "cache_wf \<lparr>rc_m = go_put (rev_ResourceKey rv) (go_del (ResourceVersion rv) revs) (rc_m c),
      rc_latestCache = rc_latestCache c\<rparr>"
    using cache_wf_get [OF wf Some] by (intro cache_wf_put [OF wf]) (auto simp: set_go_del)
  then show ?thesis using Some by (simp add: cache_Delete_def cache_wf_def)
qed (simp add: cache_Delete_def)

lemma mem_List_set:
  assumes "cache_wf c"
  shows "rv \<in> set (cache_List k c) \<longleftrightarrow> cached c k (ResourceVersion rv) = Some rv"
proof (cases "go_get (rc_m c) k")
  case (Some revs)
  have "rv \<in> set (map snd revs) \<longleftrightarrow> (ResourceVersion rv, rv) \<in> set revs"
    using cache_wf_get(2) [OF assms Some] by force
  then show ?thesis
    using go_get_in [OF cache_wf_get(1) [OF assms Some]] Some
    by (simp add: cache_List_def cached_def)
qed (simp add: cache_List_def cached_def)

section \<open>What State does while it cuts\<close>

text \<open>The backing array is nil exactly from the length of the slice on.\<close>

definition cut_inv :: "'a option list \<Rightarrow> nat \<Rightarrow> bool" where
  "cut_inv arr n \<longleftrightarrow> n \<le> length arr \<and> (\<forall>k < length arr. arr ! k = None \<longleftrightarrow> n \<le> k)"

lemma cut_inv_Some [simp]: "cut_inv (map Some revs) (length revs)"
  by (simp add: cut_inv_def)

lemma cut_inv_Cut:
  assumes "cut_inv arr n" "i < n"
  obtains arr' where "Cut (take n arr) i (i + 1) = Ok (arr', n - 1)"
    "cut_inv (arr' @ drop n arr) (n - 1)" "length (arr' @ drop n arr) = length arr"
    "set (arr' @ drop n arr) \<subseteq> insert None (set arr)"
    "\<forall>k < length arr. k < i \<longrightarrow> (arr' @ drop n arr) ! k = arr ! k"
proof -
  let ?arr' = "take i arr @ drop (i + 1) (take n arr) @ [None]"
  have n: "n \<le> length arr" using assms(1) by (simp add: cut_inv_def)
  have len: "length ?arr' = n" using n assms(2) by simp
  have "Cut (take n arr) i (i + 1) = Ok (?arr', n - 1)"
    using n assms(2) by (simp add: Cut_def min_def)
  moreover have nth: "(?arr' @ drop n arr) ! k
      = (if k < i then arr ! k else if k < n - 1 then arr ! (k + 1) else if k = n - 1 then None
         else arr ! k)" if "k < length arr" for k
    using that n assms(2) by (auto simp: nth_append min_def)
  moreover have "cut_inv (?arr' @ drop n arr) (n - 1)"
    unfolding cut_inv_def
  proof (intro conjI allI impI)
    show "n - 1 \<le> length (?arr' @ drop n arr)" using len by simp
    fix k assume "k < length (?arr' @ drop n arr)"
    then have k: "k < length arr" using len n by simp
    have inv: "\<And>k. k < length arr \<Longrightarrow> arr ! k = None \<longleftrightarrow> n \<le> k"
      using assms(1) by (simp add: cut_inv_def)
    show "(?arr' @ drop n arr) ! k = None \<longleftrightarrow> n - 1 \<le> k"
      unfolding nth [OF k] using inv [OF k] inv [of "k + 1"] assms(2) n by auto
  qed
  moreover have "set (?arr' @ drop n arr) \<subseteq> insert None (set arr)"
    using set_take_subset [of i arr] set_drop_subset [of "i + 1" "take n arr"]
      set_take_subset [of n arr] set_drop_subset [of n arr] by auto
  ultimately show ?thesis using that [of ?arr'] len n by simp
qed

text \<open>Once a revision other than the last is cut, the loop reaches a nil entry and panics.\<close>

lemma mem_loop_panics:
  assumes "cut_inv arr n" "\<forall>rv. Some rv \<in> set arr \<longrightarrow> \<not> mem_skips opt rv" "mem_derefs opt"
    and "i < length arr"
    and "n < length arr \<or> (\<exists>k rv. i \<le> k \<and> k + 1 < length arr \<and> arr ! k = Some rv \<and> mem_cuts opt rv)"
  shows "\<exists>c. mem_loop opt [i ..< length arr] arr n = Crash c"
  using assms
proof (induction "length arr - i" arbitrary: i arr n)
  case (Suc m)
  have up: "[i ..< length arr] = i # [Suc i ..< length arr]"
    using Suc.prems(4) by (simp add: upt_conv_Cons)
  have m: "m = length arr - Suc i" using Suc.hyps(2) by simp
  show ?case
  proof (cases "arr ! i")
    case None
    then show ?thesis using Suc.prems(3) by (simp add: up)
  next
    case (Some rv)
    then have ns: "\<not> mem_skips opt rv" using Suc.prems(2,4) by (metis nth_mem)
    have i: "i < n" using Suc.prems(1,4) Some by (force simp: cut_inv_def)
    have last: "n < length arr \<Longrightarrow> Suc i < length arr" using i by simp
    show ?thesis
    proof (cases "mem_cuts opt rv")
      case False
      have "\<exists>c. mem_loop opt [Suc i ..< length arr] arr n = Crash c"
      proof (rule Suc.hyps(1) [OF m Suc.prems(1-3)])
        show "n < length arr \<or> (\<exists>k rv. Suc i \<le> k \<and> k + 1 < length arr \<and> arr ! k = Some rv
            \<and> mem_cuts opt rv)"
          using Suc.prems(5) Some False by (metis Suc_leI le_neq_implies_less option.inject)
        then show "Suc i < length arr" using last by auto
      qed
      then show ?thesis using Some ns False by (simp add: up)
    next
      case True
      obtain arr' where cut: "Cut (take n arr) i (i + 1) = Ok (arr', n - 1)"
        "cut_inv (arr' @ drop n arr) (n - 1)" "length (arr' @ drop n arr) = length arr"
        "set (arr' @ drop n arr) \<subseteq> insert None (set arr)"
        by (rule cut_inv_Cut [OF Suc.prems(1) i])
      have "Suc i < length arr" using Suc.prems(5) last by auto
      moreover have "n - 1 < length arr"
        using i Suc.prems(1) unfolding cut_inv_def by linarith
      moreover have "\<forall>rv. Some rv \<in> set (arr' @ drop n arr) \<longrightarrow> \<not> mem_skips opt rv"
        using cut(4) Suc.prems(2) by blast
      ultimately have "\<exists>c. mem_loop opt [Suc i ..< length (arr' @ drop n arr)]
          (arr' @ drop n arr) (n - 1) = Crash c"
        using cut(2,3) m by (intro Suc.hyps(1) Suc.prems(3)) simp_all
      then show ?thesis using Some ns True cut(1,3) by (simp add: up)
    qed
  qed
qed simp

lemma mem_loop_keeps:
  assumes "\<forall>k \<in> set is. \<exists>rv. arr ! k = Some rv \<and> \<not> mem_skips opt rv \<and> \<not> mem_cuts opt rv"
  shows "mem_loop opt is arr n = Ok (Some (arr, n))"
  using assms by (induction "is") auto

lemma mem_loop_keeps_append:
  assumes "\<forall>k \<in> set is. \<exists>rv. arr ! k = Some rv \<and> \<not> mem_skips opt rv \<and> \<not> mem_cuts opt rv"
  shows "mem_loop opt (is @ js) arr n = mem_loop opt js arr n"
  using assms by (induction "is") auto

lemma those_Some [simp]: "those (map Some xs) = Some xs"
  by (induction xs) auto

lemma mem_cuts_derefs: "mem_cuts opt rv \<Longrightarrow> mem_derefs opt"
  by (auto simp: mem_cuts_def mem_derefs_def)

lemma mem_state_entry_spec:
  assumes "revs \<noteq> []" "\<forall>rv \<in> set revs. \<not> mem_skips opt rv" "so_AllRevisions opt"
  shows "(\<exists>rv \<in> set (butlast revs). mem_cuts opt rv) \<Longrightarrow> \<exists>c. mem_state_entry opt revs = Crash c"
    and "\<forall>rv \<in> set (butlast revs). \<not> mem_cuts opt rv \<Longrightarrow> mem_state_entry opt revs
      = Ok (Some (sort_revs (if mem_cuts opt (last revs) then butlast revs else revs)))"
proof -
  assume "\<exists>rv \<in> set (butlast revs). mem_cuts opt rv"
  then obtain k where k: "k < length (butlast revs)" "mem_cuts opt (butlast revs ! k)"
    by (metis in_set_conv_nth)
  then have "k + 1 < length revs" "map Some revs ! k = Some (revs ! k)" "mem_cuts opt (revs ! k)"
    by (simp_all add: nth_butlast)
  then have "\<exists>c. mem_loop opt [0 ..< length (map Some revs)] (map Some revs) (length revs) = Crash c"
    using assms(1,2) by (intro mem_loop_panics) (auto intro: mem_cuts_derefs)
  then show "\<exists>c. mem_state_entry opt revs = Crash c" by (auto simp: mem_state_entry_def)
next
  assume keep: "\<forall>rv \<in> set (butlast revs). \<not> mem_cuts opt rv"
  let ?arr = "map Some revs" and ?m = "length revs - 1"
  have m: "[0 ..< length revs] = [0 ..< ?m] @ [?m]"
    using assms(1) by (metis One_nat_def Suc_pred length_greater_0_conv upt_Suc_append zero_le)
  have "mem_loop opt [0 ..< length revs] ?arr (length revs) = mem_loop opt [?m] ?arr (length revs)"
    unfolding m
  proof (rule mem_loop_keeps_append, intro ballI)
    fix k assume "k \<in> set [0 ..< ?m]"
    then have k: "k < ?m" by simp
    then have "revs ! k \<in> set (butlast revs)" by (metis length_butlast nth_butlast nth_mem)
    moreover from k have "revs ! k \<in> set revs" by simp
    ultimately show "\<exists>rv. ?arr ! k = Some rv \<and> \<not> mem_skips opt rv \<and> \<not> mem_cuts opt rv"
      using keep assms(2) k by auto
  qed
  moreover have "?arr ! ?m = Some (last revs)" using assms(1) by (simp add: last_conv_nth)
  moreover have "\<not> mem_skips opt (last revs)" using assms by simp
  moreover have "Cut ?arr ?m (?m + 1) = Ok (map Some (butlast revs) @ [None], ?m)"
    using assms(1) by (cases "length revs") (simp_all add: Cut_def butlast_conv_take take_map Let_def)
  ultimately show "mem_state_entry opt revs
      = Ok (Some (sort_revs (if mem_cuts opt (last revs) then butlast revs else revs)))"
    using assms(3) by (simp add: mem_state_entry_def)
qed

text \<open>A resource that does not match panics when only the last revision is wanted.\<close>

lemma mem_state_entry_skipped:
  assumes "mem_skips opt rv"
  shows "mem_state_entry opt (rv # revs) =
     (if so_AllRevisions opt then Ok None else Crash (Panic ''index out of range [-1]''))"
  using assms by (simp add: mem_state_entry_def upt_rec del: upt_Suc)

lemma mem_loop_no_err: "mem_loop opt is arr n \<noteq> Err e"
proof (induction opt "is" arr n rule: mem_loop.induct)
  case (2 opt i "is" arr n)
  have "Cut (take n arr) i (i + 1) \<noteq> Err e" by (simp add: Cut_def Let_def)
  with 2 show ?case
    by (cases "Cut (take n arr) i (i + 1)") (auto split: option.splits)
qed simp

lemma mem_state_entry_no_err: "mem_state_entry opt revs \<noteq> Err e"
  using mem_loop_no_err [of opt "[0 ..< length revs]" "map Some revs" "length revs" e]
  unfolding mem_state_entry_def
  by (cases "mem_loop opt [0 ..< length revs] (map Some revs) (length revs)")
    (auto simp: Let_def split: option.splits)

lemma mem_state_loop_crash:
  "(k, revs) \<in> set entries \<Longrightarrow> mem_state_entry opt revs = Crash c \<Longrightarrow>
     \<exists>c. mem_state_loop opt entries st = Crash c"
proof (induction entries arbitrary: st)
  case (Cons p entries)
  obtain k' revs' where p: "p = (k', revs')" by (cases p)
  show ?case
  proof (cases "mem_state_entry opt revs'")
    case (Ok a)
    with Cons p show ?thesis by auto
  qed (use p mem_state_entry_no_err in auto)
qed simp

lemma mem_state_loop_ok:
  assumes "go_wf entries" "\<forall>(k, revs) \<in> set entries. mem_state_entry opt revs = Ok (f revs)"
  shows "\<exists>st'. mem_state_loop opt entries st = Ok st' \<and> (\<forall>k. go_get st' k =
     (case go_get entries k of None \<Rightarrow> go_get st k | Some revs \<Rightarrow> f revs))"
  using assms
proof (induction entries arbitrary: st)
  case (Cons p entries)
  obtain k' revs' where p: "p = (k', revs')" by (cases p)
  let ?st = "case f revs' of None \<Rightarrow> go_del k' st | Some l \<Rightarrow> go_put k' l st"
  have fresh: "go_get entries k' = None" using Cons.prems(1) by (simp add: p go_get_None_iff)
  obtain st' where "mem_state_loop opt entries ?st = Ok st'"
    "\<forall>k. go_get st' k = (case go_get entries k of None \<Rightarrow> go_get ?st k | Some revs \<Rightarrow> f revs)"
    using Cons.IH [of ?st] Cons.prems by (auto simp: p)
  then show ?case
    using Cons.prems(2) fresh by (auto simp: p split: option.split)
qed simp

lemma mem_state_loop_wf: "mem_state_loop opt entries st = Ok st' \<Longrightarrow> go_wf st \<Longrightarrow> go_wf st'"
proof (induction entries arbitrary: st)
  case (Cons p entries)
  then show ?case by (cases p) (auto simp: result_bind_eq_Ok split: option.splits)
qed simp

lemma cache_State_get:
  assumes "cache_wf c"
  shows "go_wf (cache_State c)"
    "go_get (cache_State c) k = (if cache_List k c = [] then None else Some (cache_List k c))"
proof -
  have wf: "go_wf (rc_m c)" using assms by (simp add: cache_wf_def)
  then have "distinct (map fst (map (\<lambda>(k, revs). (k, map snd revs)) (rc_m c)))"
    by (simp add: go_wf_def comp_def case_prod_unfold)
  then show swf: "go_wf (cache_State c)"
    unfolding cache_State_def go_wf_def by (rule distinct_map_filter)
  have "go_get (cache_State c) k = Some l \<longleftrightarrow> l \<noteq> [] \<and> cache_List k c = l" for l
  proof -
    have "go_get (cache_State c) k = Some l
        \<longleftrightarrow> l \<noteq> [] \<and> (\<exists>revs. (k, revs) \<in> set (rc_m c) \<and> l = map snd revs)"
      unfolding go_get_in [OF swf] by (auto simp: cache_State_def)
    also have "\<dots> \<longleftrightarrow> l \<noteq> [] \<and> cache_List k c = l"
      unfolding go_get_in [OF wf, symmetric] by (auto simp: cache_List_def split: option.splits)
    finally show ?thesis .
  qed
  then show "go_get (cache_State c) k = (if cache_List k c = [] then None else Some (cache_List k c))"
    by (metis not_Some_eq)
qed

lemma mem_State_unfiltered:
  assumes "cache_wf c" "so_AllRevisions opt"
    "\<forall>k. \<forall>rv \<in> set (cache_List k c). \<not> mem_skips opt rv \<and> \<not> mem_cuts opt rv"
  shows "\<exists>st. mem_State opt c = Ok st \<and> go_wf st \<and> (\<forall>k. go_get st k =
     (if cache_List k c = [] then None else Some (sort_revs (cache_List k c))))"
proof -
  let ?m = "cache_State c"
  note m = cache_State_get [OF assms(1)]
  have entry: "\<forall>(k, revs) \<in> set ?m. mem_state_entry opt revs = Ok (Some (sort_revs revs))"
  proof
    fix p assume "p \<in> set ?m"
    moreover obtain k revs where p: "p = (k, revs)" by (cases p)
    ultimately have r: "revs \<noteq> []" "cache_List k c = revs"
      using m(2) [of k] go_get_in [OF m(1), of k revs] by (auto split: if_splits)
    then have pass: "\<forall>rv \<in> set revs. \<not> mem_skips opt rv" "\<forall>rv \<in> set revs. \<not> mem_cuts opt rv"
      using assms(3) by auto
    then have "\<forall>rv \<in> set (butlast revs). \<not> mem_cuts opt rv" "\<not> mem_cuts opt (last revs)"
      using r(1) by (auto dest: in_set_butlastD)
    then show "case p of (k, revs) \<Rightarrow> mem_state_entry opt revs = Ok (Some (sort_revs revs))"
      using mem_state_entry_spec(2) [OF r(1) pass(1) assms(2)] p by simp
  qed
  from mem_state_loop_ok [OF m(1), of opt "\<lambda>revs. Some (sort_revs revs)" ?m] entry
  obtain st where st: "mem_state_loop opt ?m ?m = Ok st"
    "\<forall>k. go_get st k = (case go_get ?m k of None \<Rightarrow> go_get ?m k | Some revs \<Rightarrow> Some (sort_revs revs))"
    by auto
  then show ?thesis using mem_state_loop_wf [OF st(1) m(1)] by (auto simp: mem_State_def m(2))
qed

end
