(* ===== verification/ReadWrite.thy ===== *)
theory ReadWrite
  imports InMemory
begin

text \<open>
  pkg/store/readwrite.go: writes go to the revision store and then to the in-memory getter, reads
  to the getter alone.  A write that fails in the store does not reach the memory.  The locale
  \<open>revision_interface\<close> is interpreted on the pair.
\<close>

record rw_store =
  rw_storer :: store
  rw_reader :: rev_cache
  rw_writeSemaphore :: "int option"

definition NewReadWriteStorer :: "store \<Rightarrow> rev_cache \<Rightarrow> int option \<Rightarrow> rw_store result" where
  "NewReadWriteStorer w r sem = Ok \<lparr>rw_storer = w, rw_reader = r, rw_writeSemaphore = sem\<rparr>"

definition rw_Backend :: "rw_store \<Rightarrow> string" where
  "rw_Backend s = store_Backend (rw_storer s) @ ''-cached''"

section \<open>Single revisions\<close>

text \<open>The revision is one object: the reader gets it as the store left it.\<close>

definition rw_Update :: "Revision \<Rightarrow> rw_store \<Rightarrow> Revision result \<times> (rw_store \<times> Revision)" where
  "rw_Update rv s =
     (case ns_Update rv (rw_storer s) of (res, (st, rv)) \<Rightarrow>
      on_ok (res, (s\<lparr>rw_storer := st\<rparr>, rv)) (\<lambda>_ (s, rv).
        let (r, c) = mem_Update rv (rw_reader s) in (r, (s\<lparr>rw_reader := c\<rparr>, rv))))"

definition rw_Create :: "Revision \<Rightarrow> rw_store \<Rightarrow> Revision result \<times> (rw_store \<times> Revision)" where
  "rw_Create rv s =
     (case ns_Create rv (rw_storer s) of (res, (st, rv)) \<Rightarrow>
      on_ok (res, (s\<lparr>rw_storer := st\<rparr>, rv)) (\<lambda>_ (s, rv).
        let (r, c) = mem_Create rv (rw_reader s) in (r, (s\<lparr>rw_reader := c\<rparr>, rv))))"

definition rw_Delete :: "Revision \<Rightarrow> rw_store \<Rightarrow> unit result \<times> (rw_store \<times> Revision)" where
  "rw_Delete rv s =
     (case ns_Delete rv (rw_storer s) of (res, (st, rv)) \<Rightarrow>
      on_ok (res, (s\<lparr>rw_storer := st\<rparr>, rv)) (\<lambda>_ (s, rv).
        let (r, c) = mem_Delete rv (rw_reader s) in (r, (s\<lparr>rw_reader := c\<rparr>, rv))))"

definition rw_Get :: "Revision \<Rightarrow> rw_store \<Rightarrow> Revision result" where
  "rw_Get rv s = mem_Get rv (rw_reader s)"

definition rw_List :: "string \<Rightarrow> string \<Rightarrow> string \<Rightarrow> string \<Rightarrow> rw_store \<Rightarrow> Revision list result" where
  "rw_List ns apiVersion kind nm s = mem_List ns apiVersion kind nm (rw_reader s)"

section \<open>State, Sync and purging\<close>

definition rw_State :: "StateOptions \<Rightarrow> rw_store \<Rightarrow> State result" where
  "rw_State opt s = mem_State opt (rw_reader s)"

fun rw_create_all :: "Revision list \<Rightarrow> rev_cache \<Rightarrow> unit result \<times> rev_cache" where
  "rw_create_all [] c = (Ok (), c)"
| "rw_create_all (rv # rvs) c = on_ok (mem_Create rv c) (\<lambda>_ c. rw_create_all rvs c)"

text \<open>The nested loops over the state's lists are one loop over their concatenation.\<close>

definition rw_Sync :: "'q ResourceHandlers \<Rightarrow> rw_store
    \<Rightarrow> (State \<times> Revision list) result \<times> rw_store" where
  "rw_Sync handlers s =
     on_ok (store_Sync handlers (rw_storer s), s) (\<lambda>(state, toDelete, err) s.
       case err of
         Some e \<Rightarrow> (Err e, s)
       | None \<Rightarrow>
           let (r, c) = rw_create_all (concat (map snd state)) (rw_reader s) in
           on_ok (r, s\<lparr>rw_reader := c\<rparr>) (\<lambda>_ s. (Ok (state, toDelete), s)))"

definition rw_PurgeRevision :: "Revision \<Rightarrow> rw_store \<Rightarrow> unit result \<times> rw_store" where
  "rw_PurgeRevision rv s =
     (let (r, st) = PurgeRevision rv (rw_storer s) in
      on_ok (r, s\<lparr>rw_storer := st\<rparr>) (\<lambda>_ s.
        let (r, c) = mem_PurgeRevision rv (rw_reader s) in (r, s\<lparr>rw_reader := c\<rparr>)))"

definition rw_PurgeRevisions :: "Revision list \<Rightarrow> rw_store
    \<Rightarrow> (Revision list \<times> error option) result \<times> rw_store" where
  "rw_PurgeRevisions revs s =
     (let (r, st) = PurgeRevisions revs (rw_storer s) in
      on_ok (r, s\<lparr>rw_storer := st\<rparr>) (\<lambda>(deletedFromStore, writerErr) s.
        let (r, c) = mem_PurgeRevisions deletedFromStore (rw_reader s) in
        on_ok (r, s\<lparr>rw_reader := c\<rparr>) (\<lambda>(revsDeleted, _) s. (Ok (revsDeleted, writerErr), s))))"

section \<open>The contract\<close>

text \<open>Neither the store nor the content a revision loads changes what it is a revision of.\<close>

lemma Content_meta: "meta (snd (snd (Content rv s))) = meta rv"
  by (cases "(rv, s)" rule: Content.cases)
    (auto simp: Let_def split: prod.split result.split option.split Revision.split)

lemma store_write_meta:
  assumes "store_write w rv s = (r, (w', s', rv'))"
  shows "meta rv' = meta rv"
proof -
  obtain ru s1 rv1 where c: "Content rv s = (ru, (s1, rv1))" by (metis surj_pair)
  then have m: "meta rv1 = meta rv" using Content_meta [of rv s] by simp
  have "meta (snd (snd (snd (store_write w rv s)))) = meta rv"
    unfolding store_write_def c prod.case
    by (rule on_ok_invariant [where P = "\<lambda>(w, s, rv'). meta rv' = meta rv", simplified case_prod_beta])
      (auto simp: m on_ok_def split: prod.split result.split)
  then show ?thesis using assms by simp
qed

lemma store_save_meta: "meta (snd (snd (store_save rv s))) = meta rv"
  by (auto simp: store_save_def on_ok_def dest: store_write_meta
      split: prod.splits result.splits crash.split)

lemma ns_Update_meta: "ns_Update rv s = (res, (s', rv')) \<Longrightarrow> meta rv' = meta rv"
  using store_save_meta [of rv s]
  by (cases "store_save rv s"; cases "fst (store_save rv s)") (auto simp: ns_Update_def)

lemma ns_Update_result: "ns_Update rv s = (Ok r, (s', rv')) \<Longrightarrow> r = rv'"
  by (auto simp: ns_Update_def on_ok_eq_Ok)

definition rw_latest :: "rw_store \<Rightarrow> string \<Rightarrow> Revision option" where
  "rw_latest s = cache_latest (rw_reader s)"

definition rw_write :: "Revision \<Rightarrow> rw_store \<Rightarrow> Revision result \<times> rw_store" where
  "rw_write rv s = (let (r, (s', _)) = rw_Update rv s in (r, s'))"

lemma rw_write_cases:
  "rw_write rv s = (case ns_Update rv (rw_storer s) of
     (Ok r, (st, rv')) \<Rightarrow> (Ok rv', s\<lparr>rw_storer := st, rw_reader := cache_Set rv' (rw_reader s)\<rparr>)
   | (Err e, (st, rv')) \<Rightarrow> (Err e, s\<lparr>rw_storer := st\<rparr>)
   | (Crash c, (st, rv')) \<Rightarrow> (Crash c, s\<lparr>rw_storer := st\<rparr>))"
  by (auto simp: rw_write_def rw_Update_def mem_Update_def split: prod.split result.split)

interpretation rw: revision_interface rw_write rw_Get rw_latest
proof
  fix rv s r s'
  assume "rw_write rv s = (Ok r, s')"
  then obtain st rv' r' where u: "ns_Update rv (rw_storer s) = (Ok r', (st, rv'))" "r = rv'"
    "rw_reader s' = cache_Set rv' (rw_reader s)"
    by (auto simp: rw_write_cases split: prod.splits result.splits)
  then show "rw_latest s' = (rw_latest s)(rev_ResourceKey rv \<mapsto> r)"
    using ns_Update_meta [OF u(1)] by (simp add: rw_latest_def cache_latest_Set)
next
  fix rv s e s'
  assume "rw_write rv s = (Err e, s')"
  then show "rw_latest s' = rw_latest s"
    by (auto simp: rw_write_cases rw_latest_def split: prod.splits result.splits)
next
  fix rv s
  show "rw_Get rv s = (case rw_latest s (rev_ResourceKey rv) of
      None \<Rightarrow> Err ErrNotFound | Some r \<Rightarrow> Ok r)"
    by (simp add: rw_Get_def rw_latest_def mem_Get_def cache_Get_latest)
qed

section \<open>What the memory holds after Sync\<close>

lemma rw_create_all_ok: "rw_create_all rvs c = (Ok (), fold cache_Set rvs c)"
  by (induction rvs arbitrary: c) (simp_all add: mem_Create_def mem_Update_def)

lemma cache_latest_fold:
  "cache_latest (fold cache_Set rvs c) k =
     (let l = filter (\<lambda>rv. rev_ResourceKey rv = k) rvs
      in if l = [] then cache_latest c k else Some (last l))"
  by (induction rvs arbitrary: c rule: rev_induct) (auto simp: cache_latest_Set Let_def)

lemma cache_wf_fold: "cache_wf c \<Longrightarrow> cache_wf (fold cache_Set rvs c)"
  by (induction rvs arbitrary: c) auto

lemma cached_fold_None:
  "cached (fold cache_Set rvs c) k v = None \<longleftrightarrow> cached c k v = None
     \<and> (\<forall>rv \<in> set rvs. \<not> (rev_ResourceKey rv = k \<and> ResourceVersion rv = v))"
  by (induction rvs arbitrary: c) auto

lemma rw_Sync_spec:
  assumes "store_Sync hs (rw_storer s) = Ok (state, toDelete, None)"
  shows "rw_Sync hs s = (Ok (state, toDelete),
     s\<lparr>rw_reader := fold cache_Set (concat (map snd state)) (rw_reader s)\<rparr>)"
  using assms by (simp add: rw_Sync_def rw_create_all_ok)

lemma rw_Sync_failed:
  assumes "store_Sync hs (rw_storer s) = Ok (state, toDelete, Some e)"
  shows "rw_Sync hs s = (Err e, s)"
  using assms by (simp add: rw_Sync_def)

text \<open>
  The revisions of one resource are in one entry of the state: in the concatenation over any
  order of the entries they keep the order of that entry.
\<close>

lemma filter_state_concat:
  assumes "go_wf state" "\<forall>(k, l) \<in> set state. \<forall>rv \<in> set l. rev_ResourceKey rv = k"
  shows "filter (\<lambda>rv. rev_ResourceKey rv = k) (concat (map snd state)) =
     (case go_get state k of None \<Rightarrow> [] | Some l \<Rightarrow> l)"
  using assms
proof (induction state)
  case (Cons p state)
  obtain k' l where p: "p = (k', l)" by (cases p)
  have IH: "filter (\<lambda>rv. rev_ResourceKey rv = k) (concat (map snd state)) =
     (case go_get state k of None \<Rightarrow> [] | Some l \<Rightarrow> l)" using Cons by auto
  show ?case
  proof (cases "k = k'")
    case True
    then have "go_get state k = None" using Cons.prems(1) by (simp add: p go_get_None_iff)
    moreover have "filter (\<lambda>rv. rev_ResourceKey rv = k) l = l"
      using Cons.prems(2) True by (auto simp: p intro: filter_True)
    ultimately show ?thesis using IH True by (simp add: p)
  next
    case False
    then have "filter (\<lambda>rv. rev_ResourceKey rv = k) l = []"
      using Cons.prems(2) by (auto simp: p intro: filter_False)
    then show ?thesis using IH False by (simp add: p)
  qed
qed simp

section \<open>Purging keeps the two in step\<close>

lemma cached_purge:
  "cached (fold cache_Delete revs c) k v =
     (if \<exists>rv \<in> set revs. rev_ResourceKey rv = k \<and> ResourceVersion rv = v then None else cached c k v)"
  by (induction revs arbitrary: c) auto

lemma rw_PurgeRevisions_spec:
  assumes "PurgeRevisions revs (rw_storer s) = (Ok (gone, err), st)"
  shows "rw_PurgeRevisions revs s =
     (Ok (gone, err), s\<lparr>rw_storer := st, rw_reader := fold cache_Delete gone (rw_reader s)\<rparr>)"
  using assms by (simp add: rw_PurgeRevisions_def mem_PurgeRevisions_def)

end
