(* ===== verification/Policy.thy ===== *)
theory Policy
  imports Storage
begin

text \<open>
  pkg/controller/policy, pkg/util/sliceutil and the types of pkg/rpo: which rule of the backup
  policy applies to a revision.  How well a rule matches is a \<open>match_level\<close>, a linear order; the
  main lemma says \<open>RuleFor\<close> picks the first full match, else the last of the best partial ones.
\<close>

section \<open>Policies\<close>

record RPOPolicy =
  PurgeOlderThan :: int
  RPO :: int

text \<open>A label selector is the parsed third-party selector's predicate.\<close>

record BackupRule =
  br_APIGroups :: "string list"
  br_Resources :: "string list"
  br_ResourceNames :: "string list"
  br_Namespaces :: "string list"
  br_Fields :: "string list"
  br_LabelSelector :: "((string, string) go_map \<Rightarrow> bool) option"
  br_RPOPolicy :: "RPOPolicy option"

record BackupPolicy =
  bp_Rules :: "BackupRule list"
  bp_Fields :: "string list"
  bp_RPOPolicy :: "RPOPolicy option"

fun sliceutil_In :: "string list \<Rightarrow> string \<Rightarrow> bool" where
  "sliceutil_In [] needle = False"
| "sliceutil_In (s # haystack) needle = (if needle = s then True else sliceutil_In haystack needle)"

lemma sliceutil_In_set [simp]: "sliceutil_In xs x \<longleftrightarrow> x \<in> set xs"
  by (induction xs) auto

section \<open>RuleFor\<close>

definition list_match :: "string list \<Rightarrow> string \<Rightarrow> bool" where
  "list_match xs x \<longleftrightarrow> sliceutil_In xs x \<or> length xs = 0 \<or> (length xs > 0 \<and> hd xs = ''*'')"

definition label_match :: "BackupRule \<Rightarrow> store \<times> Revision \<Rightarrow> bool result \<times> (store \<times> Revision)" where
  "label_match rule st = (case br_LabelSelector rule of
     None \<Rightarrow> (Ok True, st)
   | Some sel \<Rightarrow> on_ok (Content (snd st) (fst st)) (\<lambda>content st. (Ok (sel (GetLabels content)), st)))"

definition name_match :: "BackupRule \<Rightarrow> Revision \<Rightarrow> bool" where
  "name_match rule rv = list_match (br_ResourceNames rule) (Name rv)"
definition namespace_match :: "BackupRule \<Rightarrow> Revision \<Rightarrow> bool" where
  "namespace_match rule rv = list_match (br_Namespaces rule) (Namespace rv)"
definition resources_match :: "BackupRule \<Rightarrow> Revision \<Rightarrow> bool" where
  "resources_match rule rv = list_match (br_Resources rule) (Kind rv)"
definition group_match :: "BackupRule \<Rightarrow> Revision \<Rightarrow> bool" where
  "group_match rule rv = list_match (br_APIGroups rule) (APIVersion rv)"

fun rule_loop :: "BackupRule list \<Rightarrow> nat \<Rightarrow> BackupRule option \<Rightarrow> store \<times> Revision
    \<Rightarrow> BackupRule option result \<times> (store \<times> Revision)" where
  "rule_loop [] specificity ret st = (Ok ret, st)"
| "rule_loop (rule # rules) specificity ret st =
     (case label_match rule st of
        (Err e, st) \<Rightarrow> rule_loop rules specificity ret st
      | (Crash c, st) \<Rightarrow> (Crash c, st)
      | (Ok labelMatch, st) \<Rightarrow>
          let nameMatch = name_match rule (snd st);
              namespaceMatch = namespace_match rule (snd st);
              resourcesMatch = resources_match rule (snd st);
              groupMatch = group_match rule (snd st)
          in if nameMatch \<and> namespaceMatch \<and> resourcesMatch \<and> groupMatch \<and> labelMatch
             then (Ok (Some rule), st)
             else
               let (specificity, ret) =
                     (if specificity < 4 \<and> namespaceMatch \<and> resourcesMatch \<and> groupMatch \<and> labelMatch
                      then (3, Some rule) else (specificity, ret));
                   (specificity, ret) =
                     (if specificity < 3 \<and> resourcesMatch \<and> groupMatch \<and> labelMatch
                      then (2, Some rule) else (specificity, ret));
                   (specificity, ret) =
                     (if specificity < 2 \<and> groupMatch \<and> labelMatch
                      then (1, Some rule) else (specificity, ret))
               in rule_loop rules specificity ret st)"

text \<open>The defaults of the policy, filled in where the chosen rule leaves a field at zero.\<close>

definition fill_defaults :: "BackupPolicy \<Rightarrow> BackupRule \<Rightarrow> BackupRule result" where
  "fill_defaults b ret =
     (let ret = ret\<lparr>br_Fields := br_Fields ret @ bp_Fields b\<rparr>;
          ret = (if br_RPOPolicy ret = None then ret\<lparr>br_RPOPolicy := bp_RPOPolicy b\<rparr> else ret)
      in case br_RPOPolicy ret of
           None \<Rightarrow> Crash nil_deref
         | Some p \<Rightarrow>
             result_bind
               (if RPO p = 0 then
                  (case bp_RPOPolicy b of None \<Rightarrow> Crash nil_deref | Some d \<Rightarrow> Ok (p\<lparr>RPO := RPO d\<rparr>))
                else Ok p) (\<lambda>p.
             result_bind
               (if PurgeOlderThan p = 0 then
                  (case bp_RPOPolicy b of
                     None \<Rightarrow> Crash nil_deref
                   | Some d \<Rightarrow> Ok (p\<lparr>PurgeOlderThan := PurgeOlderThan d\<rparr>))
                else Ok p) (\<lambda>p. Ok (ret\<lparr>br_RPOPolicy := Some p\<rparr>))))"

definition RuleFor :: "BackupPolicy \<Rightarrow> Revision \<Rightarrow> store
    \<Rightarrow> BackupRule option result \<times> (store \<times> Revision)" where
  "RuleFor b rv s =
     on_ok (rule_loop (bp_Rules b) 0 None (s, rv)) (\<lambda>ret st.
       case ret of
         None \<Rightarrow> (Ok None, st)
       | Some r \<Rightarrow> (result_bind (fill_defaults b r) (\<lambda>r. Ok (Some r)), st))"

section \<open>Match levels\<close>

datatype match_level = MNone | MGroup | MResource | MNamespace | MFull

primrec level_rank :: "match_level \<Rightarrow> nat" where
  "level_rank MNone = 0"
| "level_rank MGroup = 1"
| "level_rank MResource = 2"
| "level_rank MNamespace = 3"
| "level_rank MFull = 4"

lemma level_rank_inject [simp]: "level_rank a = level_rank b \<longleftrightarrow> a = b"
  by (cases a; cases b) simp_all

instantiation match_level :: linorder
begin

definition less_eq_match_level :: "match_level \<Rightarrow> match_level \<Rightarrow> bool" where
  "less_eq_match_level a b \<longleftrightarrow> level_rank a \<le> level_rank b"

definition less_match_level :: "match_level \<Rightarrow> match_level \<Rightarrow> bool" where
  "less_match_level a b \<longleftrightarrow> level_rank a < level_rank b"

instance
  by intro_classes (auto simp: less_eq_match_level_def less_match_level_def)

end

lemmas level_order = less_eq_match_level_def less_match_level_def

definition rule_level :: "Revision \<Rightarrow> BackupRule \<Rightarrow> match_level" where
  "rule_level rv rule =
     (if \<not> group_match rule rv then MNone
      else if \<not> resources_match rule rv then MGroup
      else if \<not> namespace_match rule rv then MResource
      else if \<not> name_match rule rv then MNamespace
      else MFull)"

definition level_step :: "Revision \<Rightarrow> BackupRule \<Rightarrow> nat \<times> BackupRule option \<Rightarrow> nat \<times> BackupRule option"
where
  "level_step rv rule acc =
     (if rule_level rv rule \<noteq> MNone \<and> fst acc \<le> level_rank (rule_level rv rule)
      then (level_rank (rule_level rv rule), Some rule) else acc)"

lemma rule_loop_step:
  assumes "br_LabelSelector rule = None" "specificity \<le> 3"
  shows "rule_loop (rule # rules) specificity ret (s, rv) =
     (if rule_level rv rule = MFull then (Ok (Some rule), (s, rv))
      else rule_loop rules (fst (level_step rv rule (specificity, ret)))
        (snd (level_step rv rule (specificity, ret))) (s, rv))"
  using assms by (auto simp: label_match_def rule_level_def level_step_def Let_def)

lemma level_step_bound:
  "rule_level rv rule \<noteq> MFull \<Longrightarrow> fst acc \<le> 3 \<Longrightarrow> fst (level_step rv rule acc) \<le> 3"
  by (cases "rule_level rv rule") (auto simp: level_step_def)

lemma rule_loop_no_full:
  assumes "\<forall>rule \<in> set rules. br_LabelSelector rule = None \<and> rule_level rv rule \<noteq> MFull"
    and "fst acc \<le> 3"
  shows "rule_loop rules (fst acc) (snd acc) (s, rv)
     = (Ok (snd (fold (level_step rv) rules acc)), (s, rv))"
  using assms
proof (induction rules arbitrary: acc)
  case (Cons rule rules)
  have "fst (level_step rv rule acc) \<le> 3" using Cons.prems by (intro level_step_bound) auto
  then show ?case
    using Cons.IH [of "level_step rv rule acc"] Cons.prems rule_loop_step [where rule = rule and specificity = "fst acc" and ret = "snd acc"]
    by (simp del: rule_loop.simps)
qed simp

lemma rule_loop_full:
  assumes "\<forall>rule \<in> set rules. br_LabelSelector rule = None" "specificity \<le> 3"
    and "filter (\<lambda>rule. rule_level rv rule = MFull) rules = r # rs"
  shows "rule_loop rules specificity ret (s, rv) = (Ok (Some r), (s, rv))"
  using assms
proof (induction rules arbitrary: specificity ret)
  case (Cons rule rules)
  show ?case
  proof (cases "rule_level rv rule = MFull")
    case True
    with Cons.prems show ?thesis by (simp add: rule_loop_step del: rule_loop.simps)
  next
    case False
    then have "fst (level_step rv rule (specificity, ret)) \<le> 3"
      using Cons.prems(2) by (intro level_step_bound) auto
    with False Cons show ?thesis by (simp add: rule_loop_step del: rule_loop.simps)
  qed
qed simp

text \<open>The fold keeps the last rule of the best level seen.\<close>

lemma level_fold:
  assumes "\<forall>rule \<in> set rules. rule_level rv rule \<noteq> MFull"
  shows "(case fold (level_step rv) rules (0, None) of
      (n, None) \<Rightarrow> n = 0 \<and> (\<forall>rule \<in> set rules. rule_level rv rule = MNone)
    | (n, Some r) \<Rightarrow> n = level_rank (rule_level rv r) \<and> rule_level rv r \<noteq> MNone
        \<and> (\<forall>rule \<in> set rules. rule_level rv rule \<le> rule_level rv r)
        \<and> r = last (filter (\<lambda>rule. rule_level rv rule = rule_level rv r) rules)
        \<and> r \<in> set rules)"
  using assms
proof (induction rules rule: rev_induct)
  case (snoc rule rules)
  obtain n ret where f: "fold (level_step rv) rules (0, None) = (n, ret)" by fastforce
  let ?l = "rule_level rv rule"
  have step: "fold (level_step rv) (rules @ [rule]) (0, None) =
      (if ?l \<noteq> MNone \<and> n \<le> level_rank ?l then (level_rank ?l, Some rule) else (n, ret))"
    by (simp add: f) (simp add: level_step_def)
  have IH: "case (n, ret) of
      (n, None) \<Rightarrow> n = 0 \<and> (\<forall>rule \<in> set rules. rule_level rv rule = MNone)
    | (n, Some r) \<Rightarrow> n = level_rank (rule_level rv r) \<and> rule_level rv r \<noteq> MNone
        \<and> (\<forall>rule \<in> set rules. rule_level rv rule \<le> rule_level rv r)
        \<and> r = last (filter (\<lambda>rule. rule_level rv rule = rule_level rv r) rules)
        \<and> r \<in> set rules"
    using snoc f by simp
  show ?case
  proof (cases ret)
    case None
    with IH show ?thesis unfolding step by (auto simp: level_order)
  next
    case (Some r)
    show ?thesis
    proof (cases "rule_level rv r \<le> ?l")
      case True
      then have "?l \<noteq> MNone" using IH Some
        by (cases "rule_level rv r") (auto simp: level_order)
      with True IH Some show ?thesis unfolding step by (auto simp: level_order)
    next
      case False
      then have "?l \<noteq> rule_level rv r" by auto
      with False IH Some show ?thesis unfolding step by (auto simp: level_order)
    qed
  qed
qed simp

lemma rule_loop_spec:
  assumes "\<forall>rule \<in> set rules. br_LabelSelector rule = None"
  obtains r rs where "filter (\<lambda>rule. rule_level rv rule = MFull) rules = r # rs"
      "rule_loop rules 0 None (s, rv) = (Ok (Some r), (s, rv))"
  | r where "\<forall>rule \<in> set rules. rule_level rv rule \<noteq> MFull" "r \<in> set rules"
      "rule_level rv r \<noteq> MNone" "\<forall>rule \<in> set rules. rule_level rv rule \<le> rule_level rv r"
      "r = last (filter (\<lambda>rule. rule_level rv rule = rule_level rv r) rules)"
      "rule_loop rules 0 None (s, rv) = (Ok (Some r), (s, rv))"
  | "\<forall>rule \<in> set rules. rule_level rv rule = MNone"
      "rule_loop rules 0 None (s, rv) = (Ok None, (s, rv))"
proof (cases "filter (\<lambda>rule. rule_level rv rule = MFull) rules")
  case (Cons r rs)
  then show ?thesis using that(1) rule_loop_full [OF assms _ Cons, of 0 None s] by simp
next
  case Nil
  then have nf: "\<forall>rule \<in> set rules. rule_level rv rule \<noteq> MFull" by (simp add: filter_empty_conv)
  have "rule_loop rules 0 None (s, rv) = (Ok (snd (fold (level_step rv) rules (0, None))), (s, rv))"
    using rule_loop_no_full [of rules rv "(0, None)"] assms nf by simp
  then show ?thesis
    using level_fold [OF nf] that(2) [OF nf] that(3) by (auto split: option.splits prod.splits)
qed

lemma fill_defaults_ok:
  assumes "bp_RPOPolicy b = Some d"
  shows "\<exists>r'. fill_defaults b r = Ok r' \<and> br_Fields r' = br_Fields r @ bp_Fields b
     \<and> br_RPOPolicy r' = Some (case br_RPOPolicy r of None \<Rightarrow> d
        | Some p \<Rightarrow> \<lparr>PurgeOlderThan = (if PurgeOlderThan p = 0 then PurgeOlderThan d else PurgeOlderThan p),
                    RPO = (if RPO p = 0 then RPO d else RPO p)\<rparr>)
     \<and> br_APIGroups r' = br_APIGroups r \<and> br_Resources r' = br_Resources r
     \<and> br_ResourceNames r' = br_ResourceNames r \<and> br_Namespaces r' = br_Namespaces r
     \<and> br_LabelSelector r' = br_LabelSelector r"
  using assms by (auto simp: fill_defaults_def Let_def split: option.split)

lemma fill_defaults_crash:
  "bp_RPOPolicy b = None \<Longrightarrow> br_RPOPolicy r = None \<Longrightarrow> fill_defaults b r = Crash nil_deref"
  by (simp add: fill_defaults_def)

end
