(* ===== verification/Storer.thy ===== *)
theory Storer
  imports ReadWrite Policy
begin

text \<open>
  The store the rest of the program is given: \<open>New\<close> of pkg/store/storage.go builds the plain
  revision store or, with the cache enabled, the read-write pair; the \<open>storer\_\<close> operations are
  the calls through the interface \<open>Storer\<close>.  Also \<open>Rotate\<close> of pkg/rpo, which only lists.
\<close>

datatype storer = Plain store | ReadWrite rw_store

primrec storer_base :: "storer \<Rightarrow> store" where
  "storer_base (Plain s) = s"
| "storer_base (ReadWrite s) = rw_storer s"

primrec set_base :: "store \<Rightarrow> storer \<Rightarrow> storer" where
  "set_base b (Plain s) = Plain b"
| "set_base b (ReadWrite s) = ReadWrite (s\<lparr>rw_storer := b\<rparr>)"

primrec storer_semaphore :: "storer \<Rightarrow> int option" where
  "storer_semaphore (Plain s) = s_writeSemaphore s"
| "storer_semaphore (ReadWrite s) = rw_writeSemaphore s"

section \<open>Construction\<close>

text \<open>The fields of the store that the options set; \<open>backend\<close> comes with whether it removes in bulk.\<close>

record store_builder =
  sb_backend :: "(Backend \<times> bool) option"
  sb_encrypter :: "AESEncrypter option"
  sb_enableCache :: bool
  sb_writeSemaphore :: "int option"
  sb_deleteUntracked :: bool

datatype store_option =
    WithBackend Backend bool
  | WithEncrypter "AESEncrypter option"
  | WithCache bool
  | WithConcurrentWrites int
  | WithDeleteUntracked bool

primrec apply_store_option :: "store_option \<Rightarrow> store_builder \<Rightarrow> store_builder" where
  "apply_store_option (WithBackend b bulk) s = s\<lparr>sb_backend := Some (b, bulk)\<rparr>"
| "apply_store_option (WithEncrypter e) s = s\<lparr>sb_encrypter := e\<rparr>"
| "apply_store_option (WithCache c) s = s\<lparr>sb_enableCache := c\<rparr>"
| "apply_store_option (WithConcurrentWrites n) s = s\<lparr>sb_writeSemaphore := Some n\<rparr>"
| "apply_store_option (WithDeleteUntracked d) s = s\<lparr>sb_deleteUntracked := d\<rparr>"

text \<open>The codec, the clock and the random source the new store will use.\<close>

type_synonym store_world = "codec \<times> (nat \<Rightarrow> gotime) \<times> (nat \<Rightarrow> string result)"

definition Store_New :: "store_world \<Rightarrow> store_option list \<Rightarrow> storer result" where
  "Store_New world opts =
     (let s = fold apply_store_option opts \<lparr>sb_backend = None, sb_encrypter = None,
                sb_enableCache = False, sb_writeSemaphore = None, sb_deleteUntracked = False\<rparr>
      in case sb_backend s of
           None \<Rightarrow> Err (ErrMsg ''backend cannot be empty'')
         | Some (b, bulk) \<Rightarrow>
             (case world of (codec, clock, nonce) \<Rightarrow>
              let st = \<lparr>s_backend = b, s_bulk = bulk, s_enableCache = sb_enableCache s,
                    s_encrypter = sb_encrypter s, s_writeSemaphore = sb_writeSemaphore s,
                    s_latestCache = [], s_deleteUntracked = sb_deleteUntracked s, s_codec = codec,
                    s_clock = clock, s_nonce = nonce, s_ticks = 0\<rparr>
              in if s_enableCache st then
                   result_bind (NewReadWriteStorer st NewInMemoryGetter (s_writeSemaphore st))
                     (\<lambda>rw. Ok (ReadWrite rw))
                 else Ok (Plain st)))"

text \<open>The instrumented blob backend is a bulk remover.\<close>

definition Store_NewFromEnv :: "store_world \<Rightarrow> crypto_lib \<Rightarrow> openers \<Rightarrow> (string \<Rightarrow> string)
    \<Rightarrow> (string \<Rightarrow> bool) \<Rightarrow> (string \<Rightarrow> int) \<Rightarrow> storer result" where
  "Store_NewFromEnv world lib op getString getBool getInt =
     result_bind (Crypt_NewFromEnv lib getString) (\<lambda>encrypter.
     result_bind (backend_NewFromEnv op getString) (\<lambda>b.
       Store_New world [WithEncrypter encrypter, WithBackend b True,
         WithCache (getBool ''enable-cache''), WithConcurrentWrites (getInt ''concurrent-writes''),
         WithDeleteUntracked (getBool ''delete-untracked'')]))"

section \<open>The calls of the interface\<close>

definition storer_Backend :: "storer \<Rightarrow> string" where
  "storer_Backend st = (case st of Plain s \<Rightarrow> store_Backend s | ReadWrite s \<Rightarrow> rw_Backend s)"

definition storer_Get :: "Revision \<Rightarrow> storer \<Rightarrow> Revision option result \<times> storer" where
  "storer_Get rv st = (case st of
     Plain s \<Rightarrow> (let (r, s) = ns_Get rv s in (r, Plain s))
   | ReadWrite s \<Rightarrow> (result_bind (rw_Get rv s) (\<lambda>r. Ok (Some r)), st))"

definition storer_List ::
    "string \<Rightarrow> string \<Rightarrow> string \<Rightarrow> string \<Rightarrow> storer \<Rightarrow> Revision list result" where
  "storer_List ns apiVersion kind nm st = (case st of
     Plain s \<Rightarrow> ns_List ns apiVersion kind nm s
   | ReadWrite s \<Rightarrow> rw_List ns apiVersion kind nm s)"

definition storer_Update :: "Revision \<Rightarrow> storer \<Rightarrow> Revision result \<times> (storer \<times> Revision)" where
  "storer_Update rv st = (case st of
     Plain s \<Rightarrow> (let (r, (s, rv)) = ns_Update rv s in (r, (Plain s, rv)))
   | ReadWrite s \<Rightarrow> (let (r, (s, rv)) = rw_Update rv s in (r, (ReadWrite s, rv))))"

definition storer_Create :: "Revision \<Rightarrow> storer \<Rightarrow> Revision result \<times> (storer \<times> Revision)" where
  "storer_Create rv st = (case st of
     Plain s \<Rightarrow> (let (r, (s, rv)) = ns_Create rv s in (r, (Plain s, rv)))
   | ReadWrite s \<Rightarrow> (let (r, (s, rv)) = rw_Create rv s in (r, (ReadWrite s, rv))))"

definition storer_Delete :: "Revision \<Rightarrow> storer \<Rightarrow> unit result \<times> (storer \<times> Revision)" where
  "storer_Delete rv st = (case st of
     Plain s \<Rightarrow> (let (r, (s, rv)) = ns_Delete rv s in (r, (Plain s, rv)))
   | ReadWrite s \<Rightarrow> (let (r, (s, rv)) = rw_Delete rv s in (r, (ReadWrite s, rv))))"

definition storer_State :: "StateOptions \<Rightarrow> storer \<Rightarrow> (State \<times> error option) result \<times> storer" where
  "storer_State opt st = (case st of
     Plain s \<Rightarrow> (let (r, s) = store_State opt s in (r, Plain s))
   | ReadWrite s \<Rightarrow> (result_bind (rw_State opt s) (\<lambda>res. Ok (res, None)), st))"

definition storer_Sync :: "'q ResourceHandlers \<Rightarrow> storer
    \<Rightarrow> (State \<times> Revision list) result \<times> storer" where
  "storer_Sync handlers st = (case st of
     Plain s \<Rightarrow> (result_bind (store_Sync handlers s) (\<lambda>(state, toDelete, err).
         case err of None \<Rightarrow> Ok (state, toDelete) | Some e \<Rightarrow> Err e), st)
   | ReadWrite s \<Rightarrow> (let (r, s) = rw_Sync handlers s in (r, ReadWrite s)))"

definition storer_PurgeRevisions ::
    "Revision list \<Rightarrow> storer \<Rightarrow> (Revision list \<times> error option) result \<times> storer" where
  "storer_PurgeRevisions revs st = (case st of
     Plain s \<Rightarrow> (let (r, s) = PurgeRevisions revs s in (r, Plain s))
   | ReadWrite s \<Rightarrow> (let (r, s) = rw_PurgeRevisions revs s in (r, ReadWrite s)))"

definition storer_PurgeRevision :: "Revision \<Rightarrow> storer \<Rightarrow> unit result \<times> storer" where
  "storer_PurgeRevision rv st = (case st of
     Plain s \<Rightarrow> (let (r, s) = PurgeRevision rv s in (r, Plain s))
   | ReadWrite s \<Rightarrow> (let (r, s) = rw_PurgeRevision rv s in (r, ReadWrite s)))"

text \<open>Lazy revisions load from the plain store they were parsed by, cached or not.\<close>

definition storer_Content :: "Revision \<Rightarrow> storer \<Rightarrow> object result \<times> (storer \<times> Revision)" where
  "storer_Content rv st = (let (r, (s, rv)) = Content rv (storer_base st) in (r, (set_base s st, rv)))"

definition storer_RuleFor :: "BackupPolicy \<Rightarrow> Revision \<Rightarrow> storer
    \<Rightarrow> BackupRule option result \<times> (storer \<times> Revision)" where
  "storer_RuleFor b rv st =
     (let (r, (s, rv)) = RuleFor b rv (storer_base st) in (r, (set_base s st, rv)))"

section \<open>Rotation\<close>

text \<open>
  \<open>rpo.Rotate\<close>: \<open>toPurge\<close> is never filled, so the code after its emptiness test, which would index
  a slice of length 0, is not reached.
\<close>

definition Rotate :: "storer \<Rightarrow> Revision \<Rightarrow> RPOPolicy \<Rightarrow> Revision list result" where
  "Rotate st rv pol =
     (let toPurge = ([] :: Revision list) in
      case storer_List (Namespace rv) (APIVersion rv) (Kind rv) (Name rv) st of
        Err e \<Rightarrow> if e = ErrNotFound then Ok [] else Err e
      | Crash c \<Rightarrow> Crash c
      | Ok revisions \<Rightarrow>
          if length revisions = 0 then Ok []
          else if length toPurge = 0 then Ok []
          else Crash (Panic ''index out of range [0] with length 0''))"

lemma Rotate_nothing: "Rotate st rv pol = Ok revs \<Longrightarrow> revs = []"
  by (auto simp: Rotate_def Let_def split: result.splits if_splits)

lemma ns_List_no_crash: "ns_List ns a k n s \<noteq> Crash c"
proof -
  have l: "list_loop rk infos acc \<noteq> Crash c" for rk infos acc
  proof (induction infos arbitrary: acc)
    case (Cons info infos)
    then show ?case
      using parse_no_crash by (auto simp: result_bind_def split: result.splits)
  qed simp
  have r: "readdir_loop b ret objs \<noteq> Crash c" for b ret objs
    by (induction objs arbitrary: ret) (auto split: option.splits)
  show ?thesis using l r
    by (auto simp: ns_List_def Backend_ReadDir_def Let_def result_bind_def split: result.splits)
qed

lemma storer_List_no_crash: "storer_List ns a k n st \<noteq> Crash c"
  by (auto simp: storer_List_def rw_List_def mem_List_def Let_def ns_List_no_crash split: storer.split)

section \<open>Facts about the dispatch\<close>

lemma storer_base_set [simp]:
  "storer_base (set_base b st) = b" "set_base (storer_base st) st = st"
  by (cases st; simp)+

lemma set_base_set [simp]: "set_base a (set_base b st) = set_base a st"
  by (cases st) simp_all

lemma Store_New_result:
  assumes "Store_New world opts = Ok st"
  shows "s_latestCache (storer_base st) = []"
    and "storer_semaphore st = s_writeSemaphore (storer_base st)"
    and "s_enableCache (storer_base st) \<longleftrightarrow> (\<exists>rw. st = ReadWrite rw \<and> rw_reader rw = NewInMemoryGetter)"
    and "\<not> s_enableCache (storer_base st) \<longleftrightarrow> (\<exists>s. st = Plain s)"
  using assms
  by (auto simp: Store_New_def NewReadWriteStorer_def Let_def split: option.splits prod.splits if_splits)

end
