(* ===== verification/Rev_Cache.thy ===== *)
theory Rev_Cache
  imports Revision
begin

text \<open>
  pkg/controller/cache: the cache behind the flusher and the purger.  It keeps, per key, the
  first revision of the highest version it was given; deleting removes an entry of the same
  version only.  The locale \<open>revision_cacher\<close> is the interface the two queues use; it is
  interpreted on the cache for every key function.
\<close>

type_synonym rev_queue = "(string, Revision) go_map"

definition Cache_New :: rev_queue where "Cache_New = []"

text \<open>A nil revision is \<open>None\<close>.\<close>

definition Cache_Cache :: "(Revision \<Rightarrow> string) \<Rightarrow> Revision option \<Rightarrow> rev_queue \<Rightarrow> rev_queue" where
  "Cache_Cache keyFunc rev_opt m = (case rev_opt of
     None \<Rightarrow> m
   | Some rv \<Rightarrow>
       let key = keyFunc rv in
       (case go_get m key of
          None \<Rightarrow> go_put key rv m
        | Some cached \<Rightarrow>
            if ResourceVersion cached < ResourceVersion rv then go_put key rv m else m))"

definition Cache_SafeCopy :: "rev_queue \<Rightarrow> Revision list" where
  "Cache_SafeCopy m = map snd m"

definition Cache_Delete :: "(Revision \<Rightarrow> string) \<Rightarrow> Revision option \<Rightarrow> rev_queue \<Rightarrow> rev_queue" where
  "Cache_Delete keyFunc rev_opt m = (case rev_opt of
     None \<Rightarrow> m
   | Some rv \<Rightarrow>
       let key = keyFunc rv in
       (case go_get m key of
          None \<Rightarrow> m
        | Some cachedObj \<Rightarrow>
            if ResourceVersion cachedObj = ResourceVersion rv then go_del key m else m))"

definition queue_wf :: "(Revision \<Rightarrow> string) \<Rightarrow> rev_queue \<Rightarrow> bool" where
  "queue_wf keyFunc m \<longleftrightarrow> go_wf m \<and> (\<forall>(k, rv) \<in> set m. keyFunc rv = k)"

section \<open>The interface\<close>

locale revision_cacher =
  fixes key :: "Revision \<Rightarrow> string"
    and inv :: "'q \<Rightarrow> bool"
    and entry :: "'q \<Rightarrow> string \<Rightarrow> Revision option"
    and cache :: "Revision \<Rightarrow> 'q \<Rightarrow> 'q"
    and delete :: "Revision \<Rightarrow> 'q \<Rightarrow> 'q"
    and copy :: "'q \<Rightarrow> Revision list"
  assumes cache_inv: "inv q \<Longrightarrow> inv (cache rv q)"
    and delete_inv: "inv q \<Longrightarrow> inv (delete rv q)"
    and entry_key: "inv q \<Longrightarrow> entry q k = Some rv \<Longrightarrow> key rv = k"
    and entry_cache: "inv q \<Longrightarrow> entry (cache rv q) k =
      (if k = key rv \<and> (\<forall>old. entry q k = Some old \<longrightarrow> ResourceVersion old < ResourceVersion rv)
       then Some rv else entry q k)"
    and entry_delete: "inv q \<Longrightarrow> entry (delete rv q) k =
      (if k = key rv \<and> map_option ResourceVersion (entry q k) = Some (ResourceVersion rv)
       then None else entry q k)"
    and copy_entries: "inv q \<Longrightarrow> rv \<in> set (copy q) \<longleftrightarrow> entry q (key rv) = Some rv"
begin

lemma cache_version_mono:
  "inv q \<Longrightarrow> entry q k = Some old \<Longrightarrow>
     \<exists>new. entry (cache rv q) k = Some new \<and> ResourceVersion old \<le> ResourceVersion new"
  by (auto simp: entry_cache)

lemma fold_cache_inv: "inv q \<Longrightarrow> inv (fold cache rvs q)"
  by (induction rvs arbitrary: q) (auto intro: cache_inv)

lemma fold_delete_inv: "inv q \<Longrightarrow> inv (fold delete rvs q)"
  by (induction rvs arbitrary: q) (auto intro: delete_inv)

text \<open>After any sequence of calls the entry of a key is of the highest version queued for it.\<close>

lemma fold_cache_latest:
  assumes "inv q" "entry q k = None"
  shows "(case entry (fold cache rvs q) k of
      None \<Rightarrow> \<forall>rv \<in> set rvs. key rv \<noteq> k
    | Some new \<Rightarrow> new \<in> set rvs \<and> key new = k
        \<and> (\<forall>rv \<in> set rvs. key rv = k \<longrightarrow> ResourceVersion rv \<le> ResourceVersion new))"
  using assms
proof (induction rvs rule: rev_induct)
  case (snoc rv rvs)
  have i: "inv (fold cache rvs q)" using snoc.prems(1) by (rule fold_cache_inv)
  from snoc show ?case
    by (auto simp: entry_cache [OF i] split: option.splits)
qed simp

text \<open>With an entry at the start too: no version is lost, and every entry comes from somewhere.\<close>

lemma fold_cache_mono:
  assumes "inv q" "entry q k = Some old"
  shows "\<exists>new. entry (fold cache rvs q) k = Some new \<and> ResourceVersion old \<le> ResourceVersion new"
  using assms
proof (induction rvs arbitrary: q old)
  case (Cons rv rvs)
  from cache_version_mono [OF Cons.prems, of rv] obtain mid where
    mid: "entry (cache rv q) k = Some mid" "ResourceVersion old \<le> ResourceVersion mid" by blast
  from Cons.IH [OF cache_inv [OF Cons.prems(1)] mid(1)] mid(2) show ?case by force
qed simp

lemma fold_cache_covers:
  assumes "inv q" "rv \<in> set rvs"
  shows "\<exists>new. entry (fold cache rvs q) (key rv) = Some new \<and> ResourceVersion rv \<le> ResourceVersion new"
  using assms
proof (induction rvs arbitrary: q)
  case (Cons x rvs)
  note i = cache_inv [OF Cons.prems(1)]
  show ?case
  proof (cases "rv \<in> set rvs")
    case True
    then show ?thesis using Cons.IH [OF i] by simp
  next
    case False
    then obtain mid where "entry (cache x q) (key rv) = Some mid" "ResourceVersion rv \<le> ResourceVersion mid"
      using Cons.prems entry_cache [OF Cons.prems(1), of x "key rv"] by (cases "entry q (key rv)") (auto split: if_splits)
    with fold_cache_mono [OF i, where k = "key rv"] show ?thesis by fastforce
  qed
qed simp

lemma fold_cache_origin:
  assumes "inv q" "entry (fold cache rvs q) k = Some new"
  shows "entry q k = Some new \<or> new \<in> set rvs"
  using assms
proof (induction rvs arbitrary: q)
  case (Cons x rvs)
  then show ?case using entry_cache [OF Cons.prems(1), of x k] cache_inv [OF Cons.prems(1), of x] by (auto split: if_splits)
qed simp

lemma fold_delete_entry:
  "inv q \<Longrightarrow> entry (fold delete rvs q) k =
     (case entry q k of
        None \<Rightarrow> None
      | Some new \<Rightarrow> if \<exists>rv \<in> set rvs. key rv = k \<and> ResourceVersion rv = ResourceVersion new
          then None else Some new)"
proof (induction rvs arbitrary: q)
  case Nil
  then show ?case by (auto split: option.split)
next
  case (Cons rv rvs)
  have "inv (delete rv q)" using Cons.prems by (rule delete_inv)
  from Cons.IH [OF this] show ?case
    by (auto simp: entry_delete [OF Cons.prems] split: option.splits)
qed

end

lemma queue_wf_key:
  assumes "queue_wf f m" "go_get m k = Some rv"
  shows "f rv = k"
  using assms go_get_Some_in [OF assms(2)] by (auto simp: queue_wf_def)

lemma queue_wf_put: "queue_wf f m \<Longrightarrow> f rv = k \<Longrightarrow> queue_wf f (go_put k rv m)"
  by (auto simp: queue_wf_def set_go_put)

lemma queue_wf_del: "queue_wf f m \<Longrightarrow> queue_wf f (go_del k m)"
  by (auto simp: queue_wf_def set_go_del)

lemma queue_wf_copy:
  assumes "queue_wf f m"
  shows "rv \<in> set (Cache_SafeCopy m) \<longleftrightarrow> go_get m (f rv) = Some rv"
proof -
  have wf: "go_wf m" "\<forall>(k, rv) \<in> set m. f rv = k" using assms by (auto simp: queue_wf_def)
  have "rv \<in> set (Cache_SafeCopy m) \<longleftrightarrow> (f rv, rv) \<in> set m"
    using wf(2) by (force simp: Cache_SafeCopy_def)
  then show ?thesis using go_get_in [OF wf(1)] by simp
qed

text \<open>The nil revision is ignored: the interface is about the others.\<close>

interpretation rq: revision_cacher f "queue_wf f" go_get "\<lambda>rv. Cache_Cache f (Some rv)"
    "\<lambda>rv. Cache_Delete f (Some rv)" Cache_SafeCopy for f
proof
  fix q rv
  assume "queue_wf f q"
  then show "queue_wf f (Cache_Cache f (Some rv) q)" "queue_wf f (Cache_Delete f (Some rv) q)"
    "rv \<in> set (Cache_SafeCopy q) \<longleftrightarrow> go_get q (f rv) = Some rv"
    by (auto simp: Cache_Cache_def Cache_Delete_def Let_def queue_wf_put queue_wf_del queue_wf_copy
        split: option.split)
next
  fix q k rv assume "queue_wf f q" "go_get q k = Some rv"
  then show "f rv = k" by (rule queue_wf_key)
qed (auto simp: Cache_Cache_def Cache_Delete_def Let_def split: option.splits)

end
