(* ===== verification/Flusher.thy ===== *)
theory Flusher
  imports Storer Rev_Cache
begin

text \<open>
  pkg/controller/flusher and pkg/store/asyncwriter.go: revisions are queued per resource and
  written when the ticker fires; what could not be written goes to a retry cache.  Without a
  write semaphore the flush is a loop; with one it is a step relation: the loop hands writes to
  goroutines that hold a slot of the semaphore until their response is received.  Writes are
  atomic steps, in any order.
\<close>

section \<open>The flusher\<close>

record flusher =
  fl_c :: rev_queue
  fl_retryCache :: rev_queue

definition flushKeyFunc :: "Revision \<Rightarrow> string" where "flushKeyFunc rv = rev_ResourceKey rv"
definition errorKeyFunc :: "Revision \<Rightarrow> string" where "errorKeyFunc rv = rev_Key rv"

text \<open>A ticker panics on an interval that is not positive.\<close>

definition NewTicker :: "int \<Rightarrow> unit result" where
  "NewTicker d = (if d \<le> 0 then Crash (Panic ''non-positive interval for NewTicker'') else Ok ())"

definition flusher_New :: "BackupPolicy \<Rightarrow> flusher result" where
  "flusher_New pol = (case bp_RPOPolicy pol of
     None \<Rightarrow> Crash nil_deref
   | Some p \<Rightarrow> result_bind (NewTicker (RPO p))
       (\<lambda>_. Ok \<lparr>fl_c = Cache_New, fl_retryCache = Cache_New\<rparr>))"

definition flusher_Queue :: "Revision \<Rightarrow> flusher \<Rightarrow> flusher" where
  "flusher_Queue rv f = f\<lparr>fl_c := Cache_Cache flushKeyFunc (Some rv) (fl_c f)\<rparr>"

section \<open>Writing one revision\<close>

definition write_rev :: "Revision \<Rightarrow> storer \<Rightarrow> unit result \<times> (storer \<times> Revision)" where
  "write_rev rv st =
     (if Deleted rv then storer_Delete rv st
      else on_ok (storer_Update rv st) (\<lambda>_ s. (Ok (), s)))"

fun err_of :: "'a result \<Rightarrow> error option" where
  "err_of (Err e) = Some e"
| "err_of _ = None"

section \<open>The flush without a semaphore\<close>

fun flush_loop :: "Revision list \<Rightarrow> Revision list \<Rightarrow> rev_queue \<Rightarrow> storer
    \<Rightarrow> Revision list result \<times> (rev_queue \<times> storer)" where
  "flush_loop [] failed c st = (Ok failed, (c, st))"
| "flush_loop (rv # rvs) failed c st =
     (case write_rev rv st of
        (Crash x, (st, rv)) \<Rightarrow> (Crash x, (c, st))
      | (r, (st, rv)) \<Rightarrow>
          flush_loop rvs (if err_of r \<noteq> None then failed @ [rv] else failed)
            (Cache_Delete flushKeyFunc (Some rv) c) st)"

definition flusher_retry_all :: "Revision list \<Rightarrow> rev_queue \<Rightarrow> rev_queue" where
  "flusher_retry_all failed q = fold (\<lambda>rv. Cache_Cache errorKeyFunc (Some rv)) failed q"

text \<open>One tick of either ticker: \<open>retry\<close> says which.  Both delete what they flushed from \<open>f.c\<close>.\<close>

definition flusher_tick :: "bool \<Rightarrow> flusher \<Rightarrow> storer \<Rightarrow> unit result \<times> (flusher \<times> storer)" where
  "flusher_tick retry f st =
     (let toFlush = Cache_SafeCopy (if retry then fl_retryCache f else fl_c f) in
      case flush_loop toFlush [] (fl_c f) st of
        (Ok failed, (c, st)) \<Rightarrow>
          (Ok (), (\<lparr>fl_c = c, fl_retryCache = flusher_retry_all failed (fl_retryCache f)\<rparr>, st))
      | (Err e, (c, st)) \<Rightarrow> (Err e, (f\<lparr>fl_c := c\<rparr>, st))
      | (Crash x, (c, st)) \<Rightarrow> (Crash x, (f\<lparr>fl_c := c\<rparr>, st)))"

section \<open>The flush with a semaphore\<close>

text \<open>
  The goroutines of the async writer: each sends one response, the revision and error of the write,
  over an unbuffered channel and then releases its slot of the semaphore.
\<close>

record AsyncResponse =
  resp_Revision :: "Revision option"
  resp_Error :: "error option"

definition AsyncCreate :: "Revision \<Rightarrow> storer \<Rightarrow> AsyncResponse result \<times> (storer \<times> Revision)" where
  "AsyncCreate rv st = (case storer_Create rv st of
     (Ok r, s) \<Rightarrow> (Ok \<lparr>resp_Revision = Some r, resp_Error = None\<rparr>, s)
   | (Err e, s) \<Rightarrow> (Ok \<lparr>resp_Revision = None, resp_Error = Some e\<rparr>, s)
   | (Crash c, s) \<Rightarrow> (Crash c, s))"

definition AsyncUpdate :: "Revision \<Rightarrow> storer \<Rightarrow> AsyncResponse result \<times> (storer \<times> Revision)" where
  "AsyncUpdate rv st = (case storer_Update rv st of
     (Ok r, s) \<Rightarrow> (Ok \<lparr>resp_Revision = Some r, resp_Error = None\<rparr>, s)
   | (Err e, s) \<Rightarrow> (Ok \<lparr>resp_Revision = None, resp_Error = Some e\<rparr>, s)
   | (Crash c, s) \<Rightarrow> (Crash c, s))"

definition AsyncDelete :: "Revision \<Rightarrow> storer \<Rightarrow> AsyncResponse result \<times> (storer \<times> Revision)" where
  "AsyncDelete rv st = (case storer_Delete rv st of
     (Ok _, s) \<Rightarrow> (Ok \<lparr>resp_Revision = None, resp_Error = None\<rparr>, s)
   | (Err e, s) \<Rightarrow> (Ok \<lparr>resp_Revision = None, resp_Error = Some e\<rparr>, s)
   | (Crash c, s) \<Rightarrow> (Crash c, s))"

definition async_write :: "Revision \<Rightarrow> storer \<Rightarrow> AsyncResponse result \<times> (storer \<times> Revision)" where
  "async_write rv st = (if Deleted rv then AsyncDelete rv st else AsyncUpdate rv st)"

text \<open>
  \<open>fs_running\<close> are the goroutines whose write is not done, \<open>fs_sending\<close> those that wait for their
  response to be received; both hold a slot.  \<open>Acquire\<close> fails only when the context is done.
\<close>

record flush_state =
  fs_todo :: "Revision list"
  fs_running :: "Revision list"
  fs_sending :: "(Revision \<times> error option) list"
  fs_failed :: "Revision list"
  fs_c :: rev_queue
  fs_storer :: storer

inductive flush_step :: "int \<Rightarrow> flush_state \<Rightarrow> flush_state \<Rightarrow> bool" for n :: int where
  spawn: "fs_todo s = rv # rvs
    \<Longrightarrow> int (length (fs_running s) + length (fs_sending s)) + 1 \<le> n
    \<Longrightarrow> flush_step n s (s\<lparr>fs_todo := rvs, fs_running := rv # fs_running s\<rparr>)"
| reject: "fs_todo s = rv # rvs
    \<Longrightarrow> flush_step n s (s\<lparr>fs_todo := rvs, fs_failed := fs_failed s @ [rv]\<rparr>)"
| wrote: "rv \<in> set (fs_running s) \<Longrightarrow> async_write rv (fs_storer s) = (Ok resp, (st, rv'))
    \<Longrightarrow> flush_step n s (s\<lparr>fs_running := remove1 rv (fs_running s),
          fs_sending := (rv', resp_Error resp) # fs_sending s, fs_storer := st\<rparr>)"
| received: "(rv, e) \<in> set (fs_sending s)
    \<Longrightarrow> flush_step n s (s\<lparr>fs_sending := remove1 (rv, e) (fs_sending s),
          fs_failed := (if e \<noteq> None then fs_failed s @ [rv] else fs_failed s),
          fs_c := Cache_Delete flushKeyFunc (Some rv) (fs_c s)\<rparr>)"

inductive_cases flush_stepE: "flush_step n s s'"

definition flush_start :: "Revision list \<Rightarrow> rev_queue \<Rightarrow> storer \<Rightarrow> flush_state" where
  "flush_start toFlush c st = \<lparr>fs_todo = toFlush, fs_running = [], fs_sending = [], fs_failed = [],
     fs_c = c, fs_storer = st\<rparr>"

definition flush_done :: "flush_state \<Rightarrow> bool" where
  "flush_done s \<longleftrightarrow> fs_todo s = [] \<and> fs_running s = [] \<and> fs_sending s = []"

text \<open>An asynchronous write is a write whose error is in the response.\<close>

lemma async_write_ok:
  assumes "async_write rv st = (Ok resp, (st', rv'))"
  obtains r where "write_rev rv st = (r, (st', rv'))" "\<forall>x. r \<noteq> Crash x" "err_of r = resp_Error resp"
  using assms
  by (auto simp: async_write_def AsyncDelete_def AsyncUpdate_def write_rev_def on_ok_def
      split: if_splits result.splits prod.splits)

lemma async_write_returns:
  assumes "write_rev rv st = (r, (st', rv'))" "\<forall>x. r \<noteq> Crash x"
  shows "\<exists>resp. async_write rv st = (Ok resp, (st', rv')) \<and> resp_Error resp = err_of r"
  using assms
  by (auto simp: async_write_def AsyncDelete_def AsyncUpdate_def write_rev_def on_ok_def
      split: if_splits result.splits prod.splits)

section \<open>A write stores its revision and removes nothing\<close>

definition stored_in :: "storer \<Rightarrow> Revision \<Rightarrow> bool" where
  "stored_in st rv \<longleftrightarrow> backend_objs (s_backend (storer_base st)) (rev_Key rv) \<noteq> None"

lemma store_get_backend: "s_backend (snd (store_get k s)) = s_backend s"
  by (simp add: store_get_def on_ok_def tick_def split: result.split option.split)

lemma ns_Get_backend: "s_backend (snd (ns_Get rv s)) = s_backend s"
proof (cases "go_get (s_latestCache s) (rev_ResourceKey rv)")
  case None
  show ?thesis
  proof (cases "latestRevision rv s")
    case (Ok l)
    show ?thesis
    proof (cases l)
      case (Some r)
      let ?s = "s\<lparr>s_latestCache := go_put (rev_ResourceKey rv) (rev_RevisionKey r) (s_latestCache s)\<rparr>"
      let ?g = "store_get (RevisionKey (rev_ResourceKey rv) (rev_RevisionKey r)) ?s"
      have "s_backend (snd ?g) = s_backend s" by (simp add: store_get_backend)
      then show ?thesis
        by (cases ?g; cases "fst ?g") (simp_all add: ns_Get_def None Ok Some Let_def)
    qed (simp add: ns_Get_def None Ok)
  qed (simp_all add: ns_Get_def None)
next
  case (Some l)
  let ?g = "store_get (RevisionKey (rev_ResourceKey rv) l) s"
  have "s_backend (snd ?g) = s_backend s" by (rule store_get_backend)
  then show ?thesis by (cases ?g; cases "fst ?g") (simp_all add: ns_Get_def Some)
qed

lemma Content_backend: "s_backend (fst (snd (Content rv s))) = s_backend s"
proof (cases "(rv, s)" rule: Content.cases)
  case (3 r s')
  obtain g s2 where g: "ns_Get (LazyLoadingRevision r None) s = (g, s2)" by fastforce
  then have "s_backend s2 = s_backend s"
    using ns_Get_backend [of "LazyLoadingRevision r None" s] by simp
  moreover have "rv = LazyLoadingRevision r None" using 3 by simp
  ultimately show ?thesis
  proof (cases g)
    case (Ok x)
    with g \<open>s_backend s2 = s_backend s\<close> show ?thesis
      unfolding \<open>rv = LazyLoadingRevision r None\<close>
      by (cases x) (auto simp: Let_def split: Revision.split)
  qed (use g in \<open>simp_all add: Let_def\<close>)
qed simp_all

lemma encrypt_data_backend: "s_backend (snd (encrypt_data d s)) = s_backend s"
  by (simp add: encrypt_data_def tick_def split: option.split)

lemma store_write_frame:
  assumes "store_write w rv s = (r, (w', s', rv'))"
  shows "s_backend s' = s_backend s \<and> w_key w' = w_key w"
proof -
  obtain ru s1 rv1 where c: "Content rv s = (ru, (s1, rv1))" by (metis surj_pair)
  then have b: "s_backend s1 = s_backend s" using Content_backend [of rv s] by simp
  show ?thesis
  proof (cases ru)
    case u: (Ok u)
    show ?thesis
    proof (cases "json_marshal (s_codec s1) u")
      case d: (Ok d)
      obtain rd s2 where e: "encrypt_data d s1 = (rd, s2)" by fastforce
      then have b2: "s_backend s2 = s_backend s" using encrypt_data_backend [of d s1] b by simp
      show ?thesis
      proof (cases rd)
        case d': (Ok d')
        show ?thesis
        proof (cases "Backend_Write (s_backend s2) w d'")
          case (Ok w2)
          then show ?thesis
            using assms b2 blob_be.write_ok [OF Ok] unfolding store_write_def
            by (simp add: c u d e d')
        qed (use assms b2 in \<open>simp_all add: store_write_def c u d e d'\<close>)
      qed (use assms b2 in \<open>simp_all add: store_write_def c u d e\<close>)
    qed (use assms b in \<open>simp_all add: store_write_def c u\<close>)
  qed (use assms b in \<open>simp_all add: store_write_def c\<close>)
qed

text \<open>The two ways a save can end: without touching the backend, or closing one writer.\<close>

lemma store_save_backend:
  assumes "store_save rv s = (r, (s', rv'))"
  obtains "s_backend s' = s_backend s" "\<forall>u. r \<noteq> Ok u"
  | w where "w_key w = rev_Key rv" "s_backend s' = snd (Backend_CloseWriter (s_backend s) w)"
proof (cases "Backend_Create (s_backend s) (rev_Key rv)")
  case (Ok w)
  then have wk: "w_key w = rev_Key rv" using blob_be.create_ok by blast
  obtain r2 w2 s2 rv2 where sw: "store_write w rv s = (r2, (w2, s2, rv2))" by (metis surj_pair)
  note fr = store_write_frame [OF sw]
  show ?thesis
  proof (cases "\<exists>m. r2 = Crash (Fatal m)")
    case True
    then show ?thesis using assms Ok sw fr that(1) by (auto simp: store_save_def)
  next
    case False
    then have "s_backend s' = snd (Backend_CloseWriter (s_backend s2) w2)"
      using assms Ok sw by (auto simp: store_save_def split: result.splits crash.splits)
    then show ?thesis using that(2) [of w2] fr wk by simp
  qed
qed (use assms that(1) in \<open>auto simp: store_save_def\<close>)

lemma close_objs:
  assumes "fault_free b" "w_key w \<noteq> []"
  shows "backend_objs (snd (Backend_CloseWriter b w)) = (backend_objs b)(w_key w \<mapsto> w_buf w)"
  using assms by (auto simp: blob_defs fault_free_def)

lemma close_keeps: "backend_objs b k \<noteq> None \<Longrightarrow> backend_objs (snd (Backend_CloseWriter b w)) k \<noteq> None"
  by (auto simp: blob_defs Let_def split: option.split)

lemma store_save_keeps:
  "store_save rv s = (r, (s', rv')) \<Longrightarrow> backend_objs (s_backend s) k \<noteq> None \<Longrightarrow>
     backend_objs (s_backend s') k \<noteq> None"
  by (erule store_save_backend) (simp_all add: close_keeps del: not_None_eq)

lemma store_save_stores:
  assumes "store_save rv s = (Ok (), (s', rv'))" "fault_free (s_backend s)" "rev_Key rv \<noteq> []"
  shows "backend_objs (s_backend s') (rev_Key rv) \<noteq> None"
  using assms(1) by (rule store_save_backend) (use assms(2,3) in \<open>auto simp: close_objs\<close>)

lemma store_save_fault_free:
  "store_save rv s = (r, (s', rv')) \<Longrightarrow> fault_free (s_backend s) \<Longrightarrow> fault_free (s_backend s')"
  by (erule store_save_backend) (simp_all add: fault_free_def)

lemma ns_Update_backend:
  "s_backend (fst (snd (ns_Update rv s))) = s_backend (fst (snd (store_save rv s)))
     \<and> ((\<exists>x. fst (ns_Update rv s) = Ok x) \<longleftrightarrow> fst (store_save rv s) = Ok ())
     \<and> meta (snd (snd (ns_Update rv s))) = meta rv"
  using store_save_meta [of rv s]
  by (cases "store_save rv s"; cases "fst (store_save rv s)") (auto simp: ns_Update_def)

text \<open>Either store writes through \<open>store_save\<close>.\<close>

lemma write_rev_save:
  assumes "write_rev rv st = (r, (st', rv'))"
  shows "\<exists>r0 s0 rv0. store_save rv (storer_base st) = (r0, (s0, rv0))
     \<and> s_backend (storer_base st') = s_backend s0 \<and> (r = Ok () \<longrightarrow> r0 = Ok ())
     \<and> meta rv' = meta rv"
proof -
  obtain r0 s0 rv0 where sv: "store_save rv (storer_base st) = (r0, (s0, rv0))" by (metis surj_pair)
  then have m0: "meta rv0 = meta rv" using store_save_meta [of rv "storer_base st"] by simp
  obtain ru su rvu where up: "ns_Update rv (storer_base st) = (ru, (su, rvu))" by (metis surj_pair)
  have u: "s_backend su = s_backend s0" "(\<exists>x. ru = Ok x) \<longleftrightarrow> r0 = Ok ()" "meta rvu = meta rv"
    using ns_Update_backend [of rv "storer_base st"] up sv by simp_all
  have del: "SetDeleted True rv = rv" if "Deleted rv"
    using that by (cases rv) (auto simp: Deleted_def intro!: revision.equality)
  show ?thesis
  proof (cases st)
    case (Plain s)
    show ?thesis
    proof (cases "Deleted rv")
      case True
      with assms sv Plain del m0 show ?thesis
        by (auto simp: write_rev_def storer_Delete_def ns_Delete_def)
    next
      case False
      with assms up u sv Plain show ?thesis
        by (cases ru) (auto simp: write_rev_def storer_Update_def)
    qed
  next
    case (ReadWrite s)
    show ?thesis
    proof (cases "Deleted rv")
      case True
      with assms sv ReadWrite del m0 show ?thesis
        by (cases r0) (auto simp: write_rev_def storer_Delete_def rw_Delete_def ns_Delete_def mem_Delete_def)
    next
      case False
      with assms up u sv ReadWrite show ?thesis
        by (cases ru) (auto simp: write_rev_def storer_Update_def rw_Update_def mem_Update_def)
    qed
  qed
qed

lemma write_rev_keeps:
  assumes "write_rev rv st = (r, (st', rv'))"
  shows "backend_objs (s_backend (storer_base st)) k \<noteq> None \<Longrightarrow>
       backend_objs (s_backend (storer_base st')) k \<noteq> None"
    and "fault_free (s_backend (storer_base st)) \<Longrightarrow> fault_free (s_backend (storer_base st'))"
    and "meta rv' = meta rv"
    and "r = Ok () \<Longrightarrow> fault_free (s_backend (storer_base st)) \<Longrightarrow> rev_Key rv \<noteq> [] \<Longrightarrow> stored_in st' rv"
  using write_rev_save [OF assms]
  by (auto simp: stored_in_def dest: store_save_keeps store_save_fault_free store_save_stores)

section \<open>No queued revision is lost\<close>

definition has_obj :: "storer \<Rightarrow> string \<Rightarrow> bool" where
  "has_obj st k \<longleftrightarrow> backend_objs (s_backend (storer_base st)) k \<noteq> None"

definition storer_ok :: "storer \<Rightarrow> bool" where
  "storer_ok st \<longleftrightarrow> fault_free (s_backend (storer_base st))"

lemma write_rev_has_obj:
  assumes "write_rev rv st = (r, (st', rv'))"
  shows "has_obj st k \<Longrightarrow> has_obj st' k" "storer_ok st \<Longrightarrow> storer_ok st'" "meta rv' = meta rv"
    "r = Ok () \<Longrightarrow> storer_ok st \<Longrightarrow> rev_Key rv \<noteq> [] \<Longrightarrow> has_obj st' (rev_Key rv)"
  using write_rev_keeps [OF assms] by (auto simp: has_obj_def storer_ok_def stored_in_def)

lemma flush_loop_accounts:
  assumes "flush_loop rvs failed c st = (Ok failed', (c', st'))" "storer_ok st"
    "[] \<notin> rev_Key ` set rvs"
  shows "rev_Key ` set failed \<subseteq> rev_Key ` set failed'" "has_obj st k \<Longrightarrow> has_obj st' k"
    "\<forall>rv \<in> set rvs. rev_Key rv \<in> rev_Key ` set failed' \<or> has_obj st' (rev_Key rv)"
proof -
  have "rev_Key ` set failed \<subseteq> rev_Key ` set failed' \<and> (\<forall>k. has_obj st k \<longrightarrow> has_obj st' k)
     \<and> (\<forall>rv \<in> set rvs. rev_Key rv \<in> rev_Key ` set failed' \<or> has_obj st' (rev_Key rv))"
    using assms
  proof (induction rvs arbitrary: failed c st)
    case (Cons rv rvs)
    obtain r st1 rv1 where w: "write_rev rv st = (r, (st1, rv1))" by (metis surj_pair)
    have nc: "\<forall>x. r \<noteq> Crash x" using Cons.prems(1) w by auto
    let ?failed = "if err_of r \<noteq> None then failed @ [rv1] else failed"
    have "flush_loop rvs ?failed (Cache_Delete flushKeyFunc (Some rv1) c) st1 = (Ok failed', (c', st'))"
      using Cons.prems(1) w nc by (cases r) auto
    moreover note ww = write_rev_has_obj [OF w]
    ultimately have IH: "rev_Key ` set ?failed \<subseteq> rev_Key ` set failed'"
      "\<forall>k. has_obj st1 k \<longrightarrow> has_obj st' k"
      "\<forall>rv \<in> set rvs. rev_Key rv \<in> rev_Key ` set failed' \<or> has_obj st' (rev_Key rv)"
      using Cons.IH [of ?failed _ st1] Cons.prems(2,3) by auto
    have "rev_Key rv \<in> rev_Key ` set failed' \<or> has_obj st' (rev_Key rv)"
    proof (cases r)
      case (Ok x)
      then show ?thesis using ww(4) Cons.prems(2,3) IH(2) by auto
    next
      case (Err e)
      then show ?thesis using IH(1) ww(3) by auto
    qed (use nc in simp)
    moreover have "rev_Key ` set failed \<subseteq> rev_Key ` set failed'"
      using IH(1) by (auto split: if_splits)
    ultimately show ?case using IH ww(1) by auto
  qed simp
  then show "rev_Key ` set failed \<subseteq> rev_Key ` set failed'" "has_obj st k \<Longrightarrow> has_obj st' k"
    "\<forall>rv \<in> set rvs. rev_Key rv \<in> rev_Key ` set failed' \<or> has_obj st' (rev_Key rv)" by auto
qed

text \<open>The invariant of the concurrent flush of revisions with the keys \<open>K\<close>.\<close>

definition flush_inv :: "string set \<Rightarrow> flush_state \<Rightarrow> bool" where
  "flush_inv K s \<longleftrightarrow> storer_ok (fs_storer s)
     \<and> (\<forall>x \<in> set (fs_todo s) \<union> set (fs_running s). rev_Key x \<in> K)
     \<and> (\<forall>x. (x, None) \<in> set (fs_sending s) \<longrightarrow> has_obj (fs_storer s) (rev_Key x))
     \<and> (\<forall>k \<in> K. k \<in> rev_Key ` (set (fs_todo s) \<union> set (fs_running s))
          \<or> k \<in> rev_Key ` fst ` set (fs_sending s) \<or> k \<in> rev_Key ` set (fs_failed s)
          \<or> has_obj (fs_storer s) k)"

lemma remove1_image: "f ` set xs \<subseteq> insert (f x) (f ` set (remove1 x xs))"
  by (metis image_insert image_mono insertCI set_ConsD subsetI in_set_remove1)

lemma cover_shrink:
  assumes "S \<subseteq> insert a S'" "F \<subseteq> F'" "a \<in> F' \<or> P a" "k \<in> T \<or> k \<in> S \<or> k \<in> F \<or> P k"
  shows "k \<in> T \<or> k \<in> S' \<or> k \<in> F' \<or> P k"
  using assms by blast

lemma flush_inv_step:
  assumes "flush_step n s s'" "flush_inv K s" "[] \<notin> K"
  shows "flush_inv K s'"
  using assms(1)
proof cases
  case (spawn rv rvs)
  then show ?thesis using assms(2) by (auto simp: flush_inv_def)
next
  case (reject rv rvs)
  then show ?thesis using assms(2) by (auto simp: flush_inv_def)
next
  case (wrote rv resp st rv')
  from wrote(3) obtain r where r: "write_rev rv (fs_storer s) = (r, (st, rv'))"
    "\<forall>x. r \<noteq> Crash x" "err_of r = resp_Error resp" by (rule async_write_ok)
  note w = write_rev_has_obj [OF r(1)]
  have "rev_Key rv \<in> K" using wrote(2) assms(2) by (simp add: flush_inv_def)
  then have k: "rev_Key rv \<noteq> []" using assms(3) by metis
  have ok: "resp_Error resp = None \<Longrightarrow> has_obj st (rev_Key rv)"
    unfolding r(3) [symmetric] using w(4) k r(2) assms(2) by (cases r) (auto simp: flush_inv_def)
  have inv: "storer_ok (fs_storer s)" "\<forall>x \<in> set (fs_todo s) \<union> set (fs_running s). rev_Key x \<in> K"
    "\<forall>x. (x, None) \<in> set (fs_sending s) \<longrightarrow> has_obj (fs_storer s) (rev_Key x)"
    "\<forall>k \<in> K. k \<in> rev_Key ` (set (fs_todo s) \<union> set (fs_running s))
          \<or> k \<in> rev_Key ` fst ` set (fs_sending s) \<or> k \<in> rev_Key ` set (fs_failed s)
          \<or> has_obj (fs_storer s) k"
    using assms(2) by (simp_all add: flush_inv_def)
  let ?s' = "s\<lparr>fs_running := remove1 rv (fs_running s),
      fs_sending := (rv', resp_Error resp) # fs_sending s, fs_storer := st\<rparr>"
  have "\<forall>x \<in> set (fs_todo ?s') \<union> set (fs_running ?s'). rev_Key x \<in> K"
    using inv(2) set_remove1_subset [of rv "fs_running s"] by auto
  moreover have "\<forall>x. (x, None) \<in> set (fs_sending ?s') \<longrightarrow> has_obj st (rev_Key x)"
    using ok w(1,3) inv(3) by auto
  moreover have "k \<in> rev_Key ` (set (fs_todo ?s') \<union> set (fs_running ?s'))
      \<or> k \<in> rev_Key ` fst ` set (fs_sending ?s') \<or> k \<in> rev_Key ` set (fs_failed ?s') \<or> has_obj st k"
    if "k \<in> K" for k
  proof -
    have "k \<in> rev_Key ` (set (fs_todo s) \<union> set (fs_running s))
          \<or> k \<in> rev_Key ` fst ` set (fs_sending s) \<or> k \<in> rev_Key ` set (fs_failed s)
          \<or> has_obj (fs_storer s) k" using inv(4) that by blast
    moreover have "rev_Key ` set (fs_running s)
        \<subseteq> insert (rev_Key rv') (rev_Key ` set (remove1 rv (fs_running s)))"
      using remove1_image [of rev_Key "fs_running s" rv] w(3) by simp
    ultimately show ?thesis
      using w(1) [of k] by (simp add: image_Un) blast
  qed
  ultimately show ?thesis
    unfolding flush_inv_def wrote(1) using w(2) [OF inv(1)] by simp
next
  case (received rv e)
  have "rev_Key ` fst ` set (fs_sending s)
      \<subseteq> insert (rev_Key rv) (rev_Key ` fst ` set (remove1 (rv, e) (fs_sending s)))"
    using remove1_image [of "rev_Key \<circ> fst" "fs_sending s" "(rv, e)"] by (simp add: image_comp)
  note sent = this
  have inv: "storer_ok (fs_storer s)" "\<forall>x \<in> set (fs_todo s) \<union> set (fs_running s). rev_Key x \<in> K"
    "\<forall>x. (x, None) \<in> set (fs_sending s) \<longrightarrow> has_obj (fs_storer s) (rev_Key x)"
    "\<forall>k \<in> K. k \<in> rev_Key ` (set (fs_todo s) \<union> set (fs_running s))
          \<or> k \<in> rev_Key ` fst ` set (fs_sending s) \<or> k \<in> rev_Key ` set (fs_failed s)
          \<or> has_obj (fs_storer s) k"
    using assms(2) by (simp_all add: flush_inv_def)
  let ?failed = "if e \<noteq> None then fs_failed s @ [rv] else fs_failed s"
  have rv: "rev_Key rv \<in> rev_Key ` set ?failed \<or> has_obj (fs_storer s) (rev_Key rv)"
    using inv(3) received(2) by (cases e) auto
  have "k \<in> rev_Key ` (set (fs_todo s) \<union> set (fs_running s))
      \<or> k \<in> rev_Key ` fst ` set (remove1 (rv, e) (fs_sending s)) \<or> k \<in> rev_Key ` set ?failed
      \<or> has_obj (fs_storer s) k" if "k \<in> K" for k
  proof -
    have "rev_Key ` set (fs_failed s) \<subseteq> rev_Key ` set ?failed" by auto
    note cover = cover_shrink [where P = "has_obj (fs_storer s)", OF sent this rv]
    from inv(4) that have "k \<in> rev_Key ` (set (fs_todo s) \<union> set (fs_running s))
          \<or> k \<in> rev_Key ` fst ` set (fs_sending s) \<or> k \<in> rev_Key ` set (fs_failed s)
          \<or> has_obj (fs_storer s) k" by blast
    then show ?thesis by (rule cover)
  qed
  moreover have "(x, None) \<in> set (remove1 (rv, e) (fs_sending s)) \<Longrightarrow> has_obj (fs_storer s) (rev_Key x)"
    for x using inv(3) set_remove1_subset [of "(rv, e)" "fs_sending s"] by blast
  ultimately show ?thesis
    unfolding flush_inv_def received(1) using inv(1,2) by simp
qed

lemma flush_inv_run:
  assumes "rtranclp (flush_step n) s s'" "flush_inv K s" "[] \<notin> K"
  shows "flush_inv K s'"
  using assms by (induction rule: rtranclp_induct) (auto intro: flush_inv_step)

lemma remove1_length: "x \<in> set xs \<Longrightarrow> length xs = Suc (length (remove1 x xs))"
  by (induction xs) auto

lemma flush_slots_step:
  assumes "flush_step n s s'" "int (length (fs_running s) + length (fs_sending s)) \<le> n"
  shows "int (length (fs_running s') + length (fs_sending s')) \<le> n"
  using assms(1)
proof cases
  case (wrote rv resp st rv')
  show ?thesis using assms(2) wrote(1) remove1_length [OF wrote(2)] by (simp del: length_remove1)
next
  case (received rv e)
  show ?thesis using assms(2) received(1) remove1_length [OF received(2)] by (simp del: length_remove1)
qed (use assms(2) in simp_all)

lemma flush_slots:
  assumes "rtranclp (flush_step n) s s'" "int (length (fs_running s) + length (fs_sending s)) \<le> n"
  shows "int (length (fs_running s') + length (fs_sending s')) \<le> n"
  using assms(1)
proof (induction rule: rtranclp_induct)
  case (step y z)
  show ?case by (rule flush_slots_step [OF step(2,3)])
qed (rule assms(2))

text \<open>Every step brings the flush closer to its end.\<close>

definition flush_measure :: "flush_state \<Rightarrow> nat" where
  "flush_measure s = 3 * length (fs_todo s) + 2 * length (fs_running s) + length (fs_sending s)"

lemma flush_step_measure:
  assumes "flush_step n s s'"
  shows "flush_measure s' < flush_measure s"
  using assms
proof cases
  case (wrote rv resp st rv')
  show ?thesis using wrote(1) remove1_length [OF wrote(2)]
    by (simp add: flush_measure_def del: length_remove1)
next
  case (received rv e)
  show ?thesis using received(1) remove1_length [OF received(2)]
    by (simp add: flush_measure_def del: length_remove1)
qed (simp_all add: flush_measure_def)

lemma flush_start_inv:
  "storer_ok st \<Longrightarrow> flush_inv (rev_Key ` set toFlush) (flush_start toFlush c st)"
  by (simp add: flush_inv_def flush_start_def)

lemma flush_done_accounts:
  assumes "rtranclp (flush_step n) (flush_start toFlush c st) s" "flush_done s" "storer_ok st"
    "[] \<notin> rev_Key ` set toFlush" "rv \<in> set toFlush"
  shows "rev_Key rv \<in> rev_Key ` set (fs_failed s) \<or> has_obj (fs_storer s) (rev_Key rv)"
  using flush_inv_run [OF assms(1) flush_start_inv [OF assms(3)] assms(4)] assms(2,5)
  by (auto simp: flush_inv_def flush_done_def)

section \<open>The retry cache\<close>

lemma retry_all_keeps:
  assumes "queue_wf errorKeyFunc q" "go_get q k = Some rv"
  shows "\<exists>rv'. go_get (flusher_retry_all failed q) k = Some rv'
     \<and> ResourceVersion rv \<le> ResourceVersion rv'"
  unfolding flusher_retry_all_def by (rule rq.fold_cache_mono [OF assms])

lemma retry_all_has:
  assumes "queue_wf errorKeyFunc q" "k \<in> rev_Key ` set failed"
  shows "go_get (flusher_retry_all failed q) k \<noteq> None"
proof -
  from assms(2) obtain f where "f \<in> set failed" "errorKeyFunc f = k" by (auto simp: errorKeyFunc_def)
  with rq.fold_cache_covers [OF assms(1), of f failed] show ?thesis by (auto simp: flusher_retry_all_def)
qed

section \<open>A flush of concrete revisions returns\<close>

definition writes_return :: "store \<Rightarrow> bool" where
  "writes_return s \<longleftrightarrow> (\<forall>u c. json_marshal (s_codec s) u \<noteq> Crash c) \<and> (\<forall>i c. s_nonce s i \<noteq> Crash c)"

lemma store_save_concrete:
  assumes "writes_return s"
  shows "writes_return (fst (snd (store_save (ConcreteRevision r u) s)))
     \<and> fst (store_save (ConcreteRevision r u) s) \<noteq> Crash c"
proof (cases "Backend_Create (s_backend s) (revision_Key r)")
  case (Ok w)
  obtain rw w' s' rv' where sw: "store_write w (ConcreteRevision r u) s = (rw, (w', s', rv'))"
    by (metis surj_pair)
  have "writes_return s' \<and> (\<forall>c. rw \<noteq> Crash c)"
  proof (cases "json_marshal (s_codec s) u")
    case d: (Ok d)
    obtain re s2 where e: "encrypt_data d s = (re, s2)" by fastforce
    then have s2: "writes_return s2 \<and> (\<forall>c. re \<noteq> Crash c)"
      using assms by (auto simp: encrypt_data_def writes_return_def tick_def AES_Encrypt_def
          result_bind_def split: option.splits result.splits)
    then show ?thesis
      using sw e d by (cases re) (auto simp: store_write_def blob_defs split: option.splits)
  qed (use sw assms in \<open>auto simp: store_write_def writes_return_def\<close>)
  then show ?thesis
    using Ok sw by (cases rw) (auto simp: store_save_def writes_return_def)
qed (use assms in \<open>auto simp: store_save_def blob_defs split: option.splits\<close>)

lemma write_rev_concrete:
  assumes "write_rev (ConcreteRevision r u) st = (res, (st', rv'))" "writes_return (storer_base st)"
  shows "res \<noteq> Crash c \<and> writes_return (storer_base st')"
proof -
  obtain r0 s0 rv0 where sv: "store_save (ConcreteRevision r u) (storer_base st) = (r0, (s0, rv0))"
    by (metis surj_pair)
  have s: "writes_return s0" "\<And>c. r0 \<noteq> Crash c"
    using store_save_concrete [OF assms(2), of r u] sv by simp_all
  have del: "r\<lparr>deleted_of := True\<rparr> = r" if "deleted_of r"
    using that by (intro revision.equality) auto
  show ?thesis
    using assms(1) sv s
    by (cases st; cases r0)
      (auto simp: del write_rev_def storer_Delete_def storer_Update_def ns_Update_def ns_Delete_def
        rw_Update_def rw_Delete_def mem_Update_def mem_Delete_def Deleted_def writes_return_def
        split: if_splits)
qed

lemma flush_loop_concrete:
  assumes "\<forall>rv \<in> set rvs. \<exists>r u. rv = ConcreteRevision r u" "writes_return (storer_base st)"
  shows "\<exists>failed' c' st'. flush_loop rvs failed c st = (Ok failed', (c', st'))"
  using assms
proof (induction rvs arbitrary: failed c st)
  case (Cons rv rvs)
  then obtain r u where rv: "rv = ConcreteRevision r u" by auto
  obtain res st1 rv1 where w: "write_rev rv st = (res, (st1, rv1))" by (metis surj_pair)
  with Cons.prems(2) rv have "writes_return (storer_base st1)" "\<And>c. res \<noteq> Crash c"
    using write_rev_concrete by blast+
  with Cons w show ?case by (cases res) auto
qed simp

text \<open>Progress without rejections, as long as the semaphore has a slot at all.\<close>

lemma flush_progress_slot:
  assumes "\<not> flush_done s" "1 \<le> n"
    and "\<forall>rv \<in> set (fs_running s). \<forall>x. fst (write_rev rv (fs_storer s)) \<noteq> Crash x"
  shows "\<exists>s'. flush_step n s s' \<and> (fs_todo s' = fs_todo s \<or> fs_running s' \<noteq> fs_running s)"
proof -
  consider rv where "rv \<in> set (fs_running s)" | rv e where "(rv, e) \<in> set (fs_sending s)"
    | rv rvs where "fs_todo s = rv # rvs" "fs_running s = []" "fs_sending s = []"
    using assms(1) by (cases "fs_todo s"; cases "fs_running s"; cases "fs_sending s")
      (auto simp: flush_done_def)
  then show ?thesis
  proof cases
    case (1 rv)
    obtain r st rv' where w: "write_rev rv (fs_storer s) = (r, (st, rv'))" by (metis surj_pair)
    with 1 assms(3) have "\<forall>x. r \<noteq> Crash x" by (metis fst_conv)
    from async_write_returns [OF w this] obtain resp where
      "async_write rv (fs_storer s) = (Ok resp, (st, rv'))" by blast
    from flush_step.wrote [OF 1 this] show ?thesis by (intro exI conjI) auto
  next
    case 2
    from flush_step.received [OF this] show ?thesis by (intro exI conjI) auto
  next
    case (3 rv rvs)
    from flush_step.spawn [of s rv rvs n] 3 assms(2) show ?thesis by (intro exI conjI) auto
  qed
qed

lemma flush_run_length:
  "(flush_step n ^^ m) s s' \<Longrightarrow> m + flush_measure s' \<le> flush_measure s"
proof (induction m arbitrary: s')
  case (Suc m)
  then obtain t where "(flush_step n ^^ m) s t" "flush_step n t s'" by auto
  with Suc.IH [of t] flush_step_measure [of n t s'] show ?case by linarith
qed simp

end
