(* ===== verification/Purger.thy ===== *)
theory Purger
  imports Flusher
begin

text \<open>
  pkg/controller/purger and pkg/controller/reaper: the queue of revisions to remove from the
  store, and the reaper that fills it with the revisions the policy calls too old.
\<close>

section \<open>The purger\<close>

record purger =
  pu_c :: rev_queue

definition purgeKeyFunc :: "Revision \<Rightarrow> string" where "purgeKeyFunc rv = rev_Key rv"

definition purger_New :: "int \<Rightarrow> purger result" where
  "purger_New interval = result_bind (NewTicker interval) (\<lambda>_. Ok \<lparr>pu_c = Cache_New\<rparr>)"

definition purger_Queue :: "Revision \<Rightarrow> purger \<Rightarrow> purger" where
  "purger_Queue rv p = p\<lparr>pu_c := Cache_Cache purgeKeyFunc (Some rv) (pu_c p)\<rparr>"

text \<open>One tick; the error of the store is only logged.\<close>

definition purger_purge :: "purger \<Rightarrow> storer \<Rightarrow> unit result \<times> (purger \<times> storer)" where
  "purger_purge p st =
     (let toPurge = Cache_SafeCopy (pu_c p) in
      if length toPurge = 0 then (Ok (), (p, st))
      else case storer_PurgeRevisions toPurge st of
        (Ok (deletedRevs, err), st) \<Rightarrow>
          (Ok (), (p\<lparr>pu_c := fold (\<lambda>obj. Cache_Delete purgeKeyFunc (Some obj)) deletedRevs (pu_c p)\<rparr>, st))
      | (Err e, st) \<Rightarrow> (Err e, (p, st))
      | (Crash c, st) \<Rightarrow> (Crash c, (p, st)))"

lemma storer_PurgeRevisions_base:
  assumes "PurgeRevisions revs (storer_base st) = (Ok (gone, err), s')"
  shows "\<exists>st'. storer_PurgeRevisions revs st = (Ok (gone, err), st') \<and> storer_base st' = s'"
  using assms by (cases st) (auto simp: storer_PurgeRevisions_def rw_PurgeRevisions_spec)

lemma SafeCopy_distinct_keys:
  assumes "queue_wf f q"
  shows "distinct (map f (Cache_SafeCopy q))"
proof -
  have "map f (Cache_SafeCopy q) = map fst q"
    using assms by (auto simp: queue_wf_def Cache_SafeCopy_def)
  then show ?thesis using assms by (simp add: queue_wf_def go_wf_def)
qed

text \<open>
  A purge removes from the backend exactly the queued revisions it can remove, and exactly those
  leave the queue; what could not be removed stays queued.
\<close>

lemma purger_purge_spec:
  assumes "queue_wf purgeKeyFunc (pu_c p)"
    "\<forall>rv \<in> set (Cache_SafeCopy (pu_c p)). valid_revision (meta rv)"
    "be_provider (s_backend (storer_base st)) \<noteq> S3Provider"
  defines "b \<equiv> s_backend (storer_base st)"
  shows "\<exists>p' st'. purger_purge p st = (Ok (), (p', st'))
     \<and> (\<forall>k. go_get (pu_c p') k = (if removable b k then None else go_get (pu_c p) k))
     \<and> (\<forall>k. backend_objs (s_backend (storer_base st')) k =
          (if go_get (pu_c p) k \<noteq> None \<and> removable b k then None else backend_objs b k))"
proof -
  let ?revs = "Cache_SafeCopy (pu_c p)"
  have dist: "distinct (map rev_Key ?revs)"
    using SafeCopy_distinct_keys [OF assms(1)] by (simp add: purgeKeyFunc_def [abs_def])
  have mem: "rv \<in> set ?revs \<longleftrightarrow> go_get (pu_c p) (rev_Key rv) = Some rv" for rv
    using queue_wf_copy [OF assms(1)] by (simp add: purgeKeyFunc_def)
  have keyed: "go_get (pu_c p) k = Some rv \<Longrightarrow> rev_Key rv = k" for k rv
    using queue_wf_key [OF assms(1)] by (simp add: purgeKeyFunc_def)
  let ?gone = "map lazy_of (filter (\<lambda>rv. removable b (rev_Key rv)) ?revs)"
  obtain err s' where pr: "PurgeRevisions ?revs (storer_base st) = (Ok (?gone, err), s')"
    "\<forall>k. backend_objs (s_backend s') k =
        (if k \<in> rev_Key ` set ?revs \<and> removable b k then None else backend_objs b k)"
    using PurgeRevisions_spec [OF assms(2) dist assms(3)] unfolding b_def by blast
  then obtain st' where st': "storer_PurgeRevisions ?revs st = (Ok (?gone, err), st')"
    "storer_base st' = s'" using storer_PurgeRevisions_base by blast
  let ?p' = "p\<lparr>pu_c := fold (\<lambda>obj. Cache_Delete purgeKeyFunc (Some obj)) ?gone (pu_c p)\<rparr>"
  have keys: "k \<in> rev_Key ` set ?revs \<longleftrightarrow> go_get (pu_c p) k \<noteq> None" for k
  proof
    assume "k \<in> rev_Key ` set ?revs"
    then show "go_get (pu_c p) k \<noteq> None" using mem by (auto simp del: not_None_eq)
  next
    assume "go_get (pu_c p) k \<noteq> None"
    then obtain rv where "go_get (pu_c p) k = Some rv" by blast
    with keyed [OF this] mem [of rv] show "k \<in> rev_Key ` set ?revs" by auto
  qed
  have q: "go_get (pu_c ?p') k = (if removable b k then None else go_get (pu_c p) k)" for k
  proof (cases "go_get (pu_c p) k")
    case None
    then show ?thesis using rq.fold_delete_entry [OF assms(1), of ?gone k] by simp
  next
    case (Some rv)
    then have rv: "rev_Key rv = k" "rv \<in> set ?revs" using keyed mem by simp_all
    have "(\<exists>x \<in> set ?gone. purgeKeyFunc x = k \<and> ResourceVersion x = ResourceVersion rv) \<longleftrightarrow> removable b k"
    proof
      assume "removable b k"
      then have "lazy_of rv \<in> set ?gone" using rv by auto
      moreover have "purgeKeyFunc (lazy_of rv) = k" "ResourceVersion (lazy_of rv) = ResourceVersion rv"
        using rv(1) by (simp_all add: purgeKeyFunc_def ResourceVersion_def)
          (simp add: trunc_revision_def)
      ultimately show "\<exists>x \<in> set ?gone. purgeKeyFunc x = k \<and> ResourceVersion x = ResourceVersion rv"
        by blast
    next
      assume "\<exists>x \<in> set ?gone. purgeKeyFunc x = k \<and> ResourceVersion x = ResourceVersion rv"
      then obtain x where "removable b (rev_Key x)" "purgeKeyFunc (lazy_of x) = k" by auto
      then show "removable b k" by (simp add: purgeKeyFunc_def)
    qed
    then show ?thesis using rq.fold_delete_entry [OF assms(1), of ?gone k] Some by simp
  qed
  show ?thesis
  proof (cases "?revs = []")
    case True
    then have "\<forall>k. go_get (pu_c p) k = None" using keys by auto
    then show ?thesis using True by (simp add: purger_purge_def b_def)
  next
    case False
    then have "purger_purge p st = (Ok (), (?p', st'))" using st' by (simp add: purger_purge_def)
    then show ?thesis using q pr(2) st'(2) keys by auto
  qed
qed

section \<open>The reaper\<close>

text \<open>
  \<open>clock\<close> gives the time read while the n-th revision is looked at.  \<open>reap_list\<close> is the inner
  loop over one resource, \<open>reap_loop\<close> the outer one over the entries of the state.
\<close>

fun reap_list :: "BackupPolicy \<Rightarrow> (nat \<Rightarrow> gotime) \<Rightarrow> Revision list \<Rightarrow> nat \<Rightarrow> Revision list \<Rightarrow> storer
    \<Rightarrow> (nat \<times> Revision list) result \<times> storer" where
  "reap_list pol clock [] count revsToReap st = (Ok (count, revsToReap), st)"
| "reap_list pol clock (rv # revisions) count revsToReap st =
     (let count = count + 1 in
      if revisions = [] \<and> \<not> Deleted rv then reap_list pol clock revisions count revsToReap st
      else case storer_RuleFor pol rv st of
        (Err e, (st, rv)) \<Rightarrow> (Err e, st)
      | (Crash c, (st, rv)) \<Rightarrow> (Crash c, st)
      | (Ok rule, (st, rv)) \<Rightarrow>
          (case rule of
             None \<Rightarrow> reap_list pol clock revisions count revsToReap st
           | Some rule \<Rightarrow>
               (case br_RPOPolicy rule of
                  None \<Rightarrow> (Crash nil_deref, st)
                | Some p \<Rightarrow>
                    let reapThreshold = clock count - PurgeOlderThan p in
                    reap_list pol clock revisions count
                      (if after reapThreshold (RevisionTimestamp rv) then revsToReap @ [rv]
                       else revsToReap) st)))"

fun reap_loop :: "BackupPolicy \<Rightarrow> (nat \<Rightarrow> gotime) \<Rightarrow> State \<Rightarrow> nat \<Rightarrow> Revision list \<Rightarrow> storer
    \<Rightarrow> (nat \<times> Revision list) result \<times> storer" where
  "reap_loop pol clock [] count revsToReap st = (Ok (count, revsToReap), st)"
| "reap_loop pol clock ((k, revisions) # state) count revsToReap st =
     on_ok (reap_list pol clock revisions count revsToReap st)
       (\<lambda>(count, revsToReap) st. reap_loop pol clock state count revsToReap st)"

definition reap_options :: StateOptions where
  "reap_options = \<lparr>so_APIVersion = [], so_Kind = [], so_LabelSelector = None, so_Time = zero_time,
     so_Namespace = [], so_AllNamespaces = True, so_Name = [], so_AllRevisions = True,
     so_OnlyDeleted = False\<rparr>"

definition reap :: "BackupPolicy \<Rightarrow> (nat \<Rightarrow> gotime) \<Rightarrow> purger \<Rightarrow> storer
    \<Rightarrow> unit result \<times> (purger \<times> storer)" where
  "reap pol clock p st =
     (let (r, st) = storer_State reap_options st in
      on_ok (r, (p, st)) (\<lambda>(state, err) (p, st).
        case err of
          Some e \<Rightarrow> (Err e, (p, st))
        | None \<Rightarrow>
            let (r, st) = reap_loop pol clock state 0 [] st in
            on_ok (r, (p, st)) (\<lambda>(count, revsToReap) (p, st).
              (Ok (), (fold purger_Queue revsToReap p, st)))))"

lemma Content_meta': "Content rv s = (r, (s', rv')) \<Longrightarrow> meta rv' = meta rv"
  using Content_meta [of rv s] by simp

lemma rule_loop_meta: "rule_loop rules sp ret st = (r, st') \<Longrightarrow> meta (snd st') = meta (snd st)"
proof (induction rules arbitrary: sp ret st)
  case (Cons rule rules)
  obtain lm st1 where lm: "label_match rule st = (lm, st1)" by (cases "label_match rule st")
  have m: "meta (snd st1) = meta (snd st)"
  proof (cases "br_LabelSelector rule")
    case None
    then show ?thesis using lm by (simp add: label_match_def)
  next
    case (Some sel)
    obtain c s' rv' where c: "Content (snd st) (fst st) = (c, (s', rv'))" by (metis surj_pair)
    then have "meta rv' = meta (snd st)" by (rule Content_meta')
    then show ?thesis using lm Some c by (cases c) (auto simp: label_match_def)
  qed
  show ?case
  proof (cases lm)
    case (Ok l)
    then show ?thesis
      using Cons.prems lm m Cons.IH by (auto simp: Let_def split: if_splits)
  qed (use Cons.prems lm m Cons.IH in auto)
qed simp

lemma storer_RuleFor_meta:
  assumes "storer_RuleFor pol rv st = (r, (st', rv'))"
  shows "meta rv' = meta rv"
proof -
  obtain r0 s0 rv0 where rl: "rule_loop (bp_Rules pol) 0 None (storer_base st, rv) = (r0, (s0, rv0))"
    by (metis surj_pair)
  then have "meta rv0 = meta rv" using rule_loop_meta [OF rl] by simp
  then show ?thesis using assms rl
    by (cases r0) (auto simp: storer_RuleFor_def RuleFor_def split: option.splits)
qed

text \<open>What the inner loop adds: revisions of the list, never its live last one.\<close>

lemma reap_list_sound:
  assumes "reap_list pol clock revs count acc st = (Ok (count', acc'), st')" "rv \<in> set acc'"
  shows "rv \<in> set acc \<or> (\<exists>i < length revs. meta rv = meta (revs ! i)
     \<and> (Suc i = length revs \<longrightarrow> Deleted (revs ! i)))"
  using assms
proof (induction revs arbitrary: count acc st)
  case (Cons r revs)
  have lift: "\<exists>i < length (r # revs). meta rv = meta ((r # revs) ! i)
      \<and> (Suc i = length (r # revs) \<longrightarrow> Deleted ((r # revs) ! i))"
    if "\<exists>i < length revs. meta rv = meta (revs ! i) \<and> (Suc i = length revs \<longrightarrow> Deleted (revs ! i))"
  proof -
    from that obtain i where "i < length revs" "meta rv = meta (revs ! i)"
      "Suc i = length revs \<longrightarrow> Deleted (revs ! i)" by blast
    then show ?thesis by (intro exI [of _ "Suc i"]) (auto simp del: length_Suc_conv dest: sym)
  qed
  show ?case
  proof (cases "revs = [] \<and> \<not> Deleted r")
    case True
    then show ?thesis using Cons.prems by simp
  next
    case False
    obtain res st1 r1 where rf: "storer_RuleFor pol r st = (res, (st1, r1))" by (metis surj_pair)
    then have m: "meta r1 = meta r" by (rule storer_RuleFor_meta)
    have head: "\<exists>i < length (r # revs). meta r1 = meta ((r # revs) ! i)
        \<and> (Suc i = length (r # revs) \<longrightarrow> Deleted ((r # revs) ! i))"
      using m False by (intro exI [of _ 0]) auto
    from Cons.prems(1) False rf obtain acc1 c1 where
      "reap_list pol clock revs c1 acc1 st1 = (Ok (count', acc'), st')" "set acc1 \<subseteq> insert r1 (set acc)"
      by (auto simp: Let_def split: result.splits option.splits if_splits)
    from Cons.IH [OF this(1) Cons.prems(2)] this(2) head lift show ?thesis by auto
  qed
qed simp

lemma reap_loop_sound:
  assumes "reap_loop pol clock state count acc st = (Ok (count', acc'), st')" "rv \<in> set acc'"
  shows "rv \<in> set acc \<or> (\<exists>(k, revs) \<in> set state. \<exists>i < length revs. meta rv = meta (revs ! i)
     \<and> (Suc i = length revs \<longrightarrow> Deleted (revs ! i)))"
  using assms
proof (induction state arbitrary: count acc st)
  case (Cons p state)
  obtain k revs where p: "p = (k, revs)" by (cases p)
  from Cons.prems(1) obtain c1 acc1 st1 where
    l: "reap_list pol clock revs count acc st = (Ok (c1, acc1), st1)"
      "reap_loop pol clock state c1 acc1 st1 = (Ok (count', acc'), st')"
    by (auto simp: p on_ok_eq_Ok)
  from Cons.IH [OF l(2) Cons.prems(2)] reap_list_sound [OF l(1), of rv] show ?case
    by (auto simp: p)
qed simp

section \<open>What the reaper queues\<close>

text \<open>All revisions of a resource but its last when that is not deleted.\<close>

definition reap_candidates :: "Revision list \<Rightarrow> Revision list" where
  "reap_candidates revs =
     (if revs = [] \<or> Deleted (last revs) then revs else butlast revs)"

definition expired :: "BackupPolicy \<Rightarrow> gotime \<Rightarrow> storer \<Rightarrow> Revision \<Rightarrow> bool" where
  "expired pol now st rv \<longleftrightarrow> (case fst (storer_RuleFor pol rv st) of
     Ok (Some rule) \<Rightarrow> (case br_RPOPolicy rule of
        None \<Rightarrow> False | Some p \<Rightarrow> after (now - PurgeOlderThan p) (RevisionTimestamp rv))
   | _ \<Rightarrow> False)"

definition plain_policy :: "BackupPolicy \<Rightarrow> bool" where
  "plain_policy pol \<longleftrightarrow> bp_RPOPolicy pol \<noteq> None \<and> (\<forall>rule \<in> set (bp_Rules pol). br_LabelSelector rule = None)"

lemma RuleFor_plain:
  assumes "plain_policy pol"
  obtains ro where "storer_RuleFor pol rv st = (Ok ro, (st, rv))"
    "\<And>rule. ro = Some rule \<Longrightarrow> br_RPOPolicy rule \<noteq> None"
proof -
  from assms obtain d where d: "bp_RPOPolicy pol = Some d" by (auto simp: plain_policy_def)
  have sel: "\<forall>rule \<in> set (bp_Rules pol). br_LabelSelector rule = None"
    using assms by (simp add: plain_policy_def)
  obtain ro where r: "rule_loop (bp_Rules pol) 0 None (storer_base st, rv) = (Ok ro, (storer_base st, rv))"
    by (rule rule_loop_spec [OF sel, of rv "storer_base st"]) blast+
  show ?thesis
  proof (cases ro)
    case None
    then show ?thesis using that [of None] r by (simp add: storer_RuleFor_def RuleFor_def)
  next
    case (Some r0)
    from fill_defaults_ok [OF d, of r0] obtain r' where
      "fill_defaults pol r0 = Ok r'" "br_RPOPolicy r' \<noteq> None" by auto
    then show ?thesis using that [of "Some r'"] r Some by (simp add: storer_RuleFor_def RuleFor_def)
  qed
qed

lemma reap_candidates_Cons:
  "reap_candidates (rv # revs) =
     (if revs = [] \<and> \<not> Deleted rv then [] else rv # reap_candidates revs)"
  by (cases "revs = []") (simp_all add: reap_candidates_def)

lemma reap_list_exact:
  assumes "plain_policy pol"
  shows "\<exists>n. reap_list pol (\<lambda>_. now) revs count acc st
     = (Ok (n, acc @ filter (expired pol now st) (reap_candidates revs)), st)"
proof (induction revs arbitrary: count acc)
  case (Cons rv revs)
  show ?case
  proof (cases "revs = [] \<and> \<not> Deleted rv")
    case False
    from RuleFor_plain [OF assms] obtain ro where ro: "storer_RuleFor pol rv st = (Ok ro, (st, rv))"
      "\<And>rule. ro = Some rule \<Longrightarrow> br_RPOPolicy rule \<noteq> None" by blast
    have e: "expired pol now st rv \<longleftrightarrow> (case ro of None \<Rightarrow> False | Some rule \<Rightarrow>
       (case br_RPOPolicy rule of None \<Rightarrow> False | Some p \<Rightarrow> after (now - PurgeOlderThan p) (RevisionTimestamp rv)))"
      using ro(1) by (simp add: expired_def split: option.split)
    have "reap_list pol (\<lambda>_. now) (rv # revs) count acc st =
       reap_list pol (\<lambda>_. now) revs (count + 1) (if expired pol now st rv then acc @ [rv] else acc) st"
      using False ro by (cases ro) (auto simp: e Let_def)
    with Cons [of "count + 1" "if expired pol now st rv then acc @ [rv] else acc"] False
    show ?thesis by (auto simp: reap_candidates_Cons split: if_splits)
  qed (simp add: reap_candidates_Cons)
qed (simp add: reap_candidates_def)

lemma reap_loop_exact:
  assumes "plain_policy pol"
  shows "\<exists>n. reap_loop pol (\<lambda>_. now) state count acc st
     = (Ok (n, acc @ concat (map (\<lambda>(k, revs). filter (expired pol now st) (reap_candidates revs)) state)), st)"
proof (induction state arbitrary: count acc)
  case (Cons p state)
  obtain k revs where p: "p = (k, revs)" by (cases p)
  from reap_list_exact [OF assms] obtain n where
    n: "reap_list pol (\<lambda>_. now) revs count acc st
      = (Ok (n, acc @ filter (expired pol now st) (reap_candidates revs)), st)" by blast
  show ?case
    using Cons [of n "acc @ filter (expired pol now st) (reap_candidates revs)"]
    by (auto simp: p n)
qed simp

lemma purger_Queue_fold:
  "pu_c (fold purger_Queue rvs p) = fold (\<lambda>rv. Cache_Cache purgeKeyFunc (Some rv)) rvs (pu_c p)"
  by (induction rvs arbitrary: p) (simp_all add: purger_Queue_def)

lemma purger_queue_all:
  assumes "pu_c p = Cache_New"
  shows "case go_get (pu_c (fold purger_Queue rvs p)) k of
      None \<Rightarrow> \<forall>rv \<in> set rvs. rev_Key rv \<noteq> k
    | Some rv \<Rightarrow> rv \<in> set rvs \<and> rev_Key rv = k"
proof -
  have "queue_wf purgeKeyFunc Cache_New" by (simp add: queue_wf_def Cache_New_def)
  from rq.fold_cache_latest [OF this, of k rvs] show ?thesis
    by (auto simp: purger_Queue_fold assms purgeKeyFunc_def Cache_New_def split: option.splits)
qed

text \<open>The expired candidates of a state, in its order.\<close>

definition reap_due :: "BackupPolicy \<Rightarrow> gotime \<Rightarrow> storer \<Rightarrow> State \<Rightarrow> Revision list" where
  "reap_due pol now st state =
     concat (map (\<lambda>(k, revs). filter (expired pol now st) (reap_candidates revs)) state)"

lemma reap_queue:
  assumes "plain_policy pol" "storer_State reap_options st = (Ok (state, None), st')"
  shows "reap pol (\<lambda>_. now) p st = (Ok (), (fold purger_Queue (reap_due pol now st' state) p, st'))"
proof -
  from reap_loop_exact [OF assms(1), of now state 0 "[]" st'] obtain n where
    "reap_loop pol (\<lambda>_. now) state 0 [] st' = (Ok (n, reap_due pol now st' state), st')"
    by (auto simp: reap_due_def)
  then show ?thesis using assms(2) by (simp add: reap_def)
qed

section \<open>The newest revision\<close>

text \<open>With the cache, the state lists a resource by version, so the live newest one is last.\<close>

lemma mem_state_all:
  assumes "cache_wf c"
  shows "\<exists>st. mem_State reap_options c = Ok st \<and> (\<forall>(k, l) \<in> set st. \<exists>revs.
     go_get (rc_m c) k = Some revs \<and> revs \<noteq> [] \<and> l = sort_revs (map snd revs))"
proof -
  have "so_AllRevisions reap_options" "\<not> mem_skips reap_options rv" "\<not> mem_cuts reap_options rv" for rv
    by (simp_all add: mem_skips_def mem_cuts_def reap_options_def)
  with mem_State_unfiltered [OF assms, of reap_options] obtain st where
    st: "mem_State reap_options c = Ok st" "go_wf st"
      "\<And>k. go_get st k = (if cache_List k c = [] then None else Some (sort_revs (cache_List k c)))"
    by auto
  have "\<exists>revs. go_get (rc_m c) k = Some revs \<and> revs \<noteq> [] \<and> l = sort_revs (map snd revs)"
    if "(k, l) \<in> set st" for k l
  proof -
    from that st(2,3) have "cache_List k c \<noteq> []" "l = sort_revs (cache_List k c)"
      by (auto simp: go_get_in [symmetric] split: if_splits)
    then show ?thesis by (auto simp: cache_List_def split: option.splits)
  qed
  then show ?thesis using st(1) by auto
qed

lemma reap_keeps_newest:
  assumes "reap pol clock p (ReadWrite s) = (Ok (), (p', st'))" "pu_c p = Cache_New"
    "cache_wf (rw_reader s)" "cached (rw_reader s) k v = Some rv" "\<not> Deleted rv"
    "\<forall>v'. cached (rw_reader s) k v' \<noteq> None \<longrightarrow> v' \<le> v"
    "go_get (pu_c p') key = Some x"
  shows "\<not> (rev_ResourceKey x = k \<and> ResourceVersion x = v)"
proof
  assume x: "rev_ResourceKey x = k \<and> ResourceVersion x = v"
  from mem_state_all [OF assms(3)] obtain state where st: "mem_State reap_options (rw_reader s) = Ok state"
    "\<forall>(k, l) \<in> set state. \<exists>revs. go_get (rc_m (rw_reader s)) k = Some revs \<and> revs \<noteq> []
       \<and> l = sort_revs (map snd revs)" by blast
  from assms(1) obtain n due s1 where
    due: "reap_loop pol clock state 0 [] (ReadWrite s) = (Ok (n, due), s1)" "p' = fold purger_Queue due p"
    by (cases "reap_loop pol clock state 0 [] (ReadWrite s)"; cases "fst (reap_loop pol clock state 0 [] (ReadWrite s))")
      (auto simp: reap_def storer_State_def rw_State_def st(1))
  have "x \<in> set due" using purger_queue_all [OF assms(2), of due key] assms(7) by (simp add: due(2))
  from reap_loop_sound [OF due(1) this] obtain k' l i where l: "(k', l) \<in> set state" "i < length l"
    "meta x = meta (l ! i)" "Suc i = length l \<longrightarrow> Deleted (l ! i)" by auto
  then obtain revs where revs: "go_get (rc_m (rw_reader s)) k' = Some revs" "l = sort_revs (map snd revs)"
    using st(2) by auto
  have xl: "rev_ResourceKey (l ! i) = k" "ResourceVersion (l ! i) = v"
    using x l(3) by (simp_all add: ResourceVersion_def)
  have entry: "\<exists>v'. (v', r) \<in> set revs \<and> ResourceVersion r = v' \<and> rev_ResourceKey r = k'" if "r \<in> set l" for r
    using that cache_wf_get(2) [OF assms(3) revs(1)] by (auto simp: revs(2))
  then have k': "k' = k" using l(2) xl(1) by (metis nth_mem)
  have all: "ResourceVersion r \<le> v" "ResourceVersion r = v \<Longrightarrow> r = rv" if "r \<in> set l" for r
  proof -
    from entry [OF that] have "(ResourceVersion r, r) \<in> set revs" by auto
    then have "cached (rw_reader s) k (ResourceVersion r) = Some r"
      using go_get_in [OF cache_wf_get(1) [OF assms(3) revs(1)]] revs(1) k' by (simp add: cached_def)
    then show "ResourceVersion r \<le> v" "ResourceVersion r = v \<Longrightarrow> r = rv" using assms(4,6) by auto
  qed
  have srt: "distinct (map ResourceVersion l)" "sorted (map ResourceVersion l)"
  proof -
    have gen: "distinct (map ResourceVersion xs) \<Longrightarrow> distinct (map ResourceVersion (sort_key ResourceVersion xs))"
      for xs by (simp add: distinct_map)
    have "map ResourceVersion (map snd revs) = map fst revs"
      using cache_wf_get(2) [OF assms(3) revs(1)] by auto
    then have "distinct (map ResourceVersion (map snd revs))"
      using cache_wf_get(1) [OF assms(3) revs(1)] by (simp only: go_wf_def)
    then show "distinct (map ResourceVersion l)"
      unfolding revs(2) sort_revs_def using gen by blast
    show "sorted (map ResourceVersion l)" by (simp add: revs(2) sort_revs_def)
  qed
  have "Suc i = length l"
  proof -
    have False if "Suc i < length l"
    proof -
      have "map ResourceVersion l ! i \<le> map ResourceVersion l ! Suc i"
        using that by (intro sorted_nth_mono [OF srt(2)]) auto
      moreover have "map ResourceVersion l ! i \<noteq> map ResourceVersion l ! Suc i"
        using that nth_eq_iff_index_eq [OF srt(1), of i "Suc i"] by simp
      ultimately have "ResourceVersion (l ! i) < ResourceVersion (l ! Suc i)" using that by simp
      moreover have "l ! Suc i \<in> set l" using that by simp
      ultimately show False using all(1) [of "l ! Suc i"] xl(2) by simp
    qed
    then show ?thesis using l(2) by (metis Suc_lessI)
  qed
  moreover have "l ! i = rv" using all(2) [of "l ! i"] l(2) xl(2) by simp
  ultimately show False using l(4) assms(5) by simp
qed

end
