(* ===== verification/Config_Store.thy ===== *)
theory Config_Store
  imports Policy Handlers
begin

text \<open>
  pkg/store/config: the configuration object kept in the backend, and how a resource name given
  by the user is resolved to a group version and an API resource.
\<close>

section \<open>The configuration\<close>

record APIResource =
  ar_Name :: string
  ar_SingularName :: string
  ar_Namespaced :: bool
  ar_Kind :: string
  ar_ShortNames :: "string list"
  ar_Verbs :: "string list"

record APIResourceList =
  arl_GroupVersion :: string
  arl_APIResources :: "APIResource list"

record StoreConfig =
  cfg_Resources :: "APIResourceList list"
  cfg_Version :: int

definition DefaultVersion :: int where "DefaultVersion = 1"

definition zero_APIResource :: APIResource where
  "zero_APIResource = \<lparr>ar_Name = [], ar_SingularName = [], ar_Namespaced = False, ar_Kind = [],
     ar_ShortNames = [], ar_Verbs = []\<rparr>"

text \<open>The JSON codec of the configuration, a parameter like the store's.\<close>

record config_codec =
  cfg_encode :: "StoreConfig \<Rightarrow> string result"
  cfg_decode :: "string \<Rightarrow> StoreConfig result"

definition ReadConfig :: "config_codec \<Rightarrow> Backend \<Rightarrow> StoreConfig result" where
  "ReadConfig codec b = result_bind (Backend_Open b DefaultConfig) (\<lambda>f.
     result_bind f (cfg_decode codec))"

text \<open>\<open>WriteConfig\<close> fills in the version; as in \<open>save\<close>, the error of the deferred \<open>Close\<close> is dropped.\<close>

definition WriteConfig :: "config_codec \<Rightarrow> StoreConfig \<Rightarrow> Backend \<Rightarrow> unit result \<times> Backend" where
  "WriteConfig codec config b =
     (let config = (if cfg_Version config = 0 then config\<lparr>cfg_Version := DefaultVersion\<rparr> else config)
      in on_ok (Backend_Create b DefaultConfig, b) (\<lambda>f b.
         case result_bind (cfg_encode codec config) (\<lambda>d. Backend_Write b f d) of
           Ok f' \<Rightarrow> (Ok (), snd (Backend_CloseWriter b f'))
         | Err e \<Rightarrow> (Err e, snd (Backend_CloseWriter b f))
         | Crash c \<Rightarrow> (Crash c, snd (Backend_CloseWriter b f))))"

section \<open>Resolving a resource\<close>

text \<open>\<open>schema.ParseGroupVersion\<close>.\<close>

definition ParseGroupVersion :: "string \<Rightarrow> GroupVersion result" where
  "ParseGroupVersion gv =
     (if gv = [] \<or> gv = ''/'' then Ok \<lparr>gv_group = [], gv_version = []\<rparr>
      else case split_on CHR ''/'' gv of
        [v] \<Rightarrow> Ok \<lparr>gv_group = [], gv_version = v\<rparr>
      | [g, v] \<Rightarrow> Ok \<lparr>gv_group = g, gv_version = v\<rparr>
      | _ \<Rightarrow> Err (ErrMsg (''unexpected GroupVersion string: '' @ gv)))"

definition full_name_match :: "string \<Rightarrow> GroupVersion \<Rightarrow> APIResource \<Rightarrow> bool" where
  "full_name_match mtch gv a \<longleftrightarrow> mtch = ar_SingularName a @ ''.'' @ gv_group gv"

definition short_match :: "string \<Rightarrow> APIResource \<Rightarrow> bool" where
  "short_match mtch a \<longleftrightarrow> to_lower (ar_Kind a) = mtch \<or> to_lower (ar_SingularName a) = mtch
     \<or> to_lower (ar_Name a) = mtch \<or> sliceutil_In (ar_ShortNames a) mtch"

text \<open>The inner loop: \<open>Inl\<close> is the early return, \<open>Inr\<close> the potential match after the loop.\<close>

fun best_in_group :: "string \<Rightarrow> GroupVersion \<Rightarrow> string \<Rightarrow> APIResource list
    \<Rightarrow> string \<times> APIResource \<Rightarrow> (string \<times> APIResource) + (string \<times> APIResource)" where
  "best_in_group mtch gv groupVersion [] potential = Inr potential"
| "best_in_group mtch gv groupVersion (a # resources) potential =
     (if full_name_match mtch gv a then Inl (groupVersion, a)
      else best_in_group mtch gv groupVersion resources
        (if short_match mtch a then (groupVersion, a) else potential))"

fun best_loop :: "string \<Rightarrow> APIResourceList list \<Rightarrow> string \<times> APIResource
    \<Rightarrow> (string \<times> APIResource) + (string \<times> APIResource)" where
  "best_loop mtch [] potential = Inr potential"
| "best_loop mtch (groupVersion # groups) potential =
     (case ParseGroupVersion (arl_GroupVersion groupVersion) of
        Ok gv \<Rightarrow>
          (case best_in_group mtch gv (arl_GroupVersion groupVersion)
              (arl_APIResources groupVersion) potential of
             Inl found \<Rightarrow> Inl found
           | Inr potential \<Rightarrow> best_loop mtch groups potential)
      | _ \<Rightarrow> best_loop mtch groups potential)"

definition BestResourceMappingFor :: "StoreConfig \<Rightarrow> string \<Rightarrow> (string \<times> APIResource) result" where
  "BestResourceMappingFor c resource =
     (case best_loop (to_lower resource) (cfg_Resources c) ([], zero_APIResource) of
        Inl found \<Rightarrow> Ok found
      | Inr potential \<Rightarrow>
          if ar_Kind (snd potential) = []
          then Err (ErrMsg (''the store doesn't have a resource type '' @ resource))
          else Ok potential)"

section \<open>What is resolved\<close>

text \<open>Every resource the configuration offers, with its parsed group version, in order.\<close>

definition offered :: "APIResourceList list \<Rightarrow> (string \<times> GroupVersion \<times> APIResource) list" where
  "offered groups = concat (map (\<lambda>g. case ParseGroupVersion (arl_GroupVersion g) of
       Ok gv \<Rightarrow> map (\<lambda>a. (arl_GroupVersion g, gv, a)) (arl_APIResources g) | _ \<Rightarrow> []) groups)"

definition best_of :: "string \<Rightarrow> (string \<times> GroupVersion \<times> APIResource) list
    \<Rightarrow> string \<times> APIResource \<Rightarrow> (string \<times> APIResource) + (string \<times> APIResource)" where
  "best_of mtch os potential =
     (case filter (\<lambda>(g, gv, a). full_name_match mtch gv a) os of
        (g, gv, a) # _ \<Rightarrow> Inl (g, a)
      | [] \<Rightarrow> Inr (case filter (\<lambda>(g, gv, a). short_match mtch a) os of
          [] \<Rightarrow> potential | ms \<Rightarrow> (case last ms of (g, gv, a) \<Rightarrow> (g, a))))"

lemma best_of_Cons:
  "best_of mtch ((g, gv, a) # os) potential =
     (if full_name_match mtch gv a then Inl (g, a)
      else best_of mtch os (if short_match mtch a then (g, a) else potential))"
  by (auto simp: best_of_def split: list.splits)

lemma best_in_group_of:
  "(case best_in_group mtch gv g as potential of Inl found \<Rightarrow> Inl found | Inr p \<Rightarrow> best_of mtch os p)
     = best_of mtch (map (\<lambda>a. (g, gv, a)) as @ os) potential"
  by (induction "as" arbitrary: potential) (simp_all add: best_of_Cons)

lemma best_loop_offered: "best_loop mtch groups potential = best_of mtch (offered groups) potential"
proof (induction groups arbitrary: potential)
  case Nil
  show ?case by (simp add: offered_def best_of_def)
next
  case (Cons g groups)
  have off: "offered (g # groups) = (case ParseGroupVersion (arl_GroupVersion g) of
       Ok gv \<Rightarrow> map (\<lambda>a. (arl_GroupVersion g, gv, a)) (arl_APIResources g) | _ \<Rightarrow> []) @ offered groups"
    by (simp add: offered_def)
  show ?case
  proof (cases "ParseGroupVersion (arl_GroupVersion g)")
    case (Ok gv)
    show ?thesis
      unfolding off by (simp add: Ok best_in_group_of [symmetric] Cons cong: sum.case_cong)
  qed (simp_all add: off Cons)
qed

lemma BestResourceMapping_full:
  assumes "(g, gv, a) \<in> set (offered (cfg_Resources c))" "full_name_match (to_lower resource) gv a"
  shows "\<exists>g' gv' a'. BestResourceMappingFor c resource = Ok (g', a')
     \<and> (g', gv', a') \<in> set (offered (cfg_Resources c)) \<and> full_name_match (to_lower resource) gv' a'"
proof -
  let ?ms = "filter (\<lambda>(g, gv, a). full_name_match (to_lower resource) gv a) (offered (cfg_Resources c))"
  have in_ms: "(g, gv, a) \<in> set ?ms" using assms by simp
  then obtain g' gv' a' ms where ms: "?ms = (g', gv', a') # ms" by (cases ?ms) auto
  have "(g', gv', a') \<in> set ?ms" unfolding ms by simp
  then have "(g', gv', a') \<in> set (offered (cfg_Resources c))"
    "full_name_match (to_lower resource) gv' a'" by simp_all
  with ms show ?thesis
    by (auto simp: BestResourceMappingFor_def best_loop_offered best_of_def)
qed

lemma BestResourceMapping_short:
  assumes "\<forall>(g, gv, a) \<in> set (offered (cfg_Resources c)). \<not> full_name_match (to_lower resource) gv a"
    and "filter (\<lambda>(g, gv, a). short_match (to_lower resource) a) (offered (cfg_Resources c)) = ms"
  shows "BestResourceMappingFor c resource =
     (if ms = [] \<or> ar_Kind (snd (snd (last ms))) = []
      then Err (ErrMsg (''the store doesn't have a resource type '' @ resource))
      else Ok (fst (last ms), snd (snd (last ms))))"
proof -
  have nf: "filter (\<lambda>(g, gv, a). full_name_match (to_lower resource) gv a) (offered (cfg_Resources c)) = []"
    using assms(1) by (auto simp: filter_empty_conv)
  show ?thesis
    unfolding BestResourceMappingFor_def best_loop_offered best_of_def nf assms(2)
    by (cases ms) (auto simp: zero_APIResource_def split: prod.split)
qed

section \<open>Written configurations read back\<close>

lemma WriteConfig_ReadConfig:
  assumes "fault_free b"
    and "cfg_encode codec (if cfg_Version config = 0 then config\<lparr>cfg_Version := 1\<rparr> else config) = Ok d"
    and "cfg_decode codec d = Ok config'"
  shows "\<exists>b'. WriteConfig codec config b = (Ok (), b') \<and> ReadConfig codec b' = Ok config'
     \<and> (\<forall>k. k \<noteq> DefaultConfig \<longrightarrow> backend_objs b' k = backend_objs b k)
     \<and> (backend_wf b \<longrightarrow> backend_wf b')"
proof -
  let ?b = "b\<lparr>be_bucket := (be_bucket b)\<lparr>blobs := go_put DefaultConfig d (blobs (be_bucket b))\<rparr>\<rparr>"
  have ne: "DefaultConfig \<noteq> []" by (simp add: DefaultConfig_def)
  let ?c = "if cfg_Version config = 0 then config\<lparr>cfg_Version := 1\<rparr> else config"
  have "WriteConfig codec config b = (Ok (), ?b)"
    unfolding WriteConfig_def DefaultVersion_def Let_def assms(2)
    using assms(1) ne by (simp add: blob_defs fault_free_def)
  moreover have "ReadConfig codec ?b = Ok config'"
    using assms by (simp add: ReadConfig_def blob_defs fault_free_def)
  moreover have "backend_wf b \<longrightarrow> backend_wf ?b"
    by (auto simp: backend_wf_def set_go_put)
  ultimately show ?thesis by (auto simp: backend_objs_def)
qed

end
