(* ===== verification/Cache_Props.thy ===== *)
theory Cache_Props
  imports Samples Purger Config_Store
begin

text \<open>
  The properties of the in-memory getter, of the read-write store, of purging and of the backend's
  bulk removal, of the error paths of saving, of the encrypter and of the configuration.
\<close>

section \<open>The in-memory getter\<close>

text \<open>Asked for all revisions with options that every cached revision passes, the in-memory State
  returns for each resource with a cached revision all of them in the order of their versions,
  and nothing for the others.\<close>

theorem memory_state_everything:
  assumes "cache_wf c" "so_AllRevisions opt"
    "\<forall>k. \<forall>rv \<in> set (cache_List k c). \<not> mem_skips opt rv \<and> \<not> mem_cuts opt rv"
  shows "\<exists>st. mem_State opt c = Ok st \<and> (\<forall>k. go_get st k =
     (if cache_List k c = [] then None else Some (sort_revs (cache_List k c))))"
  using mem_State_unfiltered [OF assms] by blast

definition web_cache :: rev_cache where
  "web_cache = cache_Set (LazyLoadingRevision (web_rev 9 1700000000 False) None)
     (cache_Set (LazyLoadingRevision (web_rev 10 1700000060 False) None) NewInMemoryGetter)"

lemma web_cache_list:
  "cache_List ''apps/v1/Deployment/default/web'' web_cache
     = [LazyLoadingRevision (web_rev 10 1700000060 False) None,
        LazyLoadingRevision (web_rev 9 1700000000 False) None]"
  by (simp add: web_cache_def cache_List_def cache_Set_def NewInMemoryGetter_def sample_keys go_put_def
      ResourceVersion_def Let_def) (simp add: web_rev_def)

theorem memory_state_everything_witness:
  "\<exists>st. mem_State reap_options web_cache = Ok st \<and> go_get st ''apps/v1/Deployment/default/web''
     = Some [LazyLoadingRevision (web_rev 9 1700000000 False) None,
             LazyLoadingRevision (web_rev 10 1700000060 False) None]"
proof -
  have wf: "cache_wf web_cache" by (simp add: web_cache_def)
  have "so_AllRevisions reap_options" "\<not> mem_skips reap_options rv" "\<not> mem_cuts reap_options rv" for rv
    by (simp_all add: mem_skips_def mem_cuts_def reap_options_def)
  then have "\<exists>st. mem_State reap_options web_cache = Ok st \<and> (\<forall>k. go_get st k =
     (if cache_List k web_cache = [] then None else Some (sort_revs (cache_List k web_cache))))"
    using memory_state_everything [OF wf, of reap_options] by simp
  then obtain st where "mem_State reap_options web_cache = Ok st"
    "go_get st ''apps/v1/Deployment/default/web''
       = Some (sort_revs (cache_List ''apps/v1/Deployment/default/web'' web_cache))"
    by (auto simp: web_cache_list)
  then show ?thesis
    by (simp add: web_cache_list sort_revs_def ResourceVersion_def) (simp add: web_rev_def)
qed

text \<open>A query of the cached State that filters panics: without all revisions, as soon as one cached
  resource does not match it indexes an empty list at -1; with all revisions, as soon as a
  revision other than the last of its list is cut it dereferences a nil entry.\<close>

theorem memory_state_panics:
  assumes "cache_wf c" "cache_List k c = rv # revs"
    "(\<not> so_AllRevisions opt \<and> mem_skips opt rv)
     \<or> (so_AllRevisions opt \<and> (\<forall>x \<in> set (rv # revs). \<not> mem_skips opt x)
        \<and> (\<exists>x \<in> set (butlast (rv # revs)). mem_cuts opt x))"
  shows "\<exists>p. mem_State opt c = Crash p"
proof -
  have "\<exists>p. mem_state_entry opt (rv # revs) = Crash p"
    using assms(3) mem_state_entry_skipped [of opt rv revs] mem_state_entry_spec(1) [of "rv # revs" opt]
    by auto
  moreover have "(k, rv # revs) \<in> set (cache_State c)"
    using cache_State_get [OF assms(1)] assms(2) by (simp add: go_get_in [symmetric])
  ultimately show ?thesis using mem_state_loop_crash unfolding mem_State_def by blast
qed

theorem memory_state_panics_witness:
  "\<exists>p. mem_State (reap_options\<lparr>so_OnlyDeleted := True\<rparr>) web_cache = Crash p"
proof -
  have "cache_wf web_cache" by (simp add: web_cache_def)
  moreover have "\<not> mem_skips (reap_options\<lparr>so_OnlyDeleted := True\<rparr>) x" for x
    by (simp add: mem_skips_def reap_options_def)
  moreover have "so_AllRevisions (reap_options\<lparr>so_OnlyDeleted := True\<rparr>)" by (simp add: reap_options_def)
  moreover have "mem_cuts (reap_options\<lparr>so_OnlyDeleted := True\<rparr>) (LazyLoadingRevision (web_rev 10 1700000060 False) None)"
    by (simp add: mem_cuts_def Deleted_def web_rev_def)
  ultimately show ?thesis using memory_state_panics [OF _ web_cache_list] by simp
qed

section \<open>The read-write store\<close>

text \<open>C29: after a successful Update of the cached store, Get of the resource returns the written
  revision and Get of every other resource what it returned before; after a failed one every Get
  returns what it returned before.\<close>

theorem cached_read_after_write:
  assumes "rw_Update rv s = (res, (s', rv'))"
  shows "(case res of
       Ok r \<Rightarrow> \<forall>q. rw_Get q s' = (if rev_ResourceKey q = rev_ResourceKey rv then Ok r else rw_Get q s)
     | Err e \<Rightarrow> \<forall>q. rw_Get q s' = rw_Get q s
     | Crash c \<Rightarrow> True)"
proof -
  have "rw_write rv s = (res, s')" using assms by (simp add: rw_write_def)
  then show ?thesis
    using rw.get_after_update rw.get_frame rw.get_after_failed_update by (cases res) auto
qed

definition sample_rw :: rw_store where
  "sample_rw = \<lparr>rw_storer = sample_store, rw_reader = NewInMemoryGetter, rw_writeSemaphore = None\<rparr>"

theorem cached_read_after_write_witness:
  "\<exists>r s'. rw_Get (LazyLoadingRevision (web_rev 1 0 False) None) s' = Ok r \<and> s' \<noteq> sample_rw"
proof -
  let ?rv = "ConcreteRevision (web_rev 9 1700000000 False) web_obj"
  have "\<exists>s' t. ns_Update ?rv sample_store = (Ok ?rv, (s', ?rv))"
    using update_then_get [OF sample_valid(1), of sample_store web_obj "''{}''" web_obj]
    by (auto simp: encrypter_ready_def sample_eval fault_free_def)
  then obtain s' where u: "rw_Update ?rv sample_rw = (Ok ?rv, (s', ?rv))"
    by (auto simp: rw_Update_def mem_Update_def sample_rw_def)
  have "rw_Get (LazyLoadingRevision (web_rev 1 0 False) None) s' = Ok ?rv"
    using cached_read_after_write [OF u] by (simp add: sample_keys)
  moreover have "rw_Get (LazyLoadingRevision (web_rev 1 0 False) None) sample_rw = Err ErrNotFound"
    by (simp add: rw_Get_def mem_Get_def cache_Get_def sample_rw_def NewInMemoryGetter_def)
  ultimately show ?thesis by (intro exI [of _ ?rv] exI [of _ s']) auto
qed

text \<open>After a Sync the cached store serves an old revision: the revisions are cached in the order of
  the walk, where version 10 comes before version 9, and the one cached last counts as the latest.\<close>

theorem cached_sync_serves_older:
  "\<exists>state gone s'. rw_Sync web_handlers sample_rw = (Ok (state, gone), s')
     \<and> rw_Get (LazyLoadingRevision (web_rev 10 0 False) None) s'
         = Ok (LazyLoadingRevision (web_rev 9 1700000000 False) None)
     \<and> cached (rw_reader s') ''apps/v1/Deployment/default/web'' 10 \<noteq> None"
proof -
  have b: "s_backend sample_store = sample_backend" by (simp add: sample_store_def)
  have h: "\<forall>(k, h) \<in> set web_handlers. rh_keyErr h = (\<lambda>_. None)"
    by (simp add: web_handlers_def handlers_Set_def go_put_def)
  have t: "rev_handler web_handlers (LazyLoadingRevision (web_rev v t d) None) \<noteq> None"
    "rev_handler web_handlers (LazyLoadingRevision (node_rev v t d) None) = None" for v t d
    by (simp_all add: rev_handler_def HandlerFor_def web_handlers_def handlers_Set_def handler_key_def
        APIVersion_def Kind_def Namespace_def go_put_def)
      (simp_all add: web_rev_def node_rev_def path_eval Let_def)
  have st: "fst (fold (sync_step du web_handlers) (stored_revs sample_backend) ([], []))
     = [(''apps/v1/Deployment/default/web'', [LazyLoadingRevision (web_rev 10 1700000060 False) None,
         LazyLoadingRevision (web_rev 9 1700000000 False) None])]" for du
    using t by (auto simp: sample_revs sync_step_def sample_keys go_put_def split: option.splits)
  show ?thesis
    using store_Sync_spec [OF sample_wf(1) sample_fault_free(1) h]
    by (simp add: b st rw_Sync_spec sample_rw_def)
      (simp add: rw_Get_def mem_Get_def cache_Get_latest cache_latest_Set sample_keys
        NewInMemoryGetter_def ResourceVersion_def, simp add: web_rev_def)
qed

section \<open>Purging and bulk removal\<close>

text \<open>PurgeRevisions on distinct valid revisions reports exactly those it could remove, removes
  exactly their objects, and does so with a backend that removes in bulk and with one that does
  not (S3, whose answer is the client's, apart).\<close>

theorem purge_revisions_exact:
  assumes "\<forall>rv \<in> set revs. valid_revision (meta rv)" "distinct (map rev_Key revs)"
    "be_provider (s_backend s) \<noteq> S3Provider"
  shows "\<forall>bulk. \<exists>err s'. PurgeRevisions revs (s\<lparr>s_bulk := bulk\<rparr>) =
       (Ok (map lazy_of (filter (\<lambda>rv. removable (s_backend s) (rev_Key rv)) revs), err), s')
     \<and> (\<forall>k. backend_objs (s_backend s') k =
          (if k \<in> rev_Key ` set revs \<and> removable (s_backend s) k then None
           else backend_objs (s_backend s) k))"
proof
  fix bulk
  have "be_provider (s_backend (s\<lparr>s_bulk := bulk\<rparr>)) \<noteq> S3Provider" using assms(3) by simp
  from PurgeRevisions_spec [OF assms(1,2) this]
  show "\<exists>err s'. PurgeRevisions revs (s\<lparr>s_bulk := bulk\<rparr>) =
       (Ok (map lazy_of (filter (\<lambda>rv. removable (s_backend s) (rev_Key rv)) revs), err), s')
     \<and> (\<forall>k. backend_objs (s_backend s') k =
          (if k \<in> rev_Key ` set revs \<and> removable (s_backend s) k then None
           else backend_objs (s_backend s) k))" by (simp cong: if_cong)
qed

theorem purge_revisions_exact_witness:
  "\<exists>err s'. PurgeRevisions [LazyLoadingRevision (web_rev 9 1700000000 False) None] (sample_store\<lparr>s_bulk := False\<rparr>)
     = (Ok ([LazyLoadingRevision (web_rev 9 1700000000 False) None], err), s')"
proof -
  let ?l = "[LazyLoadingRevision (web_rev 9 1700000000 False) None]"
  have "removable (s_backend sample_store) ''apps/v1/Deployment/default/web/9-1700000000.json''"
    by (simp add: removable_def sample_eval backend_objs_def)
  moreover have "be_provider (s_backend sample_store) \<noteq> S3Provider"
    by (simp add: sample_eval S3Provider_def)
  ultimately show ?thesis
    using purge_revisions_exact [of ?l sample_store, THEN spec, of False]
    by (simp add: sample_keys) blast
qed



text \<open>The bulk removal of the other providers reports no error exactly when the last key could be
  removed: the error of an earlier key is overwritten.\<close>

theorem bulk_error_is_last:
  assumes "be_provider b \<noteq> S3Provider" "distinct keys" "keys \<noteq> []"
  shows "fst (fst (Backend_RemoveAll b keys)) = filter (removable b) keys
     \<and> (snd (fst (Backend_RemoveAll b keys)) = None \<longleftrightarrow> removable b (last keys))"
  using assms remove_each_deleted [OF assms(2), of b "[]" None] remove_each_error [OF assms(2,3), of b "[]" None]
  by (simp add: Backend_RemoveAll_def)

theorem bulk_error_is_last_witness:
  "Backend_RemoveAll sample_backend [''missing'', ''config.json''] \<noteq> (([], None), sample_backend)
     \<and> snd (fst (Backend_RemoveAll sample_backend [''missing'', ''config.json''])) = None"
proof -
  have "be_provider sample_backend \<noteq> S3Provider" by (simp add: sample_eval S3Provider_def)
  moreover have "removable sample_backend ''config.json''" "\<not> removable sample_backend ''missing''"
    by (simp_all add: removable_def sample_eval backend_objs_def)
  ultimately show ?thesis
    using bulk_error_is_last [of sample_backend "[''missing'', ''config.json'']"] by auto
qed

section \<open>Saving\<close>

text \<open>A save that fails to marshal still stores an object, an empty one, under the revision's key:
  the deferred Close commits what was written so far.\<close>

theorem failed_save_leaves_empty_object:
  assumes "fault_free (s_backend s)" "valid_revision r" "json_marshal (s_codec s) u = Err e"
  shows "\<exists>s'. ns_Update (ConcreteRevision r u) s = (Err e, (s', ConcreteRevision r u))
     \<and> backend_objs (s_backend s') (revision_Key r) = Some []"
proof -
  from failed_save_stores_empty [OF assms(1) revision_Key_not_Nil [OF assms(2)] assms(3)] obtain s' where
    "store_save (ConcreteRevision r u) s = (Err e, (s', ConcreteRevision r u))"
    "backend_objs (s_backend s') (revision_Key r) = Some []" by blast
  then show ?thesis by (simp add: ns_Update_def)
qed

definition mute_store :: store where
  "mute_store = sample_store\<lparr>s_codec := sample_codec\<lparr>json_marshal := (\<lambda>_. Err (ErrMsg ''unsupported''))\<rparr>\<rparr>"

theorem failed_save_leaves_empty_object_witness:
  "\<exists>s'. ns_Update (ConcreteRevision (web_rev 9 1700000000 False) web_obj) mute_store
       = (Err (ErrMsg ''unsupported''), (s', ConcreteRevision (web_rev 9 1700000000 False) web_obj))
     \<and> backend_objs (s_backend s') ''apps/v1/Deployment/default/web/9-1700000000.json'' = Some []"
proof -
  have "fault_free (s_backend mute_store)" "json_marshal (s_codec mute_store) web_obj = Err (ErrMsg ''unsupported'')"
    by (simp_all add: mute_store_def fault_free_def sample_eval)
  from failed_save_leaves_empty_object [OF this(1) sample_valid(1) this(2)] show ?thesis
    by (simp add: sample_keys)
qed

text \<open>When closing the writer fails, Update reports success and nothing is stored.\<close>

theorem close_error_lost:
  assumes "faults (be_bucket (s_backend s)) OpNewWriter (revision_Key r) = None"
    "faults (be_bucket (s_backend s)) OpWrite (revision_Key r) = None"
    "faults (be_bucket (s_backend s)) OpCloseWriter (revision_Key r) = Some e"
    "json_marshal (s_codec s) u = Ok d" "s_encrypter s = None"
  shows "\<exists>s'. ns_Update (ConcreteRevision r u) s = (Ok (ConcreteRevision r u), (s', ConcreteRevision r u))
     \<and> backend_objs (s_backend s') = backend_objs (s_backend s)"
  by (rule lost_close_error [OF assms])

definition full_store :: store where
  "full_store = sample_store\<lparr>s_backend := sample_backend\<lparr>be_bucket := \<lparr>blobs = [],
     faults = (\<lambda>op _. if op = OpCloseWriter then Some (ErrMsg ''quota'') else None)\<rparr>\<rparr>\<rparr>"

theorem close_error_lost_witness:
  "\<exists>s'. ns_Update (ConcreteRevision (web_rev 9 1700000000 False) web_obj) full_store
     = (Ok (ConcreteRevision (web_rev 9 1700000000 False) web_obj),
        (s', ConcreteRevision (web_rev 9 1700000000 False) web_obj))
     \<and> backend_objs (s_backend s') ''apps/v1/Deployment/default/web/9-1700000000.json'' = None"
proof -
  have "backend_objs (s_backend full_store) = Map.empty"
    by (rule ext) (simp add: full_store_def backend_objs_def)
  with close_error_lost [of full_store "web_rev 9 1700000000 False" "ErrMsg ''quota''" web_obj "''{}''"]
  show ?thesis by (auto simp: full_store_def sample_store_def sample_codec_def)
qed

section \<open>Reading back\<close>

text \<open>The content of a lazily loaded revision does not depend on its version or timestamp: two
  revisions of a resource that are not yet loaded load the same object, that of Get.\<close>

theorem content_ignores_version:
  assumes "apiVersion_of r = apiVersion_of r'" "kind_of r = kind_of r'"
    "namespace_of r = namespace_of r'" "name_of r = name_of r'"
  shows "fst (Content (LazyLoadingRevision r None) s) = fst (Content (LazyLoadingRevision r' None) s)"
  by (rule Content_ignores_version [OF assms])

theorem content_ignores_version_witness:
  "fst (Content (LazyLoadingRevision (web_rev 9 1700000000 False) None) sample_store)
     = fst (Content (LazyLoadingRevision (web_rev 10 1700000060 False) None) sample_store)"
  by (rule content_ignores_version) (simp_all add: web_rev_def revision_ResourceKey_def)

text \<open>Purging the revision the store remembers as the latest leaves the memory of it: the next Get
  of the resource fails, also when older revisions are stored.\<close>

theorem get_fails_after_purge:
  assumes "PurgeRevision rv s = (Ok (), s')"
    "go_get (s_latestCache s) (rev_ResourceKey rv) = Some (rev_RevisionKey rv)"
  shows "\<exists>e. fst (ns_Get rv s') = Err e"
  by (rule purge_then_get [OF assms])

theorem get_fails_after_purge_witness:
  "\<exists>s' e. snd (PurgeRevision (LazyLoadingRevision (web_rev 10 1700000060 False) None)
       (sample_store\<lparr>s_latestCache := [(''apps/v1/Deployment/default/web'', ''10-1700000060.json'')]\<rparr>)) = s'
     \<and> fst (ns_Get (LazyLoadingRevision (web_rev 10 1700000060 False) None) s') = Err e"
proof -
  let ?rv = "LazyLoadingRevision (web_rev 10 1700000060 False) None"
  let ?s = "sample_store\<lparr>s_latestCache := [(''apps/v1/Deployment/default/web'', ''10-1700000060.json'')]\<rparr>"
  obtain s' where p: "PurgeRevision ?rv ?s = (Ok (), s')"
    by (simp add: PurgeRevision_def blob_defs sample_keys Let_def) (simp add: sample_eval)
  have "rev_RevisionKey ?rv = ''10-1700000060.json''"
    by (simp add: key_eval) (simp add: web_rev_def number_eval)
  then have "go_get (s_latestCache ?s) (rev_ResourceKey ?rv) = Some (rev_RevisionKey ?rv)"
    by (simp add: sample_keys)
  from get_fails_after_purge [OF p this] p show ?thesis by auto
qed

text \<open>C32: what the AES encrypter writes it reads back, whatever the nonce; on data shorter than a nonce,
  as a failed save leaves, decryption panics instead of returning an error.\<close>

theorem aes_round_trip:
  assumes "aead_sound (AEAD a)" "length nonce = NonceSize (AEAD a)"
  shows "result_bind (AES_Encrypt a (Ok nonce) (Ok data)) (\<lambda>c. AES_Decrypt a (Ok c)) = Ok data
     \<and> (\<forall>short. length short < NonceSize (AEAD a) \<longrightarrow>
          AES_Decrypt a (Ok short) = Crash (Panic ''slice bounds out of range''))"
  using AES_round_trip [OF assms] AES_Decrypt_short by blast

theorem aes_round_trip_witness:
  "AES_Decrypt \<lparr>HashAlgorithm = ''SHA256'', AEAD = plain_aead\<rparr> (Ok []) = Crash (Panic ''slice bounds out of range'')"
  using aes_round_trip [of "\<lparr>HashAlgorithm = ''SHA256'', AEAD = plain_aead\<rparr>" "''ab''" "''x''"]
  by (simp add: plain_aead_def aead_sound_def)

section \<open>The configuration\<close>

text \<open>A written configuration is read back as what the codec makes of it, with version 1 filled in,
  and writing it changes no revision.\<close>

theorem config_round_trip:
  assumes "fault_free b"
    and "cfg_encode codec (if cfg_Version config = 0 then config\<lparr>cfg_Version := 1\<rparr> else config) = Ok d"
    and "cfg_decode codec d = Ok config'"
  shows "\<exists>b'. WriteConfig codec config b = (Ok (), b') \<and> ReadConfig codec b' = Ok config'
     \<and> (\<forall>k. k \<noteq> DefaultConfig \<longrightarrow> backend_objs b' k = backend_objs b k)
     \<and> (backend_wf b \<longrightarrow> backend_wf b')"
  by (rule WriteConfig_ReadConfig [OF assms])

theorem config_round_trip_witness:
  "\<exists>b'. ReadConfig \<lparr>cfg_encode = (\<lambda>_. Ok ''{}''), cfg_decode = (\<lambda>_. Ok \<lparr>cfg_Resources = [], cfg_Version = 1\<rparr>)\<rparr> b'
     = Ok \<lparr>cfg_Resources = [], cfg_Version = 1\<rparr> \<and> backend_wf b'"
  using config_round_trip [OF sample_fault_free(2), of
      "\<lparr>cfg_encode = (\<lambda>_. Ok ''{}''), cfg_decode = (\<lambda>_. Ok \<lparr>cfg_Resources = [], cfg_Version = 1\<rparr>)\<rparr>"
      "\<lparr>cfg_Resources = [], cfg_Version = 0\<rparr>" "''{}''" "\<lparr>cfg_Resources = [], cfg_Version = 1\<rparr>"]
  by auto

text \<open>A resource name that is nowhere a full name resolves to the last resource, over all groups in
  order, that has it as its kind, its singular, its plural or a short name.\<close>

theorem last_short_match_wins:
  assumes "\<forall>(g, gv, a) \<in> set (offered (cfg_Resources c)). \<not> full_name_match (to_lower resource) gv a"
    and "filter (\<lambda>(g, gv, a). short_match (to_lower resource) a) (offered (cfg_Resources c)) = ms"
  shows "BestResourceMappingFor c resource =
     (if ms = [] \<or> ar_Kind (snd (snd (last ms))) = []
      then Err (ErrMsg (''the store doesn't have a resource type '' @ resource))
      else Ok (fst (last ms), snd (snd (last ms))))"
  by (rule BestResourceMapping_short [OF assms])

definition deployment_resource :: APIResource where
  "deployment_resource = \<lparr>ar_Name = ''deployments'', ar_SingularName = ''deployment'', ar_Namespaced = True,
     ar_Kind = ''Deployment'', ar_ShortNames = [''deploy''], ar_Verbs = []\<rparr>"

definition two_groups :: StoreConfig where
  "two_groups = \<lparr>cfg_Resources =
     [\<lparr>arl_GroupVersion = ''apps/v1'', arl_APIResources = [deployment_resource]\<rparr>,
      \<lparr>arl_GroupVersion = ''extensions/v1beta1'', arl_APIResources = [deployment_resource]\<rparr>], cfg_Version = 1\<rparr>"

theorem last_short_match_wins_witness:
  "BestResourceMappingFor two_groups ''deploy'' = Ok (''extensions/v1beta1'', deployment_resource)"
proof -
  have "to_lower ''deploy'' = ''deploy''" by (simp add: to_lower_def lower_table_def)
  then show ?thesis
    using last_short_match_wins [of two_groups "''deploy''"]
    by (simp add: two_groups_def offered_def ParseGroupVersion_def full_name_match_def short_match_def
        deployment_resource_def)
qed

end
