(* ===== verification/Loops.thy ===== *)
theory Loops
  imports Purger
begin

text \<open>
  The goroutines that the flusher, the purger and the reaper start: each runs its body once per
  tick of its ticker, for as long as the process lives, so a run is given by the ticks it has seen.
  A crash of a body ends the process; an error of a reap is counted and the loop goes on.  The
  flusher's loop is the one of a store without a semaphore, with each tick as one step; theory System
  interleaves the two flushes of a store that has one.  Its error counter is left out.
\<close>

section \<open>The flusher\<close>

text \<open>The ticks of both tickers in their order; \<open>True\<close> is one of the retry ticker.\<close>

fun flusher_loop :: "bool list \<Rightarrow> flusher \<Rightarrow> storer \<Rightarrow> unit result \<times> (flusher \<times> storer)" where
  "flusher_loop [] f st = (Ok (), (f, st))"
| "flusher_loop (retry # ticks) f st =
     on_ok (flusher_tick retry f st) (\<lambda>_ (f, st). flusher_loop ticks f st)"

lemma flusher_loop_ConsE:
  assumes "flusher_loop (retry # ticks) f st = (Ok (), (f', st'))"
  obtains f1 st1 where "flusher_tick retry f st = (Ok (), (f1, st1))" "flusher_loop ticks f1 st1 = (Ok (), (f', st'))"
proof (cases "flusher_tick retry f st")
  case (fields r f1 st1)
  with assms that show ?thesis by (cases r) simp_all
qed

lemma retry_all_wf: "queue_wf errorKeyFunc q \<Longrightarrow> queue_wf errorKeyFunc (flusher_retry_all failed q)"
  unfolding flusher_retry_all_def by (rule rq.fold_cache_inv)

lemma tick_retries:
  assumes "flusher_tick retry f st = (Ok (), (f', st'))"
  obtains failed where "fl_retryCache f' = flusher_retry_all failed (fl_retryCache f)"
  using assms by (auto simp: flusher_tick_def Let_def split: prod.splits result.splits)

lemma loop_retries:
  assumes "flusher_loop ticks f st = (Ok (), (f', st'))" "queue_wf errorKeyFunc (fl_retryCache f)"
    "go_get (fl_retryCache f) k = Some rv"
  shows "\<exists>rv'. go_get (fl_retryCache f') k = Some rv' \<and> ResourceVersion rv \<le> ResourceVersion rv'"
  using assms
proof (induction ticks arbitrary: f st rv)
  case (Cons retry ticks)
  from Cons.prems(1) obtain f1 st1 where t: "flusher_tick retry f st = (Ok (), (f1, st1))"
    "flusher_loop ticks f1 st1 = (Ok (), (f', st'))" by (rule flusher_loop_ConsE)
  from t(1) obtain failed where f1: "fl_retryCache f1 = flusher_retry_all failed (fl_retryCache f)" by (rule tick_retries)
  from retry_all_keeps [OF Cons.prems(2,3), of failed] obtain rv1 where
    rv1: "go_get (fl_retryCache f1) k = Some rv1" "ResourceVersion rv \<le> ResourceVersion rv1" by (auto simp: f1)
  have "queue_wf errorKeyFunc (fl_retryCache f1)" using retry_all_wf [OF Cons.prems(2)] by (simp add: f1)
  from Cons.IH [OF t(2) this rv1(1)] rv1(2) show ?case by force
qed simp

section \<open>The purger and the reaper\<close>

fun purger_loop :: "nat \<Rightarrow> purger \<Rightarrow> storer \<Rightarrow> unit result \<times> (purger \<times> storer)" where
  "purger_loop 0 p st = (Ok (), (p, st))"
| "purger_loop (Suc n) p st = on_ok (purger_purge p st) (\<lambda>_ (p, st). purger_loop n p st)"

text \<open>\<open>Reap.New\<close>: only its ticker can fail.  The loop has a clock for each tick and counts the errors.\<close>

definition reaper_New :: "int \<Rightarrow> unit result" where
  "reaper_New interval = NewTicker interval"

fun reaper_loop :: "BackupPolicy \<Rightarrow> (nat \<Rightarrow> gotime) list \<Rightarrow> nat \<Rightarrow> purger \<Rightarrow> storer
    \<Rightarrow> nat result \<times> (purger \<times> storer)" where
  "reaper_loop pol [] errors p st = (Ok errors, (p, st))"
| "reaper_loop pol (clock # ticks) errors p st =
     (case reap pol clock p st of
        (Ok _, (p, st)) \<Rightarrow> reaper_loop pol ticks errors p st
      | (Err _, (p, st)) \<Rightarrow> reaper_loop pol ticks (errors + 1) p st
      | (Crash c, (p, st)) \<Rightarrow> (Crash c, (p, st)))"

lemma reaper_loop_errors:
  "reaper_loop pol ticks errors p st = (Ok n, (p', st')) \<Longrightarrow> errors \<le> n \<and> n \<le> errors + length ticks"
proof (induction ticks arbitrary: errors p st)
  case (Cons clock ticks)
  obtain r p1 st1 where r: "reap pol clock p st = (r, (p1, st1))" by (metis surj_pair)
  then show ?case using Cons.prems Cons.IH [of errors p1 st1] Cons.IH [of "errors + 1" p1 st1] by (cases r) auto
qed simp

text \<open>Left to itself the purger only shrinks its queue, and keeps an entry's revision as it was queued.\<close>

lemma purger_tick_shrinks:
  assumes "purger_purge p st = (Ok (), (p', st'))" "queue_wf purgeKeyFunc (pu_c p)"
  shows "queue_wf purgeKeyFunc (pu_c p') \<and> (\<forall>k rv. go_get (pu_c p') k = Some rv \<longrightarrow> go_get (pu_c p) k = Some rv)"
proof (cases "Cache_SafeCopy (pu_c p) = []")
  case False
  with assms(1) obtain gone where "pu_c p' = fold (\<lambda>obj. Cache_Delete purgeKeyFunc (Some obj)) gone (pu_c p)"
    by (auto simp: purger_purge_def Let_def split: prod.splits result.splits)
  with rq.fold_delete_inv [OF assms(2), of gone] rq.fold_delete_entry [OF assms(2), of gone] show ?thesis
    by (auto split: option.splits if_splits)
qed (use assms in \<open>simp add: purger_purge_def\<close>)

lemma purger_loop_shrinks:
  assumes "purger_loop n p st = (Ok (), (p', st'))" "queue_wf purgeKeyFunc (pu_c p)"
  shows "queue_wf purgeKeyFunc (pu_c p') \<and> (\<forall>k rv. go_get (pu_c p') k = Some rv \<longrightarrow> go_get (pu_c p) k = Some rv)"
  using assms
proof (induction n arbitrary: p st)
  case (Suc n)
  obtain r p1 st1 where t: "purger_purge p st = (r, (p1, st1))" by (metis surj_pair)
  then have "r = Ok ()" "purger_loop n p1 st1 = (Ok (), (p', st'))" using Suc.prems(1) by (cases r; simp)+
  with purger_tick_shrinks [OF t [unfolded \<open>r = Ok ()\<close>] Suc.prems(2)] Suc.IH show ?case by blast
qed simp

end
