(* ===== verification/Append_Race.thy ===== *)
theory Append_Race
  imports Flusher "HOL-Library.Multiset"
begin

text \<open>
  The list of failed revisions of a concurrent flush.  Its goroutines, and the loop that starts
  them, append to \<open>failedFlushRevs\<close> without a lock: an append reads the list and later assigns the
  longer one.  Theory Flusher takes an append as one step; here its two halves are steps of their
  own, and two appends that overlap lose one of the revisions.
\<close>

section \<open>Appends in two steps\<close>

text \<open>
  \<open>rc_appends\<close> are the goroutines between their read and their assignment, each with the revision,
  the error it received and the list it read; \<open>rc_loop\<close> is the same of the loop, which starts no
  other write meanwhile.
\<close>

record racy_flush =
  rc_flush :: flush_state
  rc_appends :: "(Revision \<times> error \<times> Revision list) list"
  rc_loop :: "(Revision \<times> Revision list) option"

inductive racy_step :: "int \<Rightarrow> racy_flush \<Rightarrow> racy_flush \<Rightarrow> bool" for n :: int where
  no_append: "flush_step n (rc_flush s) f \<Longrightarrow> fs_failed f = fs_failed (rc_flush s)
    \<Longrightarrow> rc_loop s = None \<or> fs_todo f = fs_todo (rc_flush s)
    \<Longrightarrow> racy_step n s (s\<lparr>rc_flush := f\<rparr>)"
| read: "(rv, Some e) \<in> set (fs_sending (rc_flush s))
    \<Longrightarrow> racy_step n s (s\<lparr>rc_flush := (rc_flush s)\<lparr>fs_sending := remove1 (rv, Some e) (fs_sending (rc_flush s))\<rparr>,
          rc_appends := (rv, e, fs_failed (rc_flush s)) # rc_appends s\<rparr>)"
| assign: "(rv, e, failed) \<in> set (rc_appends s)
    \<Longrightarrow> racy_step n s (s\<lparr>rc_flush := (rc_flush s)\<lparr>fs_failed := failed @ [rv],
            fs_c := Cache_Delete flushKeyFunc (Some rv) (fs_c (rc_flush s))\<rparr>,
          rc_appends := remove1 (rv, e, failed) (rc_appends s)\<rparr>)"
| reject_read: "fs_todo (rc_flush s) = rv # rvs \<Longrightarrow> rc_loop s = None
    \<Longrightarrow> racy_step n s (s\<lparr>rc_flush := (rc_flush s)\<lparr>fs_todo := rvs\<rparr>, rc_loop := Some (rv, fs_failed (rc_flush s))\<rparr>)"
| reject_assign: "rc_loop s = Some (rv, failed)
    \<Longrightarrow> racy_step n s (s\<lparr>rc_flush := (rc_flush s)\<lparr>fs_failed := failed @ [rv]\<rparr>, rc_loop := None\<rparr>)"

inductive_cases racy_stepE: "racy_step n s s'"

definition racy_of :: "flush_state \<Rightarrow> racy_flush" where
  "racy_of f = \<lparr>rc_flush = f, rc_appends = [], rc_loop = None\<rparr>"

definition racy_done :: "racy_flush \<Rightarrow> bool" where
  "racy_done s \<longleftrightarrow> flush_done (rc_flush s) \<and> rc_appends s = [] \<and> rc_loop s = None"

text \<open>Every step with atomic appends is one or two of these.\<close>

lemma atomic_racy:
  assumes "flush_step n f f'"
  shows "(racy_step n)\<^sup>*\<^sup>* (racy_of f) (racy_of f')"
proof -
  have plain: ?thesis if "fs_failed f' = fs_failed f"
    using racy_step.no_append [of n "racy_of f" f'] assms that by (auto simp: racy_of_def)
  show ?thesis
    using assms
  proof cases
    case (reject rv rvs)
    let ?s = "racy_of f\<lparr>rc_flush := f\<lparr>fs_todo := rvs\<rparr>, rc_loop := Some (rv, fs_failed f)\<rparr>"
    have "racy_step n (racy_of f) ?s"
      using racy_step.reject_read [of "racy_of f" rv rvs n] reject(2) by (simp add: racy_of_def)
    moreover have "racy_step n ?s (racy_of f')"
      using racy_step.reject_assign [of ?s rv "fs_failed f" n] reject(1) by (simp add: racy_of_def)
    ultimately show ?thesis by (rule converse_rtranclp_into_rtranclp [OF _ r_into_rtranclp])
  next
    case (received rv e)
    show ?thesis
    proof (cases e)
      case (Some x)
      let ?f = "f\<lparr>fs_sending := remove1 (rv, e) (fs_sending f)\<rparr>"
      let ?s = "racy_of f\<lparr>rc_flush := ?f, rc_appends := [(rv, x, fs_failed f)]\<rparr>"
      have "racy_step n (racy_of f) ?s"
        using racy_step.read [of rv x "racy_of f" n] received(2) Some by (simp add: racy_of_def)
      moreover have "racy_step n ?s (racy_of f')"
        using racy_step.assign [of rv x "fs_failed f" ?s n] received(1) Some by (simp add: racy_of_def)
      ultimately show ?thesis by (rule converse_rtranclp_into_rtranclp [OF _ r_into_rtranclp])
    qed (use plain received(1) in simp)
  qed (use plain in simp_all)
qed

lemma atomic_racy_run: "(flush_step n)\<^sup>*\<^sup>* f f' \<Longrightarrow> (racy_step n)\<^sup>*\<^sup>* (racy_of f) (racy_of f')"
  by (induction rule: rtranclp_induct) (auto dest: atomic_racy intro: rtranclp_trans)

section \<open>Overlapping appends\<close>

lemma async_write_fails:
  assumes "write_rev rv st = (Err e, (st', rv'))"
  shows "async_write rv st = (Ok \<lparr>resp_Revision = None, resp_Error = Some e\<rparr>, (st', rv'))"
  using assms
  by (auto simp: async_write_def write_rev_def AsyncDelete_def AsyncUpdate_def on_ok_def
      split: if_splits prod.splits result.splits)

lemma run_then_four: "r\<^sup>*\<^sup>* a b \<Longrightarrow> r b c \<Longrightarrow> r c d \<Longrightarrow> r d e \<Longrightarrow> r e f \<Longrightarrow> r\<^sup>*\<^sup>* a f"
  by (rule rtranclp.rtrancl_into_rtrancl, rule rtranclp.rtrancl_into_rtrancl, rule rtranclp.rtrancl_into_rtrancl,
      rule rtranclp.rtrancl_into_rtrancl)

text \<open>Two responses with errors are received, both goroutines read the list, and the first one's append is lost.\<close>

lemma overlap_appends:
  assumes "fs_sending f = [(b, Some e2), (a, Some e1)]"
  shows "(racy_step n)\<^sup>*\<^sup>* (racy_of f) (racy_of (f\<lparr>fs_sending := [], fs_failed := fs_failed f @ [b],
     fs_c := Cache_Delete flushKeyFunc (Some b) (Cache_Delete flushKeyFunc (Some a) (fs_c f))\<rparr>))"
proof (rule run_then_four [OF rtranclp.rtrancl_refl])
  show "racy_step n (racy_of f) \<lparr>rc_flush = f\<lparr>fs_sending := [(a, Some e1)]\<rparr>, rc_appends = [(b, e2, fs_failed f)], rc_loop = None\<rparr>"
    (is "racy_step n _ ?s1")
    using racy_step.read [of b e2 "racy_of f" n] assms by (simp add: racy_of_def)
  show "racy_step n ?s1 \<lparr>rc_flush = f\<lparr>fs_sending := []\<rparr>, rc_appends = [(a, e1, fs_failed f), (b, e2, fs_failed f)], rc_loop = None\<rparr>"
    (is "racy_step n _ ?s2")
    using racy_step.read [of a e1 ?s1 n] by simp
  show "racy_step n ?s2 \<lparr>rc_flush = f\<lparr>fs_sending := [], fs_failed := fs_failed f @ [a], fs_c := Cache_Delete flushKeyFunc (Some a) (fs_c f)\<rparr>,
      rc_appends = [(b, e2, fs_failed f)], rc_loop = None\<rparr>" (is "racy_step n _ ?s3")
    using racy_step.assign [of a e1 "fs_failed f" ?s2 n] by simp
  show "racy_step n ?s3 (racy_of (f\<lparr>fs_sending := [], fs_failed := fs_failed f @ [b],
     fs_c := Cache_Delete flushKeyFunc (Some b) (Cache_Delete flushKeyFunc (Some a) (fs_c f))\<rparr>))"
    using racy_step.assign [of b e2 "fs_failed f" ?s3 n] by (simp add: racy_of_def)
qed

text \<open>The two writes that fail, on the way there.\<close>

lemma two_failing_writes:
  assumes "write_rev rv1 st = (Err e1, (st1, rv1'))" "write_rev rv2 st1 = (Err e2, (st2, rv2'))" "2 \<le> n"
  shows "(flush_step n)\<^sup>*\<^sup>* (flush_start [rv1, rv2] c st)
     (flush_start [] c st2\<lparr>fs_sending := [(rv2', Some e2), (rv1', Some e1)]\<rparr>)"
proof (rule run_then_four [OF rtranclp.rtrancl_refl])
  let ?f = "flush_start [] c st"
  have w1: "async_write rv1 st = (Ok \<lparr>resp_Revision = None, resp_Error = Some e1\<rparr>, (st1, rv1'))"
    and w2: "async_write rv2 st1 = (Ok \<lparr>resp_Revision = None, resp_Error = Some e2\<rparr>, (st2, rv2'))"
    using async_write_fails assms(1,2) by blast+
  show "flush_step n (flush_start [rv1, rv2] c st) (?f\<lparr>fs_todo := [rv2], fs_running := [rv1]\<rparr>)"
    using flush_step.spawn [of "flush_start [rv1, rv2] c st" rv1 "[rv2]" n] assms(3) by (simp add: flush_start_def)
  show "flush_step n (?f\<lparr>fs_todo := [rv2], fs_running := [rv1]\<rparr>) (?f\<lparr>fs_running := [rv2, rv1]\<rparr>)"
    using flush_step.spawn [of "?f\<lparr>fs_todo := [rv2], fs_running := [rv1]\<rparr>" rv2 "[]" n] assms(3)
    by (simp add: flush_start_def)
  show "flush_step n (?f\<lparr>fs_running := [rv2, rv1]\<rparr>) (?f\<lparr>fs_running := [rv2], fs_sending := [(rv1', Some e1)], fs_storer := st1\<rparr>)"
    using flush_step.wrote [of rv1 "?f\<lparr>fs_running := [rv2, rv1]\<rparr>" _ _ _ n] w1
    by (cases "rv1 = rv2") (simp_all add: flush_start_def)
  show "flush_step n (?f\<lparr>fs_running := [rv2], fs_sending := [(rv1', Some e1)], fs_storer := st1\<rparr>)
      (flush_start [] c st2\<lparr>fs_sending := [(rv2', Some e2), (rv1', Some e1)]\<rparr>)"
    using flush_step.wrote [of rv2 "?f\<lparr>fs_running := [rv2], fs_sending := [(rv1', Some e1)], fs_storer := st1\<rparr>" _ _ _ n] w2
    by (simp add: flush_start_def)
qed

lemma overlap_loses:
  assumes "write_rev rv1 st = (Err e1, (st1, rv1'))" "write_rev rv2 st1 = (Err e2, (st2, rv2'))" "2 \<le> n"
  shows "\<exists>s. (racy_step n)\<^sup>*\<^sup>* (racy_of (flush_start [rv1, rv2] c st)) s \<and> racy_done s \<and> fs_storer (rc_flush s) = st2
     \<and> fs_failed (rc_flush s) = [rv2']
     \<and> fs_c (rc_flush s) = Cache_Delete flushKeyFunc (Some rv2') (Cache_Delete flushKeyFunc (Some rv1') c)"
proof -
  let ?f = "flush_start [] c st2\<lparr>fs_sending := [(rv2', Some e2), (rv1', Some e1)]\<rparr>"
  let ?g = "?f\<lparr>fs_sending := [], fs_failed := fs_failed ?f @ [rv2'],
     fs_c := Cache_Delete flushKeyFunc (Some rv2') (Cache_Delete flushKeyFunc (Some rv1') (fs_c ?f))\<rparr>"
  have "fs_sending ?f = [(rv2', Some e2), (rv1', Some e1)]" by simp
  note run = rtranclp_trans [OF atomic_racy_run [OF two_failing_writes [OF assms, of c]] overlap_appends [OF this, of n]]
  show ?thesis
    by (intro exI [of _ "racy_of ?g"] conjI run) (simp_all add: flush_start_def racy_done_def flush_done_def racy_of_def)
qed

section \<open>Appends that do not overlap\<close>

text \<open>
  A run in which at most one append is under way at any time does what some run with atomic
  appends does; that run may need one slot more, as a response that was received no longer holds
  one while its append is under way.
\<close>

definition one_append :: "racy_flush \<Rightarrow> bool" where
  "one_append s \<longleftrightarrow> length (rc_appends s) + (if rc_loop s = None then 0 else 1) \<le> 1"

definition in_sync :: "racy_flush \<Rightarrow> bool" where
  "in_sync s \<longleftrightarrow> (\<forall>(rv, e, failed) \<in> set (rc_appends s). failed = fs_failed (rc_flush s))
     \<and> (\<forall>rv failed. rc_loop s = Some (rv, failed) \<longrightarrow> failed = fs_failed (rc_flush s)) \<and> one_append s"

definition racy_sim :: "racy_flush \<Rightarrow> flush_state \<Rightarrow> bool" where
  "racy_sim s f \<longleftrightarrow> fs_todo f = (case rc_loop s of None \<Rightarrow> [] | Some (rv, _) \<Rightarrow> [rv]) @ fs_todo (rc_flush s)
     \<and> fs_running f = fs_running (rc_flush s)
     \<and> mset (fs_sending f) = mset (fs_sending (rc_flush s)) + mset (map (\<lambda>(rv, e, _). (rv, Some e)) (rc_appends s))
     \<and> fs_failed f = fs_failed (rc_flush s) \<and> fs_c f = fs_c (rc_flush s) \<and> fs_storer f = fs_storer (rc_flush s)"

lemma sim_slots:
  assumes "racy_sim s f"
  shows "length (fs_sending f) = length (fs_sending (rc_flush s)) + length (rc_appends s)"
proof -
  let ?sent = "fs_sending (rc_flush s) @ map (\<lambda>(rv, e, _). (rv, Some e)) (rc_appends s)"
  have "mset (fs_sending f) = mset ?sent" using assms by (simp only: racy_sim_def mset_append)
  then have "length (fs_sending f) = length ?sent" by (rule mset_eq_length)
  then show ?thesis by simp
qed

lemma sim_no_append:
  assumes "flush_step n (rc_flush s) g" "fs_failed g = fs_failed (rc_flush s)"
    "rc_loop s = None \<or> fs_todo g = fs_todo (rc_flush s)" "racy_sim s f" "one_append s"
  shows "\<exists>f'. flush_step (n + 1) f f' \<and> racy_sim (s\<lparr>rc_flush := g\<rparr>) f'"
  using assms(1)
proof cases
  case (spawn rv rvs)
  then have "rc_loop s = None" using assms(3) by auto
  then have "flush_step (n + 1) f (f\<lparr>fs_todo := rvs, fs_running := rv # fs_running f\<rparr>)"
    using flush_step.spawn [of f rv rvs "n + 1"] spawn sim_slots [OF assms(4)] assms(4,5)
    by (auto simp: racy_sim_def one_append_def)
  then show ?thesis using spawn(1) assms(4) \<open>rc_loop s = None\<close> by (auto simp: racy_sim_def)
next
  case (wrote rv resp st rv')
  have "flush_step (n + 1) f (f\<lparr>fs_running := remove1 rv (fs_running f),
      fs_sending := (rv', resp_Error resp) # fs_sending f, fs_storer := st\<rparr>)"
    using flush_step.wrote [of rv f resp st rv' "n + 1"] wrote assms(4) by (simp add: racy_sim_def)
  then show ?thesis using wrote(1) assms(4) by (auto simp: racy_sim_def)
next
  case (received rv e)
  then have e: "e = None" using assms(2) by (auto split: if_splits)
  have "(rv, e) \<in># mset (fs_sending f)" using received(2) assms(4) by (simp add: racy_sim_def)
  then have "flush_step (n + 1) f (f\<lparr>fs_sending := remove1 (rv, e) (fs_sending f), fs_failed := fs_failed f,
      fs_c := Cache_Delete flushKeyFunc (Some rv) (fs_c f)\<rparr>)"
    using flush_step.received [of rv e f "n + 1"] e by simp
  then show ?thesis using received(1,2) assms(4) e by (auto simp: racy_sim_def)
qed (use assms(2) in simp)

lemma racy_step_sim:
  assumes "racy_step n s s'" "in_sync s" "one_append s'" "racy_sim s f"
  shows "in_sync s' \<and> (\<exists>f'. (flush_step (n + 1))\<^sup>*\<^sup>* f f' \<and> racy_sim s' f')"
  using assms(1)
proof cases
  case (no_append g)
  have "one_append s" using assms(2) by (simp add: in_sync_def)
  from sim_no_append [OF no_append(2,3,4) assms(4) this] obtain f' where
    "flush_step (n + 1) f f'" "racy_sim s' f'" using no_append(1) by blast
  moreover have "in_sync s'" using assms(2) no_append(1,3) by (simp add: in_sync_def one_append_def)
  ultimately show ?thesis by blast
next
  case (read rv e)
  then show ?thesis using assms(2-4)
    by (auto simp: in_sync_def racy_sim_def one_append_def intro!: exI [of _ f])
next
  case (assign rv e failed)
  obtain a as where as: "rc_appends s = a # as" using assign(2) by (cases "rc_appends s") simp_all
  then have "as = []" "rc_loop s = None"
    using assms(2) by (simp_all add: in_sync_def one_append_def split: if_splits)
  then have failed: "failed = fs_failed (rc_flush s)" "rc_appends s = [(rv, e, failed)]" "rc_loop s = None"
    using assms(2) as assign(2) by (auto simp: in_sync_def)
  then have "(rv, Some e) \<in># mset (fs_sending f)" using assms(4) by (simp add: racy_sim_def)
  then have "flush_step (n + 1) f (f\<lparr>fs_sending := remove1 (rv, Some e) (fs_sending f),
      fs_failed := fs_failed f @ [rv], fs_c := Cache_Delete flushKeyFunc (Some rv) (fs_c f)\<rparr>)"
    using flush_step.received [of rv "Some e" f "n + 1"] by simp
  then show ?thesis using assign(1) failed assms(4)
    by (auto simp: in_sync_def one_append_def racy_sim_def)
next
  case (reject_read rv rvs)
  then show ?thesis using assms(2-4)
    by (auto simp: in_sync_def racy_sim_def one_append_def intro!: exI [of _ f])
next
  case (reject_assign rv failed)
  then have "flush_step (n + 1) f (f\<lparr>fs_todo := fs_todo (rc_flush s), fs_failed := fs_failed f @ [rv]\<rparr>)"
    using flush_step.reject [of f rv "fs_todo (rc_flush s)" "n + 1"] assms(4) by (simp add: racy_sim_def)
  then show ?thesis using reject_assign assms(2,4)
    by (auto simp: in_sync_def one_append_def racy_sim_def split: if_splits)
qed

text \<open>The whole run; each of its states has at most one append under way.\<close>

lemma serial_run_sim:
  assumes "(\<lambda>s s'. racy_step n s s' \<and> one_append s')\<^sup>*\<^sup>* (racy_of f) s"
  shows "in_sync s \<and> (\<exists>f'. (flush_step (n + 1))\<^sup>*\<^sup>* f f' \<and> racy_sim s f')"
  using assms
proof (induction rule: rtranclp_induct)
  case base
  show ?case by (intro conjI exI [of _ f]) (simp_all add: in_sync_def one_append_def racy_of_def racy_sim_def)
next
  case (step s t)
  then obtain f' where "(flush_step (n + 1))\<^sup>*\<^sup>* f f'" "racy_sim s f'" "in_sync s" by blast
  with racy_step_sim [of n s t f'] step(2) show ?case by (meson rtranclp_trans)
qed

lemma serial_run_accounts:
  assumes "(\<lambda>s s'. racy_step n s s' \<and> one_append s')\<^sup>*\<^sup>* (racy_of (flush_start toFlush c st)) s" "racy_done s"
    "storer_ok st" "[] \<notin> rev_Key ` set toFlush" "rv \<in> set toFlush"
  shows "rev_Key rv \<in> rev_Key ` set (fs_failed (rc_flush s)) \<or> has_obj (fs_storer (rc_flush s)) (rev_Key rv)"
proof -
  obtain f where f: "(flush_step (n + 1))\<^sup>*\<^sup>* (flush_start toFlush c st) f" "racy_sim s f"
    using serial_run_sim [OF assms(1)] by blast
  then have "flush_done f" using assms(2) by (simp add: racy_sim_def racy_done_def flush_done_def)
  from flush_done_accounts [OF f(1) this assms(3-5)] f(2) show ?thesis by (simp add: racy_sim_def)
qed

end
