(* ===== verification/Flush_Props.thy ===== *)
theory Flush_Props
  imports Samples Loops Append_Race
begin

text \<open>
  The properties of the flusher, the purger and the reaper, applied to the sample store.
\<close>

section \<open>Flushing\<close>


definition sample_flusher :: flusher where
  "sample_flusher = \<lparr>fl_c = [], fl_retryCache = []\<rparr>"

definition one_flusher :: flusher where
  "one_flusher = flusher_Queue (ConcreteRevision (web_rev 9 1700000000 False) web_obj) sample_flusher"

lemma one_queue: "fl_c one_flusher
     = [(''apps/v1/Deployment/default/web'', ConcreteRevision (web_rev 9 1700000000 False) web_obj)]"
  by (simp add: one_flusher_def sample_flusher_def flusher_Queue_def Cache_Cache_def flushKeyFunc_def
      sample_keys go_put_def)

lemma sample_writes [simp]: "writes_return sample_store" "storer_ok (Plain sample_store)"
  by (simp_all add: writes_return_def storer_ok_def sample_eval fault_free_def)


text \<open>A whole flush of one revision through a semaphore with one slot.\<close>

definition web_flush :: flush_state where
  "web_flush = flush_start [ConcreteRevision (web_rev 9 1700000000 False) web_obj] [] (Plain sample_store)"

lemma web_run: "\<exists>s. (flush_step 1 ^^ 3) web_flush s \<and> flush_done s"
proof -
  let ?rv = "ConcreteRevision (web_rev 9 1700000000 False) web_obj"
  obtain r st rv' where w: "write_rev ?rv (Plain sample_store) = (r, (st, rv'))" by (metis surj_pair)
  then have nc: "\<forall>x. r \<noteq> Crash x" using write_rev_concrete by fastforce
  let ?s1 = "web_flush\<lparr>fs_todo := [], fs_running := [?rv]\<rparr>"
  from async_write_returns [OF w nc] obtain resp where
    aw: "async_write ?rv (Plain sample_store) = (Ok resp, (st, rv'))" by blast
  let ?s2 = "?s1\<lparr>fs_running := [], fs_sending := [(rv', resp_Error resp)], fs_storer := st\<rparr>"
  have 1: "flush_step 1 web_flush ?s1"
    using flush_step.spawn [of web_flush ?rv "[]" 1] by (simp add: web_flush_def flush_start_def)
  have 2: "flush_step 1 ?s1 ?s2"
    using flush_step.wrote [of ?rv ?s1 resp st rv' 1] aw
    by (simp add: web_flush_def flush_start_def)
  obtain s3 where 3: "flush_step 1 ?s2 s3" "flush_done s3"
    using flush_step.received [of rv' "resp_Error resp" ?s2 1] by (auto simp: flush_done_def web_flush_def flush_start_def)
  have "(flush_step 1 ^^ 3) web_flush s3"
    unfolding numeral_3_eq_3 using 1 2 3(1) by auto
  with 3(2) show ?thesis by blast
qed



section \<open>Appends without a lock\<close>

text \<open>C16: the appends to the list of failed revisions take no lock.  When the two revisions of a queue
  cannot be written and the semaphore has two slots, some interleaving of the flush ends with both
  gone from the queue and only one of them in the list, and so in the retry cache: the other one is
  neither stored nor queued nor retried.\<close>

theorem overlapping_appends_lose:
  assumes "queue_wf flushKeyFunc c" "Cache_SafeCopy c = [rv1, rv2]" "2 \<le> n"
    and "write_rev rv1 st = (Err e1, (st1, rv1'))" "write_rev rv2 st1 = (Err e2, (st2, rv2'))"
  shows "\<exists>s. (racy_step n)\<^sup>*\<^sup>* (racy_of (flush_start (Cache_SafeCopy c) c st)) s \<and> racy_done s
    \<and> (\<forall>k. go_get (fs_c (rc_flush s)) k = None) \<and> fs_failed (rc_flush s) = [rv2'] \<and> fs_storer (rc_flush s) = st2"
proof -
  have m: "meta rv1' = meta rv1" "meta rv2' = meta rv2" using write_rev_keeps(3) assms(4,5) by blast+
  let ?c1 = "Cache_Delete flushKeyFunc (Some rv1') c"
  have entries: "rv = rv1 \<or> rv = rv2" "flushKeyFunc rv = k" if "go_get c k = Some rv" for k rv
    using rq.copy_entries [OF assms(1), of rv] queue_wf_key [OF assms(1) that] that assms(2) by auto
  have "queue_wf flushKeyFunc ?c1" using assms(1) by (rule rq.delete_inv)
  then have "go_get (Cache_Delete flushKeyFunc (Some rv2') ?c1) k = None" for k
    using rq.entry_delete [OF assms(1), of rv1' k] rq.entry_delete [of flushKeyFunc ?c1 rv2' k] entries [of k] m
    by (cases "go_get c k") (auto simp: flushKeyFunc_def ResourceVersion_def)
  then show ?thesis using overlap_loses [OF assms(4,5,3), of c] assms(2) by auto
qed

definition broken_store :: store where
  "broken_store = sample_store\<lparr>s_backend := sample_backend\<lparr>be_bucket := sample_bucket\<lparr>faults := \<lambda>_ _. Some (ErrExternal ''unavailable'')\<rparr>\<rparr>\<rparr>"

definition two_queued :: rev_queue where
  "two_queued = [(''apps/v1/Deployment/default/web'', ConcreteRevision (web_rev 11 1700000100 False) web_obj),
     (''v1/Node/n1'', ConcreteRevision (node_rev 4 1700000000 False) web_obj)]"

theorem overlapping_appends_lose_witness:
  "\<exists>s. (racy_step 2)\<^sup>*\<^sup>* (racy_of (flush_start (Cache_SafeCopy two_queued) two_queued (Plain broken_store))) s
     \<and> racy_done s \<and> (\<forall>k. go_get (fs_c (rc_flush s)) k = None)
     \<and> fs_failed (rc_flush s) = [ConcreteRevision (node_rev 4 1700000000 False) web_obj]
     \<and> \<not> has_obj (fs_storer (rc_flush s)) ''apps/v1/Deployment/default/web/11-1700000100.json''"
proof -
  have q: "queue_wf flushKeyFunc two_queued"
    by (simp add: queue_wf_def two_queued_def flushKeyFunc_def sample_keys)
  have w: "write_rev (ConcreteRevision r u) (Plain broken_store)
      = (Err (ErrExternal ''unavailable''), (Plain broken_store, ConcreteRevision r u))" if "\<not> deleted_of r" for r u
    using that by (simp add: write_rev_def storer_Update_def ns_Update_def store_save_def broken_store_def blob_defs Deleted_def)
  have live: "\<not> deleted_of (web_rev v t False)" "\<not> deleted_of (node_rev v t False)" for v t
    by (simp_all add: web_rev_def node_rev_def)
  have c: "Cache_SafeCopy two_queued = [ConcreteRevision (web_rev 11 1700000100 False) web_obj,
      ConcreteRevision (node_rev 4 1700000000 False) web_obj]"
    by (simp add: Cache_SafeCopy_def two_queued_def)
  have none: "\<not> has_obj (Plain broken_store) ''apps/v1/Deployment/default/web/11-1700000100.json''"
    by (simp add: has_obj_def backend_objs_def broken_store_def sample_bucket_def)
  show ?thesis
    using overlapping_appends_lose [OF q c, of 2, OF _ w [OF live(1)] w [OF live(2)]] none by auto
qed

text \<open>Never more than \<open>n\<close> writes hold a slot of the semaphore, counting those whose response
  was not received.\<close>

theorem concurrent_flush_bounded:
  assumes "rtranclp (flush_step n) (flush_start toFlush c st) s" "0 \<le> n"
  shows "int (length (fs_running s) + length (fs_sending s)) \<le> n"
  using flush_slots [OF assms(1)] assms(2) by (simp add: flush_start_def)

theorem concurrent_flush_bounded_witness:
  "\<exists>s. flush_done s \<and> int (length (fs_running s) + length (fs_sending s)) \<le> 1"
proof -
  obtain s where s: "(flush_step 1 ^^ 3) web_flush s" "flush_done s" using web_run by blast
  show ?thesis
    using concurrent_flush_bounded [OF relpowp_imp_rtranclp [OF s(1) [unfolded web_flush_def]]] s(2) by auto
qed

text \<open>C30: a concurrent flush of \<open>m\<close> revisions takes at most \<open>3 m\<close> steps, and with a slot in the
  semaphore and no panicking write it is never stuck before it is done.\<close>

theorem concurrent_flush_ends:
  assumes "(flush_step n ^^ m) (flush_start toFlush c st) s" "1 \<le> n"
    "\<forall>rv \<in> set (fs_running s). \<forall>x. fst (write_rev rv (fs_storer s)) \<noteq> Crash x"
  shows "m \<le> 3 * length toFlush
     \<and> (flush_done s \<or> (\<exists>s'. flush_step n s s' \<and> (fs_todo s' = fs_todo s \<or> fs_running s' \<noteq> fs_running s)))"
  using flush_run_length [OF assms(1)] flush_progress_slot [OF _ assms(2,3)]
  by (auto simp: flush_measure_def flush_start_def)

theorem concurrent_flush_ends_witness:
  "\<exists>s. flush_step 1 web_flush s"
proof -
  have r: "(flush_step 1 ^^ 0) (flush_start [ConcreteRevision (web_rev 9 1700000000 False) web_obj] []
      (Plain sample_store)) web_flush" by (simp add: web_flush_def)
  have n: "\<not> flush_done web_flush" "\<forall>rv \<in> set (fs_running web_flush). \<forall>x.
      fst (write_rev rv (fs_storer web_flush)) \<noteq> Crash x"
    by (simp_all add: web_flush_def flush_done_def flush_start_def)
  from concurrent_flush_ends [OF r _ n(2)] n(1) show ?thesis by fastforce
qed

text \<open>C37: nothing ever leaves the retry cache: after any number of ticks of the two tickers, in any order,
  whether their writes succeed or not, each of its entries is still there, in the same or a later
  version.\<close>

theorem retry_cache_never_shrinks:
  assumes "flusher_loop ticks f st = (Ok (), (f', st'))" "queue_wf errorKeyFunc (fl_retryCache f)"
    "go_get (fl_retryCache f) k = Some rv"
  shows "\<exists>rv'. go_get (fl_retryCache f') k = Some rv' \<and> ResourceVersion rv \<le> ResourceVersion rv'"
  by (rule loop_retries [OF assms])

definition retrying_flusher :: flusher where
  "retrying_flusher = \<lparr>fl_c = [], fl_retryCache =
     [(''apps/v1/Deployment/default/web/9-1700000000.json'',
       ConcreteRevision (web_rev 9 1700000000 False) web_obj)]\<rparr>"

theorem retry_cache_never_shrinks_witness:
  "\<exists>f' st'. flusher_tick True retrying_flusher (Plain sample_store) = (Ok (), (f', st'))
     \<and> go_get (fl_retryCache f') ''apps/v1/Deployment/default/web/9-1700000000.json'' \<noteq> None"
proof -
  let ?q = "Cache_SafeCopy (fl_retryCache retrying_flusher)"
  have "\<forall>rv \<in> set ?q. \<exists>r u. rv = ConcreteRevision r u"
    by (simp add: retrying_flusher_def Cache_SafeCopy_def)
  then obtain failed c st' where
    "flush_loop ?q [] (fl_c retrying_flusher) (Plain sample_store) = (Ok failed, (c, st'))"
    using flush_loop_concrete [of ?q "Plain sample_store"] by fastforce
  then obtain f' where t: "flusher_tick True retrying_flusher (Plain sample_store) = (Ok (), (f', st'))"
    by (simp add: flusher_tick_def Let_def)
  have q: "queue_wf errorKeyFunc (fl_retryCache retrying_flusher)"
    by (simp add: retrying_flusher_def queue_wf_def errorKeyFunc_def sample_keys)
  have l: "flusher_loop [True] retrying_flusher (Plain sample_store) = (Ok (), (f', st'))" by (simp add: t)
  from retry_cache_never_shrinks [OF l q, of "''apps/v1/Deployment/default/web/9-1700000000.json''"]
    t show ?thesis by (auto simp: retrying_flusher_def)
qed

section \<open>Purging\<close>

text \<open>C18: a tick of the purger removes from the backend exactly the queued revisions it can remove;
  these and only these leave the queue, and the tick itself never fails.\<close>

theorem purge_exact:
  assumes "queue_wf purgeKeyFunc (pu_c p)"
    "\<forall>rv \<in> set (Cache_SafeCopy (pu_c p)). valid_revision (meta rv)"
    "be_provider (s_backend (storer_base st)) \<noteq> S3Provider"
  defines "b \<equiv> s_backend (storer_base st)"
  shows "\<exists>p' st'. purger_purge p st = (Ok (), (p', st'))
     \<and> (\<forall>k. go_get (pu_c p') k = (if removable b k then None else go_get (pu_c p) k))
     \<and> (\<forall>k. backend_objs (s_backend (storer_base st')) k =
          (if go_get (pu_c p) k \<noteq> None \<and> removable b k then None else backend_objs b k))"
  unfolding b_def by (rule purger_purge_spec [OF assms(1-3)])

definition web_purger :: purger where
  "web_purger = \<lparr>pu_c = [(''apps/v1/Deployment/default/web/9-1700000000.json'',
     LazyLoadingRevision (web_rev 9 1700000000 False) None)]\<rparr>"

theorem purge_exact_witness:
  "\<exists>p' st'. purger_purge web_purger (Plain sample_store) = (Ok (), (p', st'))
     \<and> go_get (pu_c p') ''apps/v1/Deployment/default/web/9-1700000000.json'' = None
     \<and> backend_objs (s_backend (storer_base st')) ''apps/v1/Deployment/default/web/9-1700000000.json'' = None"
proof -
  let ?k = "''apps/v1/Deployment/default/web/9-1700000000.json''"
  have b: "s_backend sample_store = sample_backend" by (simp add: sample_store_def)
  have rem: "removable sample_backend ?k"
    by (simp add: removable_def sample_eval backend_objs_def)
  have wf: "queue_wf purgeKeyFunc (pu_c web_purger)" "go_get (pu_c web_purger) ?k \<noteq> None"
    "\<forall>rv \<in> set (Cache_SafeCopy (pu_c web_purger)). valid_revision (meta rv)"
    by (simp_all add: web_purger_def queue_wf_def purgeKeyFunc_def sample_keys Cache_SafeCopy_def)
  have "be_provider (s_backend (storer_base (Plain sample_store))) \<noteq> S3Provider"
    by (simp add: sample_eval S3Provider_def)
  from purge_exact [OF wf(1,3) this] obtain p' st' where
    "purger_purge web_purger (Plain sample_store) = (Ok (), (p', st'))"
    "go_get (pu_c p') ?k = (if removable sample_backend ?k then None else go_get (pu_c web_purger) ?k)"
    "backend_objs (s_backend (storer_base st')) ?k =
      (if go_get (pu_c web_purger) ?k \<noteq> None \<and> removable sample_backend ?k then None
       else backend_objs sample_backend ?k)" by (auto simp: b)
  with rem wf(2) show ?thesis by auto
qed

section \<open>Reaping\<close>

text \<open>C17: for a policy with defaults and without label selectors, the reaper queues for removal
  exactly the revisions older than their rule allows, leaving out the last of each list in the
  state when it is not deleted.\<close>

theorem reap_queues_expired:
  assumes "plain_policy pol" "storer_State reap_options st = (Ok (state, None), st')"
    "pu_c p = Cache_New"
  shows "\<exists>p'. reap pol (\<lambda>_. now) p st = (Ok (), (p', st'))
     \<and> (\<forall>k. case go_get (pu_c p') k of
          None \<Rightarrow> \<forall>rv \<in> set (reap_due pol now st' state). rev_Key rv \<noteq> k
        | Some rv \<Rightarrow> rv \<in> set (reap_due pol now st' state) \<and> rev_Key rv = k)"
  using reap_queue [OF assms(1,2)] purger_queue_all [OF assms(3)] by blast

text \<open>A policy with one rule for everything that keeps a second of history.\<close>

definition short_policy :: BackupPolicy where
  "short_policy = \<lparr>bp_Rules = [\<lparr>br_APIGroups = [], br_Resources = [], br_ResourceNames = [],
       br_Namespaces = [], br_Fields = [''metadata.name''], br_LabelSelector = None, br_RPOPolicy = None\<rparr>],
     bp_Fields = [], bp_RPOPolicy = Some \<lparr>PurgeOlderThan = second, RPO = second\<rparr>\<rparr>"

definition idle_purger :: purger where "idle_purger = \<lparr>pu_c = Cache_New\<rparr>"

lemma short_plain [simp]: "plain_policy short_policy"
  by (simp add: plain_policy_def short_policy_def)

lemma short_rule: "fst (storer_RuleFor short_policy rv st) = Ok (Some
     \<lparr>br_APIGroups = [], br_Resources = [], br_ResourceNames = [],
       br_Namespaces = [], br_Fields = [''metadata.name''], br_LabelSelector = None,
       br_RPOPolicy = Some \<lparr>PurgeOlderThan = second, RPO = second\<rparr>\<rparr>)"
  by (simp add: storer_RuleFor_def RuleFor_def short_policy_def label_match_def name_match_def
      namespace_match_def resources_match_def group_match_def list_match_def fill_defaults_def second_def)

lemma sample_reap_state:
  "store_State reap_options sample_store = (Ok (
     [(''apps/v1/Deployment/default/web'',
        [LazyLoadingRevision (web_rev 10 1700000060 False) None,
         LazyLoadingRevision (web_rev 9 1700000000 False) None]),
      (''v1/Node/n1'', [LazyLoadingRevision (node_rev 4 1700000000 True) None])], None), sample_store)"
proof -
  have m: "state_matches reap_options rv" for rv
    by (simp add: state_matches_def state_skips_def state_passes_def reap_options_def)
  show ?thesis
    using store_State_fold [of sample_store reap_options]
    by (simp add: reap_options_def [THEN arg_cong [of _ _ so_LabelSelector]]
        reap_options_def [THEN arg_cong [of _ _ so_AllRevisions]]
        sample_store_def [THEN arg_cong [of _ _ s_backend]] sample_revs
        state_step_def m state_wanted_def state_add_def sample_keys go_put_def)
qed

lemma sample_storer_state:
  "storer_State reap_options (Plain sample_store) = (Ok (
     [(''apps/v1/Deployment/default/web'',
        [LazyLoadingRevision (web_rev 10 1700000060 False) None,
         LazyLoadingRevision (web_rev 9 1700000000 False) None]),
      (''v1/Node/n1'', [LazyLoadingRevision (node_rev 4 1700000000 True) None])], None), Plain sample_store)"
  by (simp add: storer_State_def sample_reap_state)

lemma sample_due:
  "reap_due short_policy (time_unix 1700100000) (Plain sample_store)
     [(''apps/v1/Deployment/default/web'',
        [LazyLoadingRevision (web_rev 10 1700000060 False) None,
         LazyLoadingRevision (web_rev 9 1700000000 False) None]),
      (''v1/Node/n1'', [LazyLoadingRevision (node_rev 4 1700000000 True) None])]
   = [LazyLoadingRevision (web_rev 10 1700000060 False) None,
      LazyLoadingRevision (node_rev 4 1700000000 True) None]"
  by (simp add: reap_due_def reap_candidates_def expired_def short_rule second_def after_def
      RevisionTimestamp_def Deleted_def web_rev_def node_rev_def time_unix_def)

theorem reap_queues_expired_witness:
  "\<exists>p'. reap short_policy (\<lambda>_. time_unix 1700100000) idle_purger (Plain sample_store)
       = (Ok (), (p', Plain sample_store))
     \<and> go_get (pu_c p') ''apps/v1/Deployment/default/web/9-1700000000.json'' = None"
proof -
  let ?k = "''apps/v1/Deployment/default/web/9-1700000000.json''"
  have "pu_c idle_purger = Cache_New" by (simp add: idle_purger_def)
  from reap_queues_expired [OF short_plain sample_storer_state this, of "time_unix 1700100000",
      unfolded sample_due]
  obtain p' where p': "reap short_policy (\<lambda>_. time_unix 1700100000) idle_purger (Plain sample_store)
       = (Ok (), (p', Plain sample_store))"
    "case go_get (pu_c p') ?k of
          None \<Rightarrow> \<forall>rv \<in> set [LazyLoadingRevision (web_rev 10 1700000060 False) None,
      LazyLoadingRevision (node_rev 4 1700000000 True) None]. rev_Key rv \<noteq> ?k
        | Some rv \<Rightarrow> rv \<in> set [LazyLoadingRevision (web_rev 10 1700000060 False) None,
      LazyLoadingRevision (node_rev 4 1700000000 True) None] \<and> rev_Key rv = ?k" by blast
  have "go_get (pu_c p') ?k = None"
  proof (cases "go_get (pu_c p') ?k")
    case (Some rv)
    then show ?thesis using p'(2) by (auto simp: sample_keys)
  qed
  then show ?thesis using p'(1) by blast
qed

text \<open>With the cache enabled, the reaper never queues the newest revision of a resource while it
  is live, whatever the policy and the clock.\<close>

theorem reap_spares_newest:
  assumes "reap pol clock p (ReadWrite s) = (Ok (), (p', st'))" "pu_c p = Cache_New"
    "cache_wf (rw_reader s)" "cached (rw_reader s) k v = Some rv" "\<not> Deleted rv"
    "\<forall>v'. cached (rw_reader s) k v' \<noteq> None \<longrightarrow> v' \<le> v"
  shows "\<forall>key x. go_get (pu_c p') key = Some x \<longrightarrow> \<not> (rev_ResourceKey x = k \<and> ResourceVersion x = v)"
  using reap_keeps_newest [OF assms] by blast

definition cached_store :: rw_store where
  "cached_store = \<lparr>rw_storer = sample_store, rw_reader =
     cache_Set (LazyLoadingRevision (web_rev 9 1700000000 False) None)
       (cache_Set (LazyLoadingRevision (web_rev 10 1700000060 False) None) NewInMemoryGetter),
     rw_writeSemaphore = None\<rparr>"

theorem reap_spares_newest_witness:
  "\<exists>p' st'. reap short_policy (\<lambda>_. time_unix 1700100000) idle_purger (ReadWrite cached_store) = (Ok (), (p', st'))
     \<and> (\<forall>key x. go_get (pu_c p') key = Some x
          \<longrightarrow> \<not> (rev_ResourceKey x = ''apps/v1/Deployment/default/web'' \<and> ResourceVersion x = 10))"
proof -
  have wf: "cache_wf (rw_reader cached_store)" by (simp add: cached_store_def)
  from mem_state_all [OF this] obtain state where "mem_State reap_options (rw_reader cached_store) = Ok state"
    by blast
  then have "storer_State reap_options (ReadWrite cached_store) = (Ok (state, None), ReadWrite cached_store)"
    by (simp add: storer_State_def rw_State_def)
  moreover have p: "pu_c idle_purger = Cache_New" by (simp add: idle_purger_def)
  ultimately obtain p' where r: "reap short_policy (\<lambda>_. time_unix 1700100000) idle_purger (ReadWrite cached_store)
      = (Ok (), (p', ReadWrite cached_store))"
    using reap_queue [OF short_plain] by blast
  have c: "cached (rw_reader cached_store) ''apps/v1/Deployment/default/web'' v =
     (if v = 9 then Some (LazyLoadingRevision (web_rev 9 1700000000 False) None)
      else if v = 10 then Some (LazyLoadingRevision (web_rev 10 1700000060 False) None) else None)" for v
    by (simp add: cached_store_def sample_keys) (simp add: ResourceVersion_def web_rev_def)
  have d: "\<not> Deleted (LazyLoadingRevision (web_rev 10 1700000060 False) None)"
    by (simp add: Deleted_def web_rev_def)
  show ?thesis
    using reap_spares_newest [OF r p wf, of "''apps/v1/Deployment/default/web''" 10] c d r by auto
qed


end
