(* ===== verification/Controller.thy ===== *)
theory Controller
  imports Purger Config_Store
begin

text \<open>
  pkg/controller/controller.go: the operator.  Discovery chooses the resources to watch, an
  informer puts every change on a work queue, and a worker decides for each item whether a new
  revision is queued for the flusher.  The informers, the Kubernetes API and the HTTP server
  are not modelled; the informers' stores are in the resource handlers.
\<close>

section \<open>The operator\<close>

text \<open>
  The items of a work queue: an object, an update, and the last known state of an object whose
  deletion the watch missed.
\<close>

datatype work_item =
    WorkObject object
  | WorkPair object object
  | WorkDeletedFinalState object

record operator =
  op_handlers :: "work_item ResourceHandlers"
  op_store :: storer
  op_policy :: BackupPolicy
  op_flusher :: flusher
  op_purger :: purger
  op_reapInterval :: int
  op_threadiness :: int
  op_metricsHandler :: string
  op_readinessHandler :: string
  op_httpServerPort :: int
  op_ready :: bool

definition DefaultReapInterval :: int where "DefaultReapInterval = 3600 * second"

section \<open>Discovery\<close>

definition required_verbs :: "string list" where
  "required_verbs = [''delete'', ''get'', ''list'', ''patch'', ''create'', ''update'', ''watch'']"

definition supports_all_verbs :: "APIResource \<Rightarrow> bool" where
  "supports_all_verbs a = list_all (\<lambda>v. sliceutil_In (ar_Verbs a) v) required_verbs"

definition rule_selects :: "BackupRule \<Rightarrow> string \<Rightarrow> APIResource \<Rightarrow> bool" where
  "rule_selects rule groupVersion a \<longleftrightarrow>
     (br_APIGroups rule = [] \<or> sliceutil_In (br_APIGroups rule) groupVersion
        \<or> hd (br_APIGroups rule) = ''*'')
     \<and> (br_Resources rule = [] \<or> sliceutil_In (br_Resources rule) (ar_Name a)
        \<or> hd (br_Resources rule) = ''*'')"

definition all_namespaces :: "BackupRule \<Rightarrow> bool" where
  "all_namespaces rule \<longleftrightarrow> br_Namespaces rule = [] \<or> hd (br_Namespaces rule) = ''*''"

text \<open>
  The loop over the rules for one resource: a rule for all namespaces replaces the clients found
  so far and ends the loop, any other adds a client per namespace.
\<close>

fun rules_clients :: "GroupVersion \<Rightarrow> string \<Rightarrow> APIResource \<Rightarrow> BackupRule list \<Rightarrow> Dynamic list option
    \<Rightarrow> Dynamic list option" where
  "rules_clients gv groupVersion a [] clients = clients"
| "rules_clients gv groupVersion a (rule # rules) clients =
     (if rule_selects rule groupVersion a then
        if all_namespaces rule
        then Some [ClientForGroupVersionResource gv (ar_Name a) (ar_Kind a) []]
        else rules_clients gv groupVersion a rules
          (Some ((case clients of None \<Rightarrow> [] | Some cs \<Rightarrow> cs)
             @ map (ClientForGroupVersionResource gv (ar_Name a) (ar_Kind a)) (br_Namespaces rule)))
      else rules_clients gv groupVersion a rules clients)"

definition dynamics_key :: "GroupVersion \<Rightarrow> APIResource \<Rightarrow> string" where
  "dynamics_key gv a = gv_string gv @ ''/'' @ ar_Name a"

fun resources_loop :: "BackupPolicy \<Rightarrow> GroupVersion \<Rightarrow> string \<Rightarrow> APIResource list
    \<Rightarrow> (string, Dynamic list) go_map \<Rightarrow> (string, Dynamic list) go_map" where
  "resources_loop pol gv groupVersion [] dynamics = dynamics"
| "resources_loop pol gv groupVersion (a # resources) dynamics =
     (if \<not> supports_all_verbs a then resources_loop pol gv groupVersion resources dynamics
      else
        let key = dynamics_key gv a in
        resources_loop pol gv groupVersion resources
          (case rules_clients gv groupVersion a (bp_Rules pol) (go_get dynamics key) of
             None \<Rightarrow> dynamics
           | Some clients \<Rightarrow> go_put key clients dynamics))"

fun groups_loop :: "BackupPolicy \<Rightarrow> APIResourceList list \<Rightarrow> (string, Dynamic list) go_map
    \<Rightarrow> (string, Dynamic list) go_map result" where
  "groups_loop pol [] dynamics = Ok dynamics"
| "groups_loop pol (r # groups) dynamics =
     result_bind (ParseGroupVersion (arl_GroupVersion r)) (\<lambda>gv.
       groups_loop pol groups
         (resources_loop pol gv (arl_GroupVersion r) (arl_APIResources r) dynamics))"

text \<open>Of the clients of one resource the first per namespace is kept.\<close>

fun unique_namespaces :: "Dynamic list \<Rightarrow> string list \<Rightarrow> Dynamic list" where
  "unique_namespaces [] namespaces = []"
| "unique_namespaces (client # clients) namespaces =
     (if dyn_namespace client \<in> set namespaces then unique_namespaces clients namespaces
      else client # unique_namespaces clients (dyn_namespace client # namespaces))"

definition getDynamics :: "BackupPolicy \<Rightarrow> APIResourceList list \<Rightarrow> Dynamic list result" where
  "getDynamics pol apiResources =
     result_bind (groups_loop pol apiResources []) (\<lambda>dynamics.
       Ok (concat (map (\<lambda>(k, clients). unique_namespaces clients []) dynamics)))"

section \<open>Watching\<close>

definition queue_name :: "Dynamic \<Rightarrow> string" where
  "queue_name client =
     (let gv = dyn_gv client;
          n = gv_version gv @ ''_'' @ dyn_kind client;
          n = (if gv_group gv \<noteq> [] then gv_group gv @ ''_'' @ n else n);
          n = (if dyn_namespace client \<noteq> [] then n @ ''_'' @ dyn_namespace client else n)
      in replace_char CHR ''.'' CHR ''_'' (replace_char CHR ''-'' CHR ''_'' n))"

text \<open>The informer of a client starts with an empty store.\<close>

definition watchDynamic :: "Dynamic \<Rightarrow> operator \<Rightarrow> operator" where
  "watchDynamic client opr =
     opr\<lparr>op_handlers := handlers_Set (gv_string (dyn_gv client)) (dyn_kind client)
        (dyn_namespace client)
        \<lparr>rh_store = [], rh_keyErr = (\<lambda>_. None), rh_queue = [], rh_client = client\<rparr>
        (op_handlers opr)\<rparr>"

text \<open>What the informer's event handlers put on the queue.\<close>

datatype watch_event = Added object | Updated object object | DeletedEvent work_item

primrec event_item :: "watch_event \<Rightarrow> work_item" where
  "event_item (Added obj) = WorkObject obj"
| "event_item (Updated old new) = WorkPair old new"
| "event_item (DeletedEvent item) = item"

definition handler_event ::
    "watch_event \<Rightarrow> work_item ResourceHandler \<Rightarrow> work_item ResourceHandler" where
  "handler_event ev h = h\<lparr>rh_queue := rh_queue h @ [event_item ev]\<rparr>"

section \<open>Construction\<close>

datatype operator_option =
    WithBackupPolicy BackupPolicy
  | WithStorer storer
  | WithThreadiness int
  | WithFlusher flusher
  | WithPurger purger
  | WithReaper
  | WithReapInterval int
  | WithMetricsHandler string
  | WithReadinessHandler string
  | WithHTTPServerPort int

record operator_builder =
  ob_policy :: BackupPolicy
  ob_store :: "storer option"
  ob_flusher :: "flusher option"
  ob_purger :: "purger option"
  ob_reaper :: bool
  ob_reapInterval :: int
  ob_threadiness :: int
  ob_metricsHandler :: string
  ob_readinessHandler :: string
  ob_httpServerPort :: int

primrec apply_operator_option :: "operator_option \<Rightarrow> operator_builder \<Rightarrow> operator_builder" where
  "apply_operator_option (WithBackupPolicy b) o' = o'\<lparr>ob_policy := b\<rparr>"
| "apply_operator_option (WithStorer s) o' = o'\<lparr>ob_store := Some s\<rparr>"
| "apply_operator_option (WithThreadiness n) o' = o'\<lparr>ob_threadiness := n\<rparr>"
| "apply_operator_option (WithFlusher f) o' = o'\<lparr>ob_flusher := Some f\<rparr>"
| "apply_operator_option (WithPurger p) o' = o'\<lparr>ob_purger := Some p\<rparr>"
| "apply_operator_option WithReaper o' = o'\<lparr>ob_reaper := True\<rparr>"
| "apply_operator_option (WithReapInterval d) o' = o'\<lparr>ob_reapInterval := d\<rparr>"
| "apply_operator_option (WithMetricsHandler p) o' = o'\<lparr>ob_metricsHandler := p\<rparr>"
| "apply_operator_option (WithReadinessHandler p) o' = o'\<lparr>ob_readinessHandler := p\<rparr>"
| "apply_operator_option (WithHTTPServerPort n) o' = o'\<lparr>ob_httpServerPort := n\<rparr>"

definition empty_policy :: BackupPolicy where
  "empty_policy = \<lparr>bp_Rules = [], bp_Fields = [], bp_RPOPolicy = None\<rparr>"

definition or_fatal :: "string \<Rightarrow> 'a result \<Rightarrow> 'a result" where
  "or_fatal msg r = (case r of Err e \<Rightarrow> Crash (Fatal msg) | _ \<Rightarrow> r)"

text \<open>
  \<open>apiResources\<close> is the answer of the discovery client.  The purger's interval is the policy's RPO,
  read through a pointer that may be nil.  A reaper keeps no state of its own: an option only says
  that one is given, and none is started.
\<close>

definition operator_New :: "config_codec \<Rightarrow> APIResourceList list result \<Rightarrow> operator_option list
    \<Rightarrow> operator result" where
  "operator_New codec apiResources options =
     (let ob = fold apply_operator_option options
            \<lparr>ob_policy = empty_policy, ob_store = None, ob_flusher = None, ob_purger = None,
             ob_reaper = False, ob_reapInterval = DefaultReapInterval, ob_threadiness = 4, ob_metricsHandler = [],
             ob_readinessHandler = [], ob_httpServerPort = 0\<rparr>
      in case ob_store ob of
           None \<Rightarrow> Crash (Fatal ''storer must be set'')
         | Some st \<Rightarrow>
     result_bind (case ob_flusher ob of Some f \<Rightarrow> Ok f | None \<Rightarrow> flusher_New (ob_policy ob)) (\<lambda>fl.
     result_bind (case ob_purger ob of
         Some p \<Rightarrow> Ok p
       | None \<Rightarrow> (case bp_RPOPolicy (ob_policy ob) of
           None \<Rightarrow> Crash nil_deref | Some p \<Rightarrow> purger_New (RPO p))) (\<lambda>pu.
     result_bind (if ob_reaper ob then Ok () else NewTicker (ob_reapInterval ob)) (\<lambda>_.
     result_bind (or_fatal ''discovering resources'' apiResources) (\<lambda>apiResources.
     case WriteConfig codec \<lparr>cfg_Resources = apiResources, cfg_Version = 0\<rparr>
         (s_backend (storer_base st)) of (wr, b) \<Rightarrow>
     result_bind (or_fatal ''writing config'' wr) (\<lambda>_.
     result_bind (or_fatal ''flattening desired api resources to dynamic clients''
         (getDynamics (ob_policy ob) apiResources)) (\<lambda>dynamics.
       Ok (fold watchDynamic dynamics
         \<lparr>op_handlers = [], op_store = set_base ((storer_base st)\<lparr>s_backend := b\<rparr>) st,
          op_policy = ob_policy ob, op_flusher = fl, op_purger = pu,
          op_reapInterval = ob_reapInterval ob, op_threadiness = ob_threadiness ob,
          op_metricsHandler = ob_metricsHandler ob, op_readinessHandler = ob_readinessHandler ob,
          op_httpServerPort = ob_httpServerPort ob, op_ready = False\<rparr>))))))))"

text \<open>\<open>policy_file\<close> is the outcome of opening and decoding the configured policy.\<close>

definition operator_NewFromEnv :: "config_codec \<Rightarrow> APIResourceList list result \<Rightarrow> storer result
    \<Rightarrow> BackupPolicy result \<Rightarrow> (string \<Rightarrow> string) \<Rightarrow> (string \<Rightarrow> int) \<Rightarrow> operator result" where
  "operator_NewFromEnv codec apiResources new_store policy_file getString getInt =
     result_bind (case new_store of Err e \<Rightarrow> Err (ErrWrap ''creating store'' e) | r \<Rightarrow> r) (\<lambda>s.
     result_bind (case policy_file of Err e \<Rightarrow> Err (ErrWrap ''config file'' e) | r \<Rightarrow> r) (\<lambda>b.
       operator_New codec apiResources
         [WithBackupPolicy b, WithStorer s, WithReapInterval (getInt ''reap-interval''),
          WithThreadiness (getInt ''threadiness''), WithReadinessHandler (getString ''readiness-handler''),
          WithMetricsHandler (getString ''metrics-handler''), WithHTTPServerPort (getInt ''port'')]))"

section \<open>Synchronising the store\<close>

definition syncStore :: "operator \<Rightarrow> unit result \<times> operator" where
  "syncStore opr =
     (let (r, st) = storer_Sync (op_handlers opr) (op_store opr) in
      on_ok (r, opr\<lparr>op_store := st\<rparr>) (\<lambda>(state, revsToDelete) opr.
        (Ok (), opr\<lparr>op_flusher := fold (\<lambda>rv. flusher_Queue (SetDeleted True rv)) revsToDelete
                    (op_flusher opr)\<rparr>)))"

text \<open>The start of \<open>Run\<close>: \<open>synced\<close> is whether the informers' caches filled.\<close>

definition run_start :: "bool \<Rightarrow> operator \<Rightarrow> unit result \<times> operator" where
  "run_start synced opr =
     (if \<not> synced then (Err (ErrMsg ''failed to wait for caches to sync''), opr)
      else case syncStore opr of
        (Ok _, opr) \<Rightarrow> (Ok (), opr\<lparr>op_ready := True\<rparr>)
      | (Err e, opr) \<Rightarrow> (Err (ErrWrap ''syncing store'' e), opr)
      | (Crash c, opr) \<Rightarrow> (Crash c, opr))"

definition readiness :: "operator \<Rightarrow> int \<times> string" where
  "readiness opr = (if op_ready opr then (200, ''ok'') else (503, ''saiki is still initializing''))"

section \<open>Work items\<close>

fun fields_differ :: "object \<Rightarrow> object \<Rightarrow> string list \<Rightarrow> bool result" where
  "fields_differ oldContent newContent [] = Ok False"
| "fields_differ oldContent newContent (field # checkFields) =
     (let path = split_on CHR ''.'' field in
      case NestedFieldNoCopy oldContent path of
        Crash c \<Rightarrow> Crash c
      | Err e \<Rightarrow> fields_differ oldContent newContent checkFields
      | Ok (ov, oldFound) \<Rightarrow>
          (case NestedFieldNoCopy newContent path of
             Crash c \<Rightarrow> Crash c
           | Err e \<Rightarrow> fields_differ oldContent newContent checkFields
           | Ok (nv, newFound) \<Rightarrow>
               if oldFound \<noteq> newFound then Ok True
               else if \<not> deep_equal ov nv then Ok True
               else fields_differ oldContent newContent checkFields))"

definition different :: "Revision option \<Rightarrow> Revision \<Rightarrow> string list \<Rightarrow> storer
    \<Rightarrow> bool result \<times> storer" where
  "different old_rev new_rev checkFields st =
     (case old_rev of
        None \<Rightarrow> (Ok True, st)
      | Some old \<Rightarrow>
          if ResourceVersion old = ResourceVersion new_rev then (Ok False, st)
          else case storer_Content old st of
            (Crash c, (st, _)) \<Rightarrow> (Crash c, st)
          | (Err e, (st, _)) \<Rightarrow> (Ok True, st)
          | (Ok oldContent, (st, _)) \<Rightarrow>
              (case storer_Content new_rev st of
                 (Crash c, (st, _)) \<Rightarrow> (Crash c, st)
               | (Err e, (st, _)) \<Rightarrow> (Ok True, st)
               | (Ok newContent, (st, _)) \<Rightarrow>
                   (fields_differ oldContent newContent checkFields, st)))"

definition handleResourceFilter :: "Revision \<Rightarrow> BackupRule \<Rightarrow> storer
    \<Rightarrow> bool result \<times> (storer \<times> Revision)" where
  "handleResourceFilter rv rule st =
     (if length (br_ResourceNames rule) > 0 \<and> \<not> sliceutil_In (br_ResourceNames rule) (Name rv)
      then (Ok True, (st, rv))
      else case br_LabelSelector rule of
        None \<Rightarrow> (Ok False, (st, rv))
      | Some sel \<Rightarrow>
          (case storer_Content rv st of
             (Err e, s) \<Rightarrow> (Ok True, s)
           | (Crash c, s) \<Rightarrow> (Crash c, s)
           | (Ok content, s) \<Rightarrow> (Ok (\<not> sel (GetLabels content)), s)))"

text \<open>The informer's store computes the key of the object it is given.\<close>

definition handleDeletion :: "work_item ResourceHandler \<Rightarrow> Revision \<Rightarrow> flusher \<Rightarrow> bool \<times> flusher" where
  "handleDeletion h rv fl =
     (case GetByKey h (meta_namespace_key (Namespace rv) (Name rv)) of
        Ok (Some _) \<Rightarrow> (False, fl)
      | _ \<Rightarrow> (True, flusher_Queue (SetDeleted True rv) fl))"

definition handleRotation :: "Revision \<Rightarrow> BackupRule \<Rightarrow> operator \<Rightarrow> unit result \<times> operator" where
  "handleRotation rv rule opr =
     (case br_RPOPolicy rule of
        None \<Rightarrow> (Ok (), opr)
      | Some p \<Rightarrow>
          (case Rotate (op_store opr) rv p of
             Err e \<Rightarrow> (Ok (), opr)
           | Crash c \<Rightarrow> (Crash c, opr)
           | Ok revsToPurge \<Rightarrow>
               (Ok (), opr\<lparr>op_purger := fold purger_Queue revsToPurge (op_purger opr)\<rparr>)))"

text \<open>The revisions of a work item: the old one if the watch gave it, and the new one.\<close>

definition item_revisions :: "gotime \<Rightarrow> work_item \<Rightarrow> Revision option \<times> Revision" where
  "item_revisions now item = (case item of
     WorkDeletedFinalState obj \<Rightarrow> (None, RevisionFrom now obj)
   | WorkObject obj \<Rightarrow> (None, RevisionFrom now obj)
   | WorkPair old new \<Rightarrow> (Some (RevisionFrom now old), RevisionFrom now new))"

definition processUnstructured :: "gotime \<Rightarrow> work_item \<Rightarrow> operator \<Rightarrow> bool result \<times> operator" where
  "processUnstructured now item opr =
     (case item_revisions now item of (old, u) \<Rightarrow>
      case storer_RuleFor (op_policy opr) u (op_store opr) of (r, (st, u)) \<Rightarrow>
      on_ok (r, opr\<lparr>op_store := st\<rparr>) (\<lambda>rule_opt opr.
      case rule_opt of
        None \<Rightarrow> (Ok True, opr)
      | Some rule \<Rightarrow>
      (case handleResourceFilter u rule (op_store opr) of (r, (st, u)) \<Rightarrow>
      on_ok (r, opr\<lparr>op_store := st\<rparr>) (\<lambda>filtered opr.
      if filtered then (Ok True, opr)
      else case HandlerFor (op_handlers opr) (APIVersion u) (Kind u) (Namespace u) of
        None \<Rightarrow> (Ok True, opr)
      | Some h \<Rightarrow>
      (case handleDeletion h u (op_flusher opr) of (gone, fl) \<Rightarrow>
      if gone then (Ok True, opr\<lparr>op_flusher := fl\<rparr>)
      else
        case (case old of
                Some x \<Rightarrow> (Ok (Some x), op_store opr)
              | None \<Rightarrow> (case storer_Get u (op_store opr) of
                  (Ok got, st) \<Rightarrow> (Ok got, st)
                | (Err e, st) \<Rightarrow> (Ok None, st)
                | (Crash c, st) \<Rightarrow> (Crash c, st))) of (r, st) \<Rightarrow>
        on_ok (r, opr\<lparr>op_store := st\<rparr>) (\<lambda>old opr.
        case different old u (br_Fields rule) (op_store opr) of (r, st) \<Rightarrow>
        on_ok (r, opr\<lparr>op_store := st\<rparr>) (\<lambda>diff opr.
        if \<not> diff then (Ok True, opr)
        else on_ok (handleRotation u rule
                      (opr\<lparr>op_flusher := flusher_Queue u (op_flusher opr)\<rparr>))
               (\<lambda>_ opr. (Ok True, opr)))))))))"

text \<open>A worker takes the next item of a queue; an empty queue that shut down ends it.\<close>

definition processNextWorkItem :: "gotime \<Rightarrow> work_item option \<Rightarrow> operator \<Rightarrow> bool result \<times> operator" where
  "processNextWorkItem now next opr = (case next of
     None \<Rightarrow> (Ok False, opr)
   | Some item \<Rightarrow> processUnstructured now item opr)"

fun runWorker :: "gotime \<Rightarrow> work_item list \<Rightarrow> operator \<Rightarrow> unit result \<times> operator" where
  "runWorker now [] opr = on_ok (processNextWorkItem now None opr) (\<lambda>_ opr. (Ok (), opr))"
| "runWorker now (item # items) opr =
     on_ok (processNextWorkItem now (Some item) opr) (\<lambda>more opr.
       if more then runWorker now items opr else (Ok (), opr))"

section \<open>When a revision is new\<close>

text \<open>A field that can be read in both objects and is not the same in them.\<close>

definition field_changed :: "object \<Rightarrow> object \<Rightarrow> string \<Rightarrow> bool" where
  "field_changed old new field =
     (case (NestedFieldNoCopy old (split_on CHR ''.'' field),
            NestedFieldNoCopy new (split_on CHR ''.'' field)) of
        (Ok (ov, oldFound), Ok (nv, newFound)) \<Rightarrow> oldFound \<noteq> newFound \<or> \<not> deep_equal ov nv
      | _ \<Rightarrow> False)"

lemma NestedField_no_crash: "NestedFieldNoCopy obj fs \<noteq> Crash c"
  unfolding NestedFieldNoCopy_def by (rule nested_field_no_crash)

lemma fields_differ_spec: "fields_differ old new fs = Ok (\<exists>f \<in> set fs. field_changed old new f)"
proof (induction fs)
  case (Cons f fs)
  let ?o = "NestedFieldNoCopy old (split_on CHR ''.'' f)"
    and ?n = "NestedFieldNoCopy new (split_on CHR ''.'' f)"
  show ?case
  proof (cases ?o)
    case (Ok x)
    show ?thesis
    proof (cases ?n)
      case o: (Ok y)
      with Ok Cons show ?thesis by (cases x; cases y) (auto simp: Let_def field_changed_def)
    qed (use Ok Cons NestedField_no_crash in \<open>auto simp: Let_def field_changed_def\<close>)
  qed (use Cons NestedField_no_crash in \<open>auto simp: Let_def field_changed_def\<close>)
qed simp

lemma different_concrete:
  "different (Some (ConcreteRevision r u)) (ConcreteRevision r' u') fs st =
     (Ok (resourceVersion_of r \<noteq> resourceVersion_of r' \<and> (\<exists>f \<in> set fs. field_changed u u' f)), st)"
  by (simp add: different_def storer_Content_def fields_differ_spec ResourceVersion_def)

lemma handleRotation_nothing: "handleRotation rv rule opr = (Ok (), opr)"
proof (cases "br_RPOPolicy rule")
  case (Some p)
  have nc: "Rotate (op_store opr) rv p \<noteq> Crash c" for c
    using storer_List_no_crash [of "Namespace rv" "APIVersion rv" "Kind rv" "Name rv" "op_store opr"]
    by (auto simp: Rotate_def split: result.split)
  show ?thesis
    using Some nc Rotate_nothing [of "op_store opr" rv p]
    by (cases "Rotate (op_store opr) rv p") (auto simp: handleRotation_def)
qed (simp add: handleRotation_def)

section \<open>What a work item does\<close>

text \<open>The informer behind a handler still has the object of a revision.\<close>

definition informer_has :: "work_item ResourceHandler \<Rightarrow> Revision \<Rightarrow> bool" where
  "informer_has h rv \<longleftrightarrow> (\<exists>obj. GetByKey h (meta_namespace_key (Namespace rv) (Name rv)) = Ok (Some obj))"

lemma handleDeletion_cases:
  "handleDeletion h rv fl =
     (if informer_has h rv then (False, fl) else (True, flusher_Queue (SetDeleted True rv) fl))"
  by (auto simp: handleDeletion_def informer_has_def split: result.split option.split)

lemma process_pair:
  assumes "storer_RuleFor (op_policy opr) (RevisionFrom now new) (op_store opr)
      = (Ok (Some rule), (op_store opr, RevisionFrom now new))"
    and "br_LabelSelector rule = None"
    and "br_ResourceNames rule = [] \<or> Name (RevisionFrom now new) \<in> set (br_ResourceNames rule)"
    and "HandlerFor (op_handlers opr) (GetAPIVersion new) (GetKind new) (GetNamespace new) = Some h"
  defines "u \<equiv> RevisionFrom now new"
  shows "processUnstructured now (WorkPair old new) opr = (Ok True,
     if \<not> informer_has h u
     then opr\<lparr>op_flusher := flusher_Queue (SetDeleted True u) (op_flusher opr)\<rparr>
     else if ResourceVersion (RevisionFrom now old) \<noteq> ResourceVersion u
       \<and> (\<exists>f \<in> set (br_Fields rule). field_changed old new f)
     then opr\<lparr>op_flusher := flusher_Queue u (op_flusher opr)\<rparr>
     else opr)"
proof -
  have h: "HandlerFor (op_handlers opr) (APIVersion u) (Kind u) (Namespace u) = Some h"
    using assms(4) by (simp add: u_def RevisionFrom_def APIVersion_def Kind_def Namespace_def split_beta)
  have f: "handleResourceFilter u rule (op_store opr) = (Ok False, (op_store opr, u))"
    using assms(2,3) by (auto simp: handleResourceFilter_def u_def)
  have d: "different (Some (RevisionFrom now old)) u (br_Fields rule) (op_store opr) =
     (Ok (ResourceVersion (RevisionFrom now old) \<noteq> ResourceVersion u
        \<and> (\<exists>f \<in> set (br_Fields rule). field_changed old new f)), op_store opr)"
    by (simp add: u_def RevisionFrom_def split_beta different_concrete ResourceVersion_def)
  show ?thesis
    using assms(1) unfolding u_def [symmetric]
    by (simp add: processUnstructured_def item_revisions_def u_def [symmetric] f h
        handleDeletion_cases d handleRotation_nothing)
qed

text \<open>For an object the old revision comes from the store; an error there means there is none.\<close>

definition stored_old :: "Revision \<Rightarrow> storer \<Rightarrow> Revision option result \<times> storer" where
  "stored_old u st = (case storer_Get u st of
     (Err e, st) \<Rightarrow> (Ok None, st) | r \<Rightarrow> r)"

lemma process_object_new:
  assumes "storer_RuleFor (op_policy opr) (RevisionFrom now new) (op_store opr)
      = (Ok (Some rule), (op_store opr, RevisionFrom now new))"
    and "br_LabelSelector rule = None"
    and "br_ResourceNames rule = [] \<or> Name (RevisionFrom now new) \<in> set (br_ResourceNames rule)"
    and "HandlerFor (op_handlers opr) (GetAPIVersion new) (GetKind new) (GetNamespace new) = Some h"
    and "informer_has h (RevisionFrom now new)"
    and "stored_old (RevisionFrom now new) (op_store opr) = (Ok None, st)"
  shows "processUnstructured now (WorkObject new) opr = (Ok True,
     opr\<lparr>op_store := st, op_flusher := flusher_Queue (RevisionFrom now new) (op_flusher opr)\<rparr>)"
proof -
  let ?u = "RevisionFrom now new"
  have h: "HandlerFor (op_handlers opr) (APIVersion ?u) (Kind ?u) (Namespace ?u) = Some h"
    using assms(4) by (simp add: RevisionFrom_def APIVersion_def Kind_def Namespace_def split_beta)
  have f: "handleResourceFilter ?u rule (op_store opr) = (Ok False, (op_store opr, ?u))"
    using assms(2,3) by (auto simp: handleResourceFilter_def)
  obtain r st' where g: "storer_Get ?u (op_store opr) = (r, st')" by fastforce
  then have "r = Ok None \<or> (\<exists>e. r = Err e)" "st' = st"
    using assms(6) by (auto simp: stored_old_def split: result.splits)
  then show ?thesis
    using assms(1,5) g
    by (auto simp: processUnstructured_def item_revisions_def f h handleDeletion_cases
        different_def handleRotation_nothing)
qed

section \<open>Which resources are watched\<close>

text \<open>A client stands for a rule that selects its resource.\<close>

definition client_of_rule :: "BackupRule \<Rightarrow> string \<Rightarrow> APIResource \<Rightarrow> Dynamic \<Rightarrow> bool" where
  "client_of_rule rule groupVersion a client \<longleftrightarrow> rule_selects rule groupVersion a
     \<and> dyn_resource client = ar_Name a \<and> dyn_kind client = ar_Kind a
     \<and> (if all_namespaces rule then dyn_namespace client = []
        else dyn_namespace client \<in> set (br_Namespaces rule))"

lemma rules_clients_sound:
  assumes "rules_clients gv groupVersion a rules clients = Some cs" "c \<in> set cs"
  shows "c \<in> set (case clients of None \<Rightarrow> [] | Some cs \<Rightarrow> cs)
     \<or> (dyn_gv c = gv \<and> (\<exists>rule \<in> set rules. client_of_rule rule groupVersion a c))"
  using assms
proof (induction rules arbitrary: clients)
  case (Cons rule rules)
  show ?case
  proof (cases "rule_selects rule groupVersion a \<and> \<not> all_namespaces rule")
    case True
    let ?cl = "Some ((case clients of None \<Rightarrow> [] | Some cs \<Rightarrow> cs)
       @ map (ClientForGroupVersionResource gv (ar_Name a) (ar_Kind a)) (br_Namespaces rule))"
    from Cons.IH [of ?cl] Cons.prems True show ?thesis
      by (auto simp: client_of_rule_def ClientForGroupVersionResource_def)
  next
    case False
    show ?thesis
    proof (cases "rule_selects rule groupVersion a")
      case True
      with False Cons.prems show ?thesis
        by (auto simp: client_of_rule_def ClientForGroupVersionResource_def)
    next
      case ns: False
      then have "rules_clients gv groupVersion a rules clients = Some cs" using Cons.prems(1) by simp
      from Cons.IH [OF this Cons.prems(2)] show ?thesis by auto
    qed
  qed
qed simp

text \<open>Every selecting rule is covered: by a client of its namespace or one of all namespaces.\<close>

definition covers :: "Dynamic list option \<Rightarrow> string \<Rightarrow> bool" where
  "covers clients ns \<longleftrightarrow>
     (case clients of None \<Rightarrow> False | Some cs \<Rightarrow> \<exists>c \<in> set cs. dyn_namespace c = ns \<or> dyn_namespace c = [])"

lemma covers_append: "covers clients ns \<Longrightarrow> covers (Some ((case clients of None \<Rightarrow> [] | Some cs \<Rightarrow> cs) @ ds)) ns"
  by (auto simp: covers_def split: option.splits)

lemma covers_new:
  "ns \<in> set nss \<Longrightarrow> covers (Some (cs @ map (ClientForGroupVersionResource gv r k) nss)) ns"
  by (force simp: covers_def ClientForGroupVersionResource_def)

lemma covers_all: "covers (Some [ClientForGroupVersionResource gv r k []]) ns"
  by (simp add: covers_def ClientForGroupVersionResource_def)

lemma rules_clients_keeps_cover:
  "covers clients ns \<Longrightarrow> covers (rules_clients gv groupVersion a rules clients) ns"
  by (induction rules arbitrary: clients) (auto intro: covers_append covers_all)

lemma rules_clients_cover:
  assumes "rule \<in> set rules" "rule_selects rule groupVersion a"
    "all_namespaces rule \<or> ns \<in> set (br_Namespaces rule)"
  shows "covers (rules_clients gv groupVersion a rules clients) ns"
  using assms(1)
proof (induction rules arbitrary: clients)
  case (Cons r rules)
  show ?case
  proof (cases "r = rule")
    case True
    with assms(2,3) show ?thesis
      by (auto intro: covers_all rules_clients_keeps_cover covers_new)
  next
    case False
    with Cons have "\<And>clients. covers (rules_clients gv groupVersion a rules clients) ns" by simp
    then show ?thesis by (simp add: covers_all)
  qed
qed simp

lemma unique_namespaces_subset: "set (unique_namespaces cs seen) \<subseteq> set cs"
  by (induction cs arbitrary: seen) auto

lemma unique_namespaces_set:
  "dyn_namespace ` set (unique_namespaces cs seen) = dyn_namespace ` set cs - set seen"
  by (induction cs arbitrary: seen) auto

lemma unique_namespaces_distinct: "distinct (map dyn_namespace (unique_namespaces cs seen))"
proof (induction cs arbitrary: seen)
  case (Cons c cs)
  then show ?case
    using unique_namespaces_set [of cs "dyn_namespace c # seen"] by auto
qed simp

definition client_key :: "Dynamic \<Rightarrow> string" where
  "client_key c = gv_string (dyn_gv c) @ ''/'' @ dyn_resource c"

definition watched_for :: "BackupPolicy \<Rightarrow> APIResourceList list \<Rightarrow> Dynamic \<Rightarrow> bool" where
  "watched_for pol groups c \<longleftrightarrow> (\<exists>r \<in> set groups. \<exists>gv. ParseGroupVersion (arl_GroupVersion r) = Ok gv
     \<and> dyn_gv c = gv \<and> (\<exists>a \<in> set (arl_APIResources r). supports_all_verbs a
       \<and> (\<exists>rule \<in> set (bp_Rules pol). client_of_rule rule (arl_GroupVersion r) a c)))"

definition dynamics_inv :: "(Dynamic \<Rightarrow> bool) \<Rightarrow> (string, Dynamic list) go_map \<Rightarrow> bool" where
  "dynamics_inv P d \<longleftrightarrow> go_wf d \<and> (\<forall>(k, cs) \<in> set d. \<forall>c \<in> set cs. client_key c = k \<and> P c)"

lemma dynamics_inv_get:
  "dynamics_inv P d \<Longrightarrow> go_get d k = Some cs \<Longrightarrow> c \<in> set cs \<Longrightarrow> client_key c = k \<and> P c"
  by (auto simp: dynamics_inv_def dest!: go_get_Some_in)

lemma dynamics_inv_put:
  "dynamics_inv P d \<Longrightarrow> \<forall>c \<in> set cs. client_key c = k \<and> P c \<Longrightarrow> dynamics_inv P (go_put k cs d)"
  by (auto simp: dynamics_inv_def set_go_put)

lemma client_of_rule_key:
  "client_of_rule rule groupVersion a c \<Longrightarrow> dyn_gv c = gv \<Longrightarrow> client_key c = dynamics_key gv a"
  by (simp add: client_of_rule_def client_key_def dynamics_key_def)

lemma resources_loop_inv:
  assumes "dynamics_inv P d"
    and "\<And>a rule c. a \<in> set as \<Longrightarrow> supports_all_verbs a \<Longrightarrow> rule \<in> set (bp_Rules pol)
      \<Longrightarrow> client_of_rule rule groupVersion a c \<Longrightarrow> dyn_gv c = gv \<Longrightarrow> P c"
  shows "dynamics_inv P (resources_loop pol gv groupVersion as d)"
  using assms
proof (induction "as" arbitrary: d)
  case (Cons a as)
  let ?k = "dynamics_key gv a"
  let ?d = "case rules_clients gv groupVersion a (bp_Rules pol) (go_get d ?k) of
             None \<Rightarrow> d | Some clients \<Rightarrow> go_put ?k clients d"
  have "dynamics_inv P ?d" if sup: "supports_all_verbs a"
  proof (cases "rules_clients gv groupVersion a (bp_Rules pol) (go_get d ?k)")
    case (Some cs)
    have "client_key c = ?k \<and> P c" if c: "c \<in> set cs" for c
      using rules_clients_sound [OF Some c]
    proof
      assume "c \<in> set (case go_get d ?k of None \<Rightarrow> [] | Some cs \<Rightarrow> cs)"
      then obtain cs' where "go_get d ?k = Some cs'" "c \<in> set cs'" by (cases "go_get d ?k") auto
      then show ?thesis by (rule dynamics_inv_get [OF Cons.prems(1)])
    next
      assume "dyn_gv c = gv \<and> (\<exists>rule \<in> set (bp_Rules pol). client_of_rule rule groupVersion a c)"
      then show ?thesis using Cons.prems(2) [of a] sup client_of_rule_key by auto
    qed
    then show ?thesis using dynamics_inv_put [OF Cons.prems(1)] Some by simp
  qed (use Cons.prems(1) in simp)
  then show ?case
    using Cons.IH [of ?d] Cons.IH [of d] Cons.prems by (auto simp: Let_def)
qed simp

lemma resources_loop_keeps_cover:
  "covers (go_get d k) ns \<Longrightarrow> covers (go_get (resources_loop pol gv groupVersion as d) k) ns"
proof (induction "as" arbitrary: d)
  case (Cons a as)
  have "covers (go_get (case rules_clients gv groupVersion a (bp_Rules pol) (go_get d (dynamics_key gv a)) of
             None \<Rightarrow> d | Some clients \<Rightarrow> go_put (dynamics_key gv a) clients d) k) ns"
    using Cons.prems rules_clients_keeps_cover [of "go_get d k" ns gv groupVersion a "bp_Rules pol"]
    by (auto split: option.split)
  then show ?case using Cons by (simp add: Let_def)
qed simp

lemma resources_loop_cover:
  assumes "a \<in> set as" "supports_all_verbs a" "rule \<in> set (bp_Rules pol)"
    "rule_selects rule groupVersion a" "all_namespaces rule \<or> ns \<in> set (br_Namespaces rule)"
  shows "covers (go_get (resources_loop pol gv groupVersion as d) (dynamics_key gv a)) ns"
  using assms(1)
proof (induction "as" arbitrary: d)
  case (Cons b as)
  show ?case
  proof (cases "b = a")
    case True
    let ?k = "dynamics_key gv a"
    have cov: "covers (rules_clients gv groupVersion a (bp_Rules pol) (go_get d ?k)) ns"
      by (rule rules_clients_cover [OF assms(3-5)])
    then obtain cs where cs: "rules_clients gv groupVersion a (bp_Rules pol) (go_get d ?k) = Some cs"
      by (auto simp: covers_def split: option.splits)
    with cov have "covers (go_get (go_put ?k cs d) ?k) ns" by simp
    then show ?thesis
      using True assms(2) cs by (simp add: Let_def resources_loop_keeps_cover)
  qed (use Cons in \<open>auto simp: Let_def\<close>)
qed simp

lemma groups_loop_inv:
  assumes "groups_loop pol groups d = Ok d'" "dynamics_inv P d"
    "\<And>c. watched_for pol groups c \<Longrightarrow> P c"
  shows "dynamics_inv P d'"
  using assms
proof (induction groups arbitrary: d)
  case (Cons r groups)
  from Cons.prems(1) obtain gv where gv: "ParseGroupVersion (arl_GroupVersion r) = Ok gv"
    "groups_loop pol groups
      (resources_loop pol gv (arl_GroupVersion r) (arl_APIResources r) d) = Ok d'"
    by (auto simp: result_bind_eq_Ok)
  have "dynamics_inv P (resources_loop pol gv (arl_GroupVersion r) (arl_APIResources r) d)"
    using Cons.prems(2)
  proof (rule resources_loop_inv)
    fix a rule c
    assume "a \<in> set (arl_APIResources r)" "supports_all_verbs a" "rule \<in> set (bp_Rules pol)"
      "client_of_rule rule (arl_GroupVersion r) a c" "dyn_gv c = gv"
    then show "P c" using gv(1) by (intro Cons.prems(3)) (auto simp: watched_for_def)
  qed
  moreover have "watched_for pol groups c \<Longrightarrow> P c" for c
    by (rule Cons.prems(3)) (auto simp: watched_for_def)
  ultimately show ?case using Cons.IH [OF gv(2)] by blast
qed simp

lemma groups_loop_keeps_cover:
  "groups_loop pol groups d = Ok d' \<Longrightarrow> covers (go_get d k) ns \<Longrightarrow> covers (go_get d' k) ns"
  by (induction groups arbitrary: d) (auto simp: result_bind_eq_Ok intro: resources_loop_keeps_cover)

lemma groups_loop_cover:
  assumes "groups_loop pol groups d = Ok d'" "r \<in> set groups" "a \<in> set (arl_APIResources r)"
    "supports_all_verbs a" "rule \<in> set (bp_Rules pol)" "rule_selects rule (arl_GroupVersion r) a"
    "all_namespaces rule \<or> ns \<in> set (br_Namespaces rule)"
  shows "\<exists>gv. ParseGroupVersion (arl_GroupVersion r) = Ok gv
     \<and> covers (go_get d' (dynamics_key gv a)) ns"
  using assms(1,2)
proof (induction groups arbitrary: d)
  case (Cons g groups)
  from Cons.prems(1) obtain gv where gv: "ParseGroupVersion (arl_GroupVersion g) = Ok gv"
    "groups_loop pol groups
      (resources_loop pol gv (arl_GroupVersion g) (arl_APIResources g) d) = Ok d'"
    by (auto simp: result_bind_eq_Ok)
  show ?case
  proof (cases "r = g")
    case True
    with gv groups_loop_keeps_cover [OF gv(2)] resources_loop_cover [OF assms(3-5), of "arl_GroupVersion g" ns gv d]
      assms(6,7) show ?thesis by auto
  next
    case False
    with Cons.prems(2) Cons.IH [OF gv(2)] show ?thesis by simp
  qed
qed simp

lemma getDynamics_spec:
  assumes "getDynamics pol groups = Ok ds"
  shows "\<forall>c \<in> set ds. watched_for pol groups c"
    and "distinct (map (\<lambda>c. (client_key c, dyn_namespace c)) ds)"
    and "r \<in> set groups \<Longrightarrow> a \<in> set (arl_APIResources r) \<Longrightarrow> supports_all_verbs a
      \<Longrightarrow> rule \<in> set (bp_Rules pol) \<Longrightarrow> rule_selects rule (arl_GroupVersion r) a
      \<Longrightarrow> all_namespaces rule \<or> ns \<in> set (br_Namespaces rule)
      \<Longrightarrow> \<exists>gv. ParseGroupVersion (arl_GroupVersion r) = Ok gv \<and> (\<exists>c \<in> set ds.
            client_key c = dynamics_key gv a \<and> (dyn_namespace c = ns \<or> dyn_namespace c = []))"
proof -
  from assms obtain d where d: "groups_loop pol groups [] = Ok d"
    "ds = concat (map (\<lambda>(k, clients). unique_namespaces clients []) d)"
    by (auto simp: getDynamics_def result_bind_eq_Ok)
  have inv: "dynamics_inv (watched_for pol groups) d"
    by (rule groups_loop_inv [OF d(1)]) (simp_all add: dynamics_inv_def)
  have wf: "go_wf d" and keyed: "\<forall>(k, cs) \<in> set d. \<forall>c \<in> set cs. client_key c = k \<and> watched_for pol groups c"
    using inv by (simp_all add: dynamics_inv_def)
  show "\<forall>c \<in> set ds. watched_for pol groups c"
    using keyed unique_namespaces_subset by (fastforce simp: d(2))
  show "distinct (map (\<lambda>c. (client_key c, dyn_namespace c)) ds)"
    unfolding d(2) using wf keyed
  proof (induction d)
    case (Cons p d)
    obtain k cs where p: "p = (k, cs)" by (cases p)
    let ?u = "unique_namespaces cs []" and ?f = "\<lambda>c. (client_key c, dyn_namespace c)"
    let ?rest = "concat (map (\<lambda>(k, clients). unique_namespaces clients []) d)"
    have ku: "\<forall>c \<in> set ?u. client_key c = k"
      using Cons.prems(2) unique_namespaces_subset [of cs "[]"] by (auto simp: p)
    have "distinct (map ?f ?u)"
      using unique_namespaces_distinct [of cs "[]"] by (auto simp: distinct_map inj_on_def)
    moreover have kr: "client_key c \<noteq> k" if rest: "c \<in> set ?rest" for c
    proof -
      from rest obtain k' cs' where in_d: "(k', cs') \<in> set d" and "c \<in> set (unique_namespaces cs' [])"
        by auto
      then have "c \<in> set cs'" using unique_namespaces_subset by blast
      then have "client_key c = k'" using Cons.prems(2) in_d by auto
      moreover have "k' \<in> fst ` set d" using in_d by (auto simp: image_iff intro: bexI [of _ "(k', cs')"])
      ultimately show ?thesis using Cons.prems(1) by (auto simp: p)
    qed
    moreover have "distinct (map ?f ?rest)"
      using Cons.IH Cons.prems by simp
    moreover have "?f ` set ?u \<inter> ?f ` set ?rest = {}"
    proof (rule ccontr)
      assume "?f ` set ?u \<inter> ?f ` set ?rest \<noteq> {}"
      then obtain c c' where "c \<in> set ?u" "c' \<in> set ?rest" "?f c = ?f c'" by blast
      then show False using ku kr [of c'] by simp
    qed
    ultimately show ?case by (simp add: p)
  qed simp
  show "\<exists>gv. ParseGroupVersion (arl_GroupVersion r) = Ok gv \<and> (\<exists>c \<in> set ds.
            client_key c = dynamics_key gv a \<and> (dyn_namespace c = ns \<or> dyn_namespace c = []))"
    if "r \<in> set groups" "a \<in> set (arl_APIResources r)" "supports_all_verbs a"
      "rule \<in> set (bp_Rules pol)" "rule_selects rule (arl_GroupVersion r) a"
      "all_namespaces rule \<or> ns \<in> set (br_Namespaces rule)"
  proof -
    from groups_loop_cover [OF d(1) that] obtain gv where gv:
      "ParseGroupVersion (arl_GroupVersion r) = Ok gv" "covers (go_get d (dynamics_key gv a)) ns" by blast
    then obtain cs c where cs: "go_get d (dynamics_key gv a) = Some cs" "c \<in> set cs"
      "dyn_namespace c = ns \<or> dyn_namespace c = []"
      by (auto simp: covers_def split: option.splits)
    have "dyn_namespace c \<in> dyn_namespace ` set (unique_namespaces cs [])"
      using cs(2) unique_namespaces_set [of cs "[]"] by simp
    then obtain c' where c': "c' \<in> set (unique_namespaces cs [])" "dyn_namespace c' = dyn_namespace c"
      by auto
    then have "c' \<in> set cs" using unique_namespaces_subset by blast
    then have "client_key c' = dynamics_key gv a" using dynamics_inv_get [OF inv cs(1)] by blast
    moreover have "c' \<in> set ds" using c'(1) go_get_Some_in [OF cs(1)] by (force simp: d(2))
    ultimately show ?thesis using gv(1) cs(3) c'(2) by auto
  qed
qed

section \<open>Queueing stale revisions\<close>

lemma SetDeleted_flush_key [simp]: "flushKeyFunc (SetDeleted b rv) = flushKeyFunc rv"
  by (simp add: flushKeyFunc_def revision_ResourceKey_def)

lemma syncStore_queue:
  assumes "storer_Sync (op_handlers opr) (op_store opr) = (Ok (state, stale), st)"
    "fl_c (op_flusher opr) = Cache_New"
  shows "\<exists>opr'. syncStore opr = (Ok (), opr') \<and> op_store opr' = st
     \<and> (\<forall>k. case go_get (fl_c (op_flusher opr')) k of
          None \<Rightarrow> \<forall>rv \<in> set stale. rev_ResourceKey rv \<noteq> k
        | Some new \<Rightarrow> Deleted new \<and> (\<exists>rv \<in> set stale. new = SetDeleted True rv \<and> rev_ResourceKey rv = k
            \<and> (\<forall>rv' \<in> set stale. rev_ResourceKey rv' = k \<longrightarrow> ResourceVersion rv' \<le> ResourceVersion rv)))"
proof -
  let ?q = "\<lambda>stale. fold (\<lambda>rv. flusher_Queue (SetDeleted True rv)) stale (op_flusher opr)"
  have q: "fl_c (?q rvs) = fold (\<lambda>rv. Cache_Cache flushKeyFunc (Some rv)) (map (SetDeleted True) rvs)
      (fl_c (op_flusher opr))" for rvs
    by (induction rvs rule: rev_induct) (simp_all add: flusher_Queue_def)
  have "queue_wf flushKeyFunc Cache_New" by (simp add: queue_wf_def Cache_New_def)
  note latest = rq.fold_cache_latest [OF this, of _ "map (SetDeleted True) stale"]
  have "case go_get (fl_c (?q stale)) k of
          None \<Rightarrow> \<forall>rv \<in> set stale. rev_ResourceKey rv \<noteq> k
        | Some new \<Rightarrow> Deleted new \<and> (\<exists>rv \<in> set stale. new = SetDeleted True rv \<and> rev_ResourceKey rv = k
            \<and> (\<forall>rv' \<in> set stale. rev_ResourceKey rv' = k \<longrightarrow> ResourceVersion rv' \<le> ResourceVersion rv))" for k
    using latest [of k] unfolding q assms(2)
    by (auto simp: Cache_New_def flushKeyFunc_def revision_ResourceKey_def split: option.splits)
  then show ?thesis using assms(1) by (simp add: syncStore_def)
qed

end
