(* ===== verification/Controller_Props.thy ===== *)
theory Controller_Props
  imports Samples Controller
begin

text \<open>
  The properties of the controller: what a work item does, which resources are watched, what is
  queued at the start, and which rule applies.
\<close>

section \<open>Work items\<close>

text \<open>C13: an update queues the new revision exactly when its version changed and a field that the
  rule checks was added, removed or changed; when the informer no longer has the object a deletion
  is queued; nothing else in the operator changes.\<close>

theorem update_queued_iff_changed:
  assumes "storer_RuleFor (op_policy opr) (RevisionFrom now new) (op_store opr)
      = (Ok (Some rule), (op_store opr, RevisionFrom now new))"
    and "br_LabelSelector rule = None"
    and "br_ResourceNames rule = [] \<or> Name (RevisionFrom now new) \<in> set (br_ResourceNames rule)"
    and "HandlerFor (op_handlers opr) (GetAPIVersion new) (GetKind new) (GetNamespace new) = Some h"
  defines "u \<equiv> RevisionFrom now new"
  shows "processUnstructured now (WorkPair old new) opr = (Ok True,
     if \<not> informer_has h u
     then opr\<lparr>op_flusher := flusher_Queue (SetDeleted True u) (op_flusher opr)\<rparr>
     else if ResourceVersion (RevisionFrom now old) \<noteq> ResourceVersion u
       \<and> (\<exists>f \<in> set (br_Fields rule). field_changed old new f)
     then opr\<lparr>op_flusher := flusher_Queue u (op_flusher opr)\<rparr>
     else opr)"
  unfolding u_def by (rule process_pair [OF assms(1-4)])

definition web_obj2 :: object where
  "web_obj2 = [(''apiVersion'', VString ''apps/v1''), (''kind'', VString ''Deployment''),
     (''metadata'', VMap [(''name'', VString ''web''), (''namespace'', VString ''default''),
        (''resourceVersion'', VString ''11'')]), (''spec'', VString ''new'')]"

definition spec_rule :: BackupRule where
  "spec_rule = \<lparr>br_APIGroups = [], br_Resources = [], br_ResourceNames = [],
       br_Namespaces = [], br_Fields = [''spec''], br_LabelSelector = None,
       br_RPOPolicy = Some \<lparr>PurgeOlderThan = second, RPO = second\<rparr>\<rparr>"

definition spec_policy :: BackupPolicy where
  "spec_policy = \<lparr>bp_Rules = [spec_rule], bp_Fields = [],
     bp_RPOPolicy = Some \<lparr>PurgeOlderThan = second, RPO = second\<rparr>\<rparr>"

definition deployments :: Dynamic where
  "deployments = \<lparr>dyn_gv = \<lparr>gv_group = ''apps'', gv_version = ''v1''\<rparr>,
        dyn_resource = ''deployments'', dyn_kind = ''Deployment'', dyn_namespace = []\<rparr>"

definition web_handler :: "work_item ResourceHandler" where
  "web_handler = \<lparr>rh_store = [(''default/web'', web_obj2)], rh_keyErr = (\<lambda>_. None), rh_queue = [],
      rh_client = deployments\<rparr>"

definition sample_operator :: operator where
  "sample_operator = \<lparr>op_handlers = [(''apps/v1/Deployment'', web_handler)],
     op_store = Plain sample_store, op_policy = spec_policy,
     op_flusher = \<lparr>fl_c = Cache_New, fl_retryCache = Cache_New\<rparr>, op_purger = \<lparr>pu_c = Cache_New\<rparr>,
     op_reapInterval = 1, op_threadiness = 1, op_metricsHandler = [], op_readinessHandler = [],
     op_httpServerPort = 0, op_ready = False\<rparr>"

lemma spec_rule_for: "storer_RuleFor spec_policy rv st = (Ok (Some spec_rule), (st, rv))"
  by (cases st) (simp_all add: storer_RuleFor_def RuleFor_def spec_policy_def spec_rule_def label_match_def
      name_match_def namespace_match_def resources_match_def group_match_def list_match_def
      fill_defaults_def second_def)

lemmas object_eval = RevisionFrom_def GetAPIVersion_def GetKind_def GetNamespace_def GetName_def
  GetResourceVersion_def NestedString_def getNestedString_def NestedFieldNoCopy_def

lemma web_from:
  "RevisionFrom t web_obj2 = ConcreteRevision \<lparr>apiVersion_of = ''apps/v1'', kind_of = ''Deployment'',
     namespace_of = ''default'', name_of = ''web'', resourceVersion_of = 11, timestamp_of = t,
     deleted_of = False\<rparr> web_obj2"
  by (simp add: object_eval web_obj2_def number_eval)

lemma web_handled:
  "HandlerFor (op_handlers sample_operator) (GetAPIVersion web_obj2) (GetKind web_obj2)
     (GetNamespace web_obj2) = Some web_handler"
  by (simp add: sample_operator_def HandlerFor_def handler_key_def object_eval web_obj2_def path_eval)

lemma web_informed: "informer_has web_handler (RevisionFrom t web_obj2)"
  by (simp add: informer_has_def web_handler_def GetByKey_def meta_namespace_key_def web_from
      Namespace_def Name_def)

theorem update_queued_iff_changed_witness:
  "processUnstructured 0 (WorkPair web_obj web_obj2) sample_operator = (Ok True,
     sample_operator\<lparr>op_flusher := flusher_Queue (RevisionFrom 0 web_obj2) (op_flusher sample_operator)\<rparr>)"
proof -
  have rule: "storer_RuleFor (op_policy sample_operator) (RevisionFrom 0 web_obj2) (op_store sample_operator)
      = (Ok (Some spec_rule), (op_store sample_operator, RevisionFrom 0 web_obj2))"
    by (simp add: sample_operator_def spec_rule_for)
  have r: "br_LabelSelector spec_rule = None"
    "br_ResourceNames spec_rule = [] \<or> Name (RevisionFrom 0 web_obj2) \<in> set (br_ResourceNames spec_rule)"
    by (simp_all add: spec_rule_def)
  have "ResourceVersion (RevisionFrom 0 web_obj) \<noteq> ResourceVersion (RevisionFrom 0 web_obj2)"
    by (simp add: ResourceVersion_def web_from) (simp add: object_eval web_obj_def number_eval)
  moreover have "\<exists>f \<in> set (br_Fields spec_rule). field_changed web_obj web_obj2 f"
    by (simp add: spec_rule_def field_changed_def NestedFieldNoCopy_def web_obj_def web_obj2_def)
  ultimately show ?thesis
    using update_queued_iff_changed [OF rule r web_handled] web_informed by simp
qed

text \<open>An object seen for the first time is queued: when the store has no revision of it, or cannot
  read one, no field is compared.\<close>

theorem new_object_queued:
  assumes "storer_RuleFor (op_policy opr) (RevisionFrom now new) (op_store opr)
      = (Ok (Some rule), (op_store opr, RevisionFrom now new))"
    and "br_LabelSelector rule = None"
    and "br_ResourceNames rule = [] \<or> Name (RevisionFrom now new) \<in> set (br_ResourceNames rule)"
    and "HandlerFor (op_handlers opr) (GetAPIVersion new) (GetKind new) (GetNamespace new) = Some h"
    and "informer_has h (RevisionFrom now new)"
    and "stored_old (RevisionFrom now new) (op_store opr) = (Ok None, st)"
  shows "processUnstructured now (WorkObject new) opr = (Ok True,
     opr\<lparr>op_store := st, op_flusher := flusher_Queue (RevisionFrom now new) (op_flusher opr)\<rparr>)"
  by (rule process_object_new [OF assms])

definition empty_store :: store where
  "empty_store = sample_store\<lparr>s_backend := sample_backend\<lparr>be_bucket := \<lparr>blobs = [], faults = (\<lambda>_ _. None)\<rparr>\<rparr>\<rparr>"

theorem new_object_queued_witness:
  "\<exists>opr'. processUnstructured 0 (WorkObject web_obj2) (sample_operator\<lparr>op_store := Plain empty_store\<rparr>)
     = (Ok True, opr') \<and> fl_c (op_flusher opr') = [(''apps/v1/Deployment/default/web'', RevisionFrom 0 web_obj2)]"
proof -
  let ?o = "sample_operator\<lparr>op_store := Plain empty_store\<rparr>"
  have rule: "storer_RuleFor (op_policy ?o) (RevisionFrom 0 web_obj2) (op_store ?o)
      = (Ok (Some spec_rule), (op_store ?o, RevisionFrom 0 web_obj2))"
    by (simp add: sample_operator_def spec_rule_for)
  have r: "br_LabelSelector spec_rule = None"
    "br_ResourceNames spec_rule = [] \<or> Name (RevisionFrom 0 web_obj2) \<in> set (br_ResourceNames spec_rule)"
    by (simp_all add: spec_rule_def)
  have h: "HandlerFor (op_handlers ?o) (GetAPIVersion web_obj2) (GetKind web_obj2)
     (GetNamespace web_obj2) = Some web_handler" using web_handled by simp
  have "backend_wf (s_backend empty_store)" "fault_free (s_backend empty_store)"
    by (simp_all add: empty_store_def backend_wf_def fault_free_def)
  from ns_Get_none [OF this, of "RevisionFrom 0 web_obj2"]
  have "stored_old (RevisionFrom 0 web_obj2) (op_store ?o) = (Ok None, Plain empty_store)"
    by (simp add: stored_old_def storer_Get_def empty_store_def sample_store_def live_revs_def
        stored_revs_def List.map_filter_simps)
  from new_object_queued [OF rule r h web_informed this] show ?thesis
    by (simp add: flusher_Queue_def sample_operator_def Cache_Cache_def Cache_New_def go_put_def
        flushKeyFunc_def web_from)
      (simp add: key_eval path_eval)
qed

text \<open>Rotation never purges anything: Rotate finds no revision to purge, whatever the store holds,
  so handleRotation leaves the operator as it is.\<close>

theorem rotation_does_nothing: "handleRotation rv rule opr = (Ok (), opr)"
  by (rule handleRotation_nothing)

text \<open>A rule that names its resources by a star lets through only an object called ''*'': RuleFor
  takes the star for every name, the resource filter then discards the item.\<close>

theorem starred_names_discarded:
  assumes "br_ResourceNames rule = [''*'']" "Name rv \<noteq> ''*''"
  shows "name_match rule rv \<and> handleResourceFilter rv rule st = (Ok True, (st, rv))"
  using assms by (simp add: name_match_def list_match_def handleResourceFilter_def)

theorem starred_names_discarded_witness:
  "handleResourceFilter (LazyLoadingRevision (web_rev 9 1700000000 False) None)
     (spec_rule\<lparr>br_ResourceNames := [''*'']\<rparr>) (Plain sample_store)
   = (Ok True, (Plain sample_store, LazyLoadingRevision (web_rev 9 1700000000 False) None))"
proof -
  have "Name (LazyLoadingRevision (web_rev 9 1700000000 False) None) \<noteq> ''*''"
    by (simp add: Name_def web_rev_def)
  from starred_names_discarded [of "spec_rule\<lparr>br_ResourceNames := [''*'']\<rparr>", OF _ this]
  show ?thesis by simp
qed

section \<open>Rules\<close>

lemma RuleFor_chosen:
  assumes d: "bp_RPOPolicy b = Some d"
    and loop: "rule_loop (bp_Rules b) 0 None (s, rv) = (Ok (Some r), (s, rv))"
    and r: "r \<in> set (bp_Rules b)" "rule_level rv r \<noteq> MNone"
      "\<forall>rule \<in> set (bp_Rules b). rule_level rv rule \<le> rule_level rv r" "Q r"
  shows "\<exists>ro. RuleFor b rv s = (Ok ro, (s, rv))
     \<and> (case ro of
          None \<Rightarrow> P
        | Some r' \<Rightarrow> \<exists>r \<in> set (bp_Rules b). fill_defaults b r = Ok r' \<and> rule_level rv r \<noteq> MNone
            \<and> (\<forall>rule \<in> set (bp_Rules b). rule_level rv rule \<le> rule_level rv r) \<and> Q r)"
proof -
  from fill_defaults_ok [OF d, of r] obtain r' where r': "fill_defaults b r = Ok r'" by blast
  have "RuleFor b rv s = (Ok (Some r'), (s, rv))" using loop r' by (simp add: RuleFor_def)
  with r r' show ?thesis by (intro exI [of _ "Some r'"]) auto
qed

text \<open>C28: among rules without label selectors RuleFor returns, with the defaults filled in, the first
  rule that matches in full, else the last of those that match best, else none.\<close>

theorem rule_choice:
  assumes "plain_policy b"
  shows "\<exists>ro. RuleFor b rv s = (Ok ro, (s, rv))
     \<and> (case ro of
          None \<Rightarrow> \<forall>rule \<in> set (bp_Rules b). rule_level rv rule = MNone
        | Some r' \<Rightarrow> \<exists>r \<in> set (bp_Rules b). fill_defaults b r = Ok r' \<and> rule_level rv r \<noteq> MNone
            \<and> (\<forall>rule \<in> set (bp_Rules b). rule_level rv rule \<le> rule_level rv r)
            \<and> (let best = filter (\<lambda>rule. rule_level rv rule = rule_level rv r) (bp_Rules b)
               in r = (if rule_level rv r = MFull then hd best else last best)))"
proof -
  from assms obtain d where d: "bp_RPOPolicy b = Some d" by (auto simp: plain_policy_def)
  have sel: "\<forall>rule \<in> set (bp_Rules b). br_LabelSelector rule = None"
    using assms by (simp add: plain_policy_def)
  let ?best = "\<lambda>r. filter (\<lambda>rule. rule_level rv rule = rule_level rv r) (bp_Rules b)"
  have chosen: ?thesis
    if "rule_loop (bp_Rules b) 0 None (s, rv) = (Ok (Some r), (s, rv))" "r \<in> set (bp_Rules b)"
      "rule_level rv r \<noteq> MNone" "\<forall>rule \<in> set (bp_Rules b). rule_level rv rule \<le> rule_level rv r"
      and best: "r = (if rule_level rv r = MFull then hd (?best r) else last (?best r))" for r
    using that by (intro RuleFor_chosen [OF d that(1-4)]) (unfold Let_def, assumption)
  show ?thesis
  proof (rule rule_loop_spec [OF sel, of rv s])
    fix r rs assume r: "filter (\<lambda>rule. rule_level rv rule = MFull) (bp_Rules b) = r # rs"
      "rule_loop (bp_Rules b) 0 None (s, rv) = (Ok (Some r), (s, rv))"
    have "r \<in> set (filter (\<lambda>rule. rule_level rv rule = MFull) (bp_Rules b))"
      unfolding r(1) by simp
    then have l: "r \<in> set (bp_Rules b)" "rule_level rv r = MFull" by simp_all
    have "lv \<le> MFull" for lv by (cases lv) (simp_all add: less_eq_match_level_def)
    then have le: "\<forall>rule \<in> set (bp_Rules b). rule_level rv rule \<le> rule_level rv r" by (simp add: l(2))
    have "rule_level rv r \<noteq> MNone" "hd (?best r) = r" by (simp_all add: l(2) r(1))
    then show ?thesis
      by (intro chosen [OF r(2) l(1) _ le]) (assumption, unfold if_P [OF l(2)], rule sym, assumption)
  next
    fix r assume r: "\<forall>rule \<in> set (bp_Rules b). rule_level rv rule \<noteq> MFull" "r \<in> set (bp_Rules b)"
      "rule_level rv r \<noteq> MNone" "\<forall>rule \<in> set (bp_Rules b). rule_level rv rule \<le> rule_level rv r"
      "r = last (?best r)" "rule_loop (bp_Rules b) 0 None (s, rv) = (Ok (Some r), (s, rv))"
    from r(1,2) have ne: "rule_level rv r \<noteq> MFull" by blast
    show ?thesis by (rule chosen [OF r(6,2-4)]) (unfold if_not_P [OF ne], rule r(5))
  next
    assume "\<forall>rule \<in> set (bp_Rules b). rule_level rv rule = MNone"
      "rule_loop (bp_Rules b) 0 None (s, rv) = (Ok None, (s, rv))"
    then show ?thesis by (simp add: RuleFor_def)
  qed
qed

lemma case_not_None:
  "\<exists>ro. A ro \<and> (case ro of None \<Rightarrow> P | Some r \<Rightarrow> Q r) \<Longrightarrow> \<not> P \<Longrightarrow> \<exists>ro. A ro \<and> ro \<noteq> None"
  by (auto split: option.splits)

theorem rule_choice_witness:
  "\<exists>ro. RuleFor spec_policy (LazyLoadingRevision (web_rev 9 1700000000 False) None) sample_store
     = (Ok ro, (sample_store, LazyLoadingRevision (web_rev 9 1700000000 False) None)) \<and> ro \<noteq> None"
proof -
  have p: "plain_policy spec_policy" by (simp add: plain_policy_def spec_policy_def spec_rule_def)
  have "rule_level (LazyLoadingRevision (web_rev 9 1700000000 False) None) spec_rule \<noteq> MNone"
    by (simp add: rule_level_def spec_rule_def name_match_def namespace_match_def resources_match_def
        group_match_def list_match_def)
  then show ?thesis
    by (intro case_not_None [OF rule_choice [OF p]]) (simp add: spec_policy_def)
qed

section \<open>Watching\<close>

lemma groups_loop_total:
  "\<forall>r \<in> set groups. \<exists>gv. ParseGroupVersion (arl_GroupVersion r) = Ok gv \<Longrightarrow>
     \<exists>d'. groups_loop pol groups d = Ok d'"
  by (induction groups arbitrary: d) auto

text \<open>C27: when every group version parses, the operator watches, at most once per resource and
  namespace, exactly resources that have all verbs and that a rule selects; and for every such
  resource and every namespace of such a rule there is a client of that or of all namespaces.\<close>

theorem watched_resources:
  assumes "\<forall>r \<in> set groups. \<exists>gv. ParseGroupVersion (arl_GroupVersion r) = Ok gv"
  shows "\<exists>ds. getDynamics pol groups = Ok ds
     \<and> (\<forall>c \<in> set ds. watched_for pol groups c)
     \<and> distinct (map (\<lambda>c. (client_key c, dyn_namespace c)) ds)
     \<and> (\<forall>r a rule ns. r \<in> set groups \<and> a \<in> set (arl_APIResources r) \<and> supports_all_verbs a
          \<and> rule \<in> set (bp_Rules pol) \<and> rule_selects rule (arl_GroupVersion r) a
          \<and> (all_namespaces rule \<or> ns \<in> set (br_Namespaces rule)) \<longrightarrow>
          (\<exists>gv. ParseGroupVersion (arl_GroupVersion r) = Ok gv \<and> (\<exists>c \<in> set ds.
            client_key c = dynamics_key gv a \<and> (dyn_namespace c = ns \<or> dyn_namespace c = []))))"
proof -
  from groups_loop_total [OF assms] obtain d where "groups_loop pol groups [] = Ok d" by blast
  then obtain ds where ds: "getDynamics pol groups = Ok ds" by (simp add: getDynamics_def)
  note spec = getDynamics_spec [OF ds]
  show ?thesis using ds spec(1,2) spec(3) by blast
qed

definition deployment_groups :: "APIResourceList list" where
  "deployment_groups = [\<lparr>arl_GroupVersion = ''apps/v1'', arl_APIResources =
     [\<lparr>ar_Name = ''deployments'', ar_SingularName = [], ar_Namespaced = True, ar_Kind = ''Deployment'',
       ar_ShortNames = [''deploy''], ar_Verbs = required_verbs\<rparr>]\<rparr>]"

theorem watched_resources_witness:
  "\<exists>ds. getDynamics spec_policy deployment_groups = Ok ds \<and> ds \<noteq> []"
proof -
  have g: "\<forall>r \<in> set deployment_groups. \<exists>gv. ParseGroupVersion (arl_GroupVersion r) = Ok gv"
    by (simp add: deployment_groups_def ParseGroupVersion_def)
  let ?r = "hd deployment_groups" let ?a = "hd (arl_APIResources ?r)"
  have "?r \<in> set deployment_groups" "?a \<in> set (arl_APIResources ?r)" "supports_all_verbs ?a"
    "spec_rule \<in> set (bp_Rules spec_policy)" "rule_selects spec_rule (arl_GroupVersion ?r) ?a"
    "all_namespaces spec_rule"
    by (simp_all add: deployment_groups_def supports_all_verbs_def required_verbs_def spec_policy_def
        spec_rule_def rule_selects_def all_namespaces_def)
  with watched_resources [OF g, of spec_policy] show ?thesis by fastforce
qed

section \<open>The start\<close>

text \<open>Syncing the store at the start queues, for every resource with a stale revision, one deletion:
  that of its highest stale version; resources without one are not queued.\<close>

theorem sync_queues_deletions:
  assumes "storer_Sync (op_handlers opr) (op_store opr) = (Ok (state, stale), st)"
    "fl_c (op_flusher opr) = Cache_New"
  shows "\<exists>opr'. syncStore opr = (Ok (), opr') \<and> op_store opr' = st
     \<and> (\<forall>k. case go_get (fl_c (op_flusher opr')) k of
          None \<Rightarrow> \<forall>rv \<in> set stale. rev_ResourceKey rv \<noteq> k
        | Some new \<Rightarrow> Deleted new \<and> (\<exists>rv \<in> set stale. new = SetDeleted True rv \<and> rev_ResourceKey rv = k
            \<and> (\<forall>rv' \<in> set stale. rev_ResourceKey rv' = k \<longrightarrow> ResourceVersion rv' \<le> ResourceVersion rv)))"
  by (rule syncStore_queue [OF assms])

definition node_operator :: operator where
  "node_operator = sample_operator\<lparr>op_handlers :=
     [(''v1/Node'', \<lparr>rh_store = [], rh_keyErr = (\<lambda>_. None), rh_queue = [],
        rh_client = \<lparr>dyn_gv = \<lparr>gv_group = [], gv_version = ''v1''\<rparr>, dyn_resource = ''nodes'',
          dyn_kind = ''Node'', dyn_namespace = []\<rparr>\<rparr>)]\<rparr>"

lemma node_sync:
  "\<exists>state. storer_Sync (op_handlers node_operator) (op_store node_operator)
     = (Ok (state, [LazyLoadingRevision (node_rev 4 1700000000 True) None]), Plain sample_store)"
proof -
  let ?hs = "op_handlers node_operator"
  have h: "\<forall>(k, h) \<in> set ?hs. rh_keyErr h = (\<lambda>_. None)" by (simp add: node_operator_def)
  have b: "s_backend sample_store = sample_backend" "\<not> s_deleteUntracked sample_store"
    by (simp_all add: sample_store_def)
  have "filter (sync_obsolete False ?hs) (stored_revs sample_backend)
      = [LazyLoadingRevision (node_rev 4 1700000000 True) None]"
    by (simp add: sample_revs sync_obsolete_def rev_handler_def HandlerFor_def node_operator_def
        handler_key_def APIVersion_def Kind_def Namespace_def)
      (simp add: web_rev_def node_rev_def path_eval)
  then show ?thesis
    using store_Sync_spec [OF sample_wf(1) sample_fault_free(1) h] b
    by (simp add: storer_Sync_def node_operator_def sample_operator_def)
qed

lemma entry_not_None:
  "\<exists>x. A x \<and> B x \<and> (\<forall>k. case f x k of None \<Rightarrow> P k | Some n \<Rightarrow> Q k n) \<Longrightarrow> \<not> P k \<Longrightarrow> \<exists>x. A x \<and> f x k \<noteq> None"
  by (auto split: option.splits) metis

theorem sync_queues_deletions_witness:
  "\<exists>opr'. syncStore node_operator = (Ok (), opr')
     \<and> go_get (fl_c (op_flusher opr')) ''v1/Node/n1'' \<noteq> None"
proof -
  obtain state where st: "storer_Sync (op_handlers node_operator) (op_store node_operator)
     = (Ok (state, [LazyLoadingRevision (node_rev 4 1700000000 True) None]), Plain sample_store)"
    using node_sync by blast
  have "fl_c (op_flusher node_operator) = Cache_New" by (simp add: node_operator_def sample_operator_def)
  from sync_queues_deletions [OF st this] show ?thesis
    by (rule entry_not_None) (simp add: sample_keys)
qed


end
