(* ===== verification/Well_Formed.thy ===== *)
theory Well_Formed
  imports Controller
begin

text \<open>
  The invariant of the whole program.  A store is well formed when its backend holds only the
  configuration and keys of valid revisions, and its cache only valid revisions; an operator is
  well formed when its store is and its three queues hold valid revisions under their keys.  Each
  operation that the flusher, the purger, the reaper and the workers use keeps it, whatever
  faults the backend reports.
\<close>

section \<open>Stores\<close>

definition valid_revs :: "Revision list \<Rightarrow> bool" where
  "valid_revs revs \<longleftrightarrow> (\<forall>rv \<in> set revs. valid_revision (meta rv))"

definition cache_valid :: "rev_cache \<Rightarrow> bool" where
  "cache_valid c \<longleftrightarrow> cache_wf c \<and> (\<forall>k v rv. cached c k v = Some rv \<longrightarrow> valid_revision (meta rv))"

definition store_wf :: "storer \<Rightarrow> bool" where
  "store_wf st \<longleftrightarrow> backend_wf (s_backend (storer_base st))
     \<and> be_provider (s_backend (storer_base st)) \<noteq> S3Provider
     \<and> (case st of Plain s \<Rightarrow> True | ReadWrite s \<Rightarrow> cache_valid (rw_reader s))"

lemma valid_revs_simps [simp]:
  "valid_revs []" "valid_revs (rv # revs) \<longleftrightarrow> valid_revision (meta rv) \<and> valid_revs revs"
  "valid_revs (xs @ ys) \<longleftrightarrow> valid_revs xs \<and> valid_revs ys"
  by (auto simp: valid_revs_def)

lemma valid_SetDeleted [simp]: "valid_revision (r\<lparr>deleted_of := d\<rparr>) \<longleftrightarrow> valid_revision r"
  by (simp add: valid_revision_def)

lemma cache_valid_New [simp]: "cache_valid NewInMemoryGetter"
  by (simp add: cache_valid_def)

lemma cache_valid_Set: "cache_valid c \<Longrightarrow> valid_revision (meta rv) \<Longrightarrow> cache_valid (cache_Set rv c)"
  by (auto simp: cache_valid_def split: if_splits)

lemma cache_valid_Delete: "cache_valid c \<Longrightarrow> cache_valid (cache_Delete rv c)"
  by (auto simp: cache_valid_def split: if_splits)

lemma cache_valid_fold:
  "cache_valid c \<Longrightarrow> valid_revs rvs \<Longrightarrow> cache_valid (fold cache_Set rvs c)"
  "cache_valid c \<Longrightarrow> cache_valid (fold cache_Delete rvs c)"
  by (induction rvs arbitrary: c) (simp_all add: cache_valid_Set cache_valid_Delete)

lemma cache_valid_List: "cache_valid c \<Longrightarrow> valid_revs (cache_List k c)"
  by (auto simp: cache_valid_def valid_revs_def mem_List_set)

text \<open>An operation that leaves the backend and the cache alone keeps the store well formed.\<close>

lemma store_wf_set_base:
  "s_backend s = s_backend (storer_base st) \<Longrightarrow> store_wf (set_base s st) = store_wf st"
  by (cases st) (simp_all add: store_wf_def)

section \<open>Writing\<close>

lemma backend_wf_close:
  assumes "backend_wf b" "stored_key (w_key w)"
  shows "backend_wf (snd (Backend_CloseWriter b w))"
proof -
  have "go_wf (blobs (be_bucket b))" using assms(1) by (simp add: backend_wf_def)
  then show ?thesis
    using assms by (auto simp: blob_defs Let_def backend_wf_def set_go_put split: option.split)
qed

lemma store_save_wf:
  assumes "store_save rv s = (r, (s', rv'))" "valid_revision (meta rv)" "backend_wf (s_backend s)"
  shows "backend_wf (s_backend s') \<and> be_provider (s_backend s') = be_provider (s_backend s)"
  using assms(1)
proof (rule store_save_backend)
  fix w assume "w_key w = rev_Key rv" "s_backend s' = snd (Backend_CloseWriter (s_backend s) w)"
  moreover have "stored_key (rev_Key rv)" by (rule stored_key_Key [OF assms(2)])
  ultimately show ?thesis using backend_wf_close [OF assms(3), of w] by simp
qed (use assms(3) in simp)

lemma write_rev_reader:
  assumes "write_rev rv (ReadWrite s) = (r, (st', rv'))"
  shows "\<exists>s'. st' = ReadWrite s' \<and> (rw_reader s' = rw_reader s
     \<or> rw_reader s' = cache_Set rv' (rw_reader s) \<or> (\<exists>x. meta x = meta rv \<and> rw_reader s' = cache_Set x (rw_reader s)))"
  using assms
  by (auto simp: write_rev_def storer_Delete_def storer_Update_def rw_Delete_def rw_Update_def
      mem_Delete_def mem_Update_def on_ok_def split: if_splits prod.splits result.splits)

lemma write_rev_wf:
  assumes "write_rev rv st = (r, (st', rv'))" "valid_revision (meta rv)" "store_wf st"
  shows "store_wf st'" "meta rv' = meta rv"
proof -
  from write_rev_save [OF assms(1)] obtain r0 s0 rv0 where sv:
    "store_save rv (storer_base st) = (r0, (s0, rv0))" "s_backend (storer_base st') = s_backend s0"
    and m: "meta rv' = meta rv" by blast
  then show "meta rv' = meta rv" by simp
  have b: "backend_wf (s_backend (storer_base st'))"
    "be_provider (s_backend (storer_base st')) = be_provider (s_backend (storer_base st))"
    using store_save_wf [OF sv(1) assms(2)] sv(2) assms(3) by (simp_all add: store_wf_def)
  show "store_wf st'"
  proof (cases st)
    case (Plain s)
    then have "\<exists>s'. st' = Plain s'" using assms(1)
      by (auto simp: write_rev_def storer_Delete_def storer_Update_def on_ok_def
          split: if_splits prod.splits result.splits)
    then show ?thesis using b assms(3) by (auto simp: store_wf_def)
  next
    case (ReadWrite s)
    from write_rev_reader [OF assms(1) [unfolded ReadWrite]] obtain s' where s': "st' = ReadWrite s'"
      "rw_reader s' = rw_reader s \<or> (\<exists>x. meta x = meta rv \<and> rw_reader s' = cache_Set x (rw_reader s))"
      using m by blast
    have "cache_valid (rw_reader s)" using assms(3) ReadWrite by (simp add: store_wf_def)
    then have "cache_valid (rw_reader s')" using s'(2) assms(2) cache_valid_Set by auto
    then show ?thesis using b assms(3) s'(1) by (simp add: store_wf_def)
  qed
qed

section \<open>Queues\<close>

definition queue_valid :: "(Revision \<Rightarrow> string) \<Rightarrow> rev_queue \<Rightarrow> bool" where
  "queue_valid f q \<longleftrightarrow> queue_wf f q \<and> valid_revs (Cache_SafeCopy q)"

lemma queue_valid_New [simp]: "queue_valid f Cache_New"
  by (simp add: queue_valid_def queue_wf_def Cache_New_def Cache_SafeCopy_def)

lemma queue_valid_cache:
  assumes "queue_valid f q" "valid_revision (meta rv)"
  shows "queue_valid f (Cache_Cache f (Some rv) q)"
proof -
  have wf: "queue_wf f q" using assms(1) by (simp add: queue_valid_def)
  have "valid_revision (meta x)" if "x \<in> set (Cache_SafeCopy (Cache_Cache f (Some rv) q))" for x
  proof -
    have "go_get (Cache_Cache f (Some rv) q) (f x) = Some x"
      using that queue_wf_copy [OF rq.cache_inv [OF wf]] by blast
    moreover have "go_get (Cache_Cache f (Some rv) q) (f x) = Some rv
        \<or> go_get (Cache_Cache f (Some rv) q) (f x) = go_get q (f x)"
      unfolding rq.entry_cache [OF wf, of rv "f x"] by (rule if_split [THEN iffD2]) blast
    ultimately have "x = rv \<or> x \<in> set (Cache_SafeCopy q)"
      unfolding queue_wf_copy [OF wf, of x] by (metis option.inject)
    then show ?thesis using assms by (auto simp: queue_valid_def valid_revs_def)
  qed
  then show ?thesis using rq.cache_inv [OF wf] by (simp add: queue_valid_def valid_revs_def)
qed

lemma queue_valid_delete:
  assumes "queue_valid f q"
  shows "queue_valid f (Cache_Delete f (Some rv) q)"
proof -
  have wf: "queue_wf f q" using assms by (simp add: queue_valid_def)
  have "x \<in> set (Cache_SafeCopy q)" if "x \<in> set (Cache_SafeCopy (Cache_Delete f (Some rv) q))" for x
  proof -
    have "go_get (Cache_Delete f (Some rv) q) (f x) = Some x"
      using that queue_wf_copy [OF rq.delete_inv [OF wf]] by blast
    then show ?thesis
      unfolding queue_wf_copy [OF wf, of x] rq.entry_delete [OF wf, of rv "f x"] by (meson option.distinct(1))
  qed
  then show ?thesis using assms rq.delete_inv [OF wf] by (auto simp: queue_valid_def valid_revs_def)
qed

lemma queue_valid_fold:
  "queue_valid f q \<Longrightarrow> valid_revs rvs \<Longrightarrow> queue_valid f (fold (\<lambda>rv. Cache_Cache f (Some rv)) rvs q)"
  "queue_valid f q \<Longrightarrow> queue_valid f (fold (\<lambda>rv. Cache_Delete f (Some rv)) rvs q)"
  by (induction rvs arbitrary: q) (simp_all add: queue_valid_cache queue_valid_delete)

section \<open>Walks\<close>

lemma walk_loop_invariant:
  assumes "\<And>obj s r s'. obj \<in> set objs \<Longrightarrow> P s \<Longrightarrow> fn (lo_key obj) obj s = (r, s') \<Longrightarrow> P s'"
    and "P s" "walk_loop nxt fn skipped objs s = (r, s')"
  shows "P s'"
  using assms
proof (induction objs arbitrary: skipped s)
  case (Cons obj objs)
  obtain r1 s1 where f: "fn (lo_key obj) obj s = (r1, s1)" by fastforce
  have P1: "P s1" using Cons.prems(1) [of obj s r1 s1] Cons.prems(2) f by simp
  have IH: "walk_loop nxt fn sk objs t = (r, s') \<Longrightarrow> P t \<Longrightarrow> P s'" for sk t
    using Cons.IH Cons.prems(1) by (meson list.set_intros(2))
  show ?case
    using Cons.prems(2,3) f P1 IH
    by (cases r1) (auto simp: Let_def split: option.splits if_splits)
qed simp

definition state_valid :: "State \<Rightarrow> bool" where
  "state_valid st \<longleftrightarrow> go_wf st \<and> (\<forall>k l. go_get st k = Some l \<longrightarrow> valid_revs l)"

lemma state_valid_put: "state_valid st \<Longrightarrow> valid_revs l \<Longrightarrow> state_valid (go_put k l st)"
  by (auto simp: state_valid_def)

lemma state_valid_in: "state_valid st \<Longrightarrow> (k, l) \<in> set st \<Longrightarrow> valid_revs l"
  using go_get_in by (fastforce simp: state_valid_def)

lemma walked_list:
  assumes "backend_wf b" "obj \<in> set (bucket_List (be_bucket b) pre None)"
  shows "walked_obj obj"
proof -
  from assms(2) obtain k where "k \<in> set (sort (map fst (blobs (be_bucket b))))" "obj = \<lparr>lo_key = k, lo_is_dir = False\<rparr>"
    by (auto simp: bucket_List_flat)
  then show ?thesis using backend_wf_keys [OF assms(1)] by (auto simp: walked_obj_def)
qed

lemma state_add_valid:
  "state_valid res \<Longrightarrow> valid_revision (meta rv) \<Longrightarrow> state_valid (state_add opt rv res)"
  by (auto simp: state_add_def Let_def state_valid_def split: option.split)

lemma state_walkFn_invariant:
  assumes "walked_obj obj" "state_valid (fst st)" "s_backend (snd st) = b"
    "state_walkFn opt (lo_key obj) obj st = (r, st')"
  shows "state_valid (fst st') \<and> s_backend (snd st') = b"
  using assms(1)
proof (cases rule: walked_objE)
  case 1
  then show ?thesis using assms(2-4) state_walkFn_config [of "lo_key obj" obj opt "fst st" "snd st"] by simp
next
  case (2 rv)
  let ?rv = "LazyLoadingRevision rv None"
  obtain ru s1 rv1 where c: "Content ?rv (snd st) = (ru, (s1, rv1))" by (metis surj_pair)
  then have "s_backend s1 = b" "meta rv1 = rv"
    using Content_backend [of ?rv "snd st"] Content_meta [of ?rv "snd st"] assms(3) by simp_all
  then show ?thesis
    using assms(2-4) 2 c
    by (cases st; cases ru)
      (auto simp: state_walkFn_def state_add_valid split: if_splits option.splits result.splits)
qed

lemma store_State_valid:
  assumes "store_State opt s = (Ok (state, e), s')" "backend_wf (s_backend s)"
  shows "state_valid state \<and> s_backend s' = s_backend s"
proof -
  let ?b = "s_backend s"
  obtain r st where w: "Backend_Walk ?b (state_root opt) (state_walkFn opt) ([], s) = (r, st)" by (metis surj_pair)
  have "state_valid (fst st) \<and> s_backend (snd st) = ?b"
    using w unfolding Backend_Walk_def
  proof (rule walk_loop_invariant [where P = "\<lambda>st. state_valid (fst st) \<and> s_backend (snd st) = ?b", rotated 2])
    fix obj t r t' assume "obj \<in> set (bucket_List (be_bucket ?b) (state_root opt) None)"
      "state_valid (fst t) \<and> s_backend (snd t) = ?b" "state_walkFn opt (lo_key obj) obj t = (r, t')"
    then show "state_valid (fst t') \<and> s_backend (snd t') = ?b"
      using state_walkFn_invariant [OF walked_list [OF assms(2)]] by blast
  qed (simp add: state_valid_def)
  then show ?thesis
    using assms(1) w by (cases st; cases r)
      (auto simp: store_State_def state_valid_def split: option.splits result.splits)
qed

lemma sync_walkFn_invariant:
  assumes "walked_obj obj" "state_valid (fst st) \<and> valid_revs (snd st)"
    "sync_walkFn du hs (lo_key obj) obj st = (r, st')"
  shows "state_valid (fst st') \<and> valid_revs (snd st')"
  using assms(1)
proof (cases rule: walked_objE)
  case 1
  then show ?thesis using assms(2,3) sync_walkFn_config [of "lo_key obj" obj du hs st] by simp
next
  case (2 rv)
  have "state_valid (fst (sync_step du hs (LazyLoadingRevision rv None) st))
      \<and> valid_revs (snd (sync_step du hs (LazyLoadingRevision rv None) st))"
    using assms(2) 2(1) by (auto simp: sync_step_def state_valid_def split: option.split)
  then show ?thesis
    using assms(2,3) 2(4) by (auto simp: sync_walkFn_rev split: option.splits if_splits)
qed

lemma store_Sync_valid:
  assumes "store_Sync hs s = Ok (state, gone, e)" "backend_wf (s_backend s)"
  shows "state_valid state \<and> valid_revs gone"
proof -
  let ?fn = "sync_walkFn (s_deleteUntracked s) hs"
  obtain r st where w: "Backend_Walk (s_backend s) [] ?fn ([], []) = (r, st)" by (metis surj_pair)
  have "state_valid (fst st) \<and> valid_revs (snd st)"
    using w unfolding Backend_Walk_def
  proof (rule walk_loop_invariant [where P = "\<lambda>st. state_valid (fst st) \<and> valid_revs (snd st)", rotated 2])
    fix obj t r t' assume "obj \<in> set (bucket_List (be_bucket (s_backend s)) [] None)"
      "state_valid (fst t) \<and> valid_revs (snd t)" "?fn (lo_key obj) obj t = (r, t')"
    then show "state_valid (fst t') \<and> valid_revs (snd t')"
      using sync_walkFn_invariant [OF walked_list [OF assms(2)]] by blast
  qed (simp add: state_valid_def)
  then show ?thesis
    using assms(1) w by (cases st; cases r) (auto simp: store_Sync_def)
qed

lemma storer_Sync_wf:
  assumes "storer_Sync hs st = (Ok (state, gone), st')" "store_wf st"
  shows "store_wf st' \<and> valid_revs gone"
proof (cases st)
  case (Plain s)
  then show ?thesis
    using assms store_Sync_valid [of hs s]
    by (auto simp: storer_Sync_def store_wf_def result_bind_eq_Ok split: option.splits)
next
  case (ReadWrite s)
  then obtain s' where rw: "rw_Sync hs s = (Ok (state, gone), s')" "st' = ReadWrite s'"
    using assms(1) by (auto simp: storer_Sync_def split: prod.splits)
  then have sy: "store_Sync hs (rw_storer s) = Ok (state, gone, None)"
    by (auto simp: rw_Sync_def on_ok_def rw_create_all_ok split: result.splits prod.splits option.splits)
  have v: "state_valid state" "valid_revs gone"
    using store_Sync_valid [OF sy] assms(2) ReadWrite by (simp_all add: store_wf_def)
  then have "valid_revs (concat (map snd state))"
    using state_valid_in by (fastforce simp: valid_revs_def)
  then show ?thesis
    using rw_Sync_spec [OF sy] rw v(2) assms(2) ReadWrite by (simp add: store_wf_def cache_valid_fold)
qed

lemma storer_State_wf:
  assumes "storer_State reap_options st = (Ok (state, e), st')" "store_wf st"
  shows "store_wf st' \<and> (\<forall>(k, l) \<in> set state. valid_revs l)"
proof (cases st)
  case (Plain s)
  then obtain s' where "store_State reap_options s = (Ok (state, e), s')" "st' = Plain s'"
    using assms(1) by (auto simp: storer_State_def split: prod.splits)
  then show ?thesis
    using store_State_valid [of reap_options s] state_valid_in assms(2) Plain
    by (fastforce simp: store_wf_def)
next
  case (ReadWrite s)
  then have c: "cache_valid (rw_reader s)" using assms(2) by (simp add: store_wf_def)
  have m: "mem_State reap_options (rw_reader s) = Ok state" "st' = st"
    using assms(1) ReadWrite by (auto simp: storer_State_def rw_State_def result_bind_eq_Ok)
  have "valid_revs l" if "(k, l) \<in> set state" for k l
  proof -
    from mem_state_all [of "rw_reader s"] m(1) c that obtain revs where
      "go_get (rc_m (rw_reader s)) k = Some revs" "l = sort_revs (map snd revs)"
      by (fastforce simp: cache_valid_def)
    then have "set l = set (cache_List k (rw_reader s))" by (simp add: cache_List_def)
    then show ?thesis using cache_valid_List [OF c, of k] by (simp add: valid_revs_def)
  qed
  then show ?thesis using m(2) assms(2) by auto
qed

section \<open>Reading\<close>

text \<open>Reading changes neither the backend nor whether the store is well formed.\<close>

abbreviation store_backend :: "storer \<Rightarrow> Backend" where
  "store_backend st \<equiv> s_backend (storer_base st)"

lemma state_walkFn_backend:
  assumes "state_walkFn opt path info st = (r, st')"
  shows "s_backend (snd st') = s_backend (snd st)"
proof -
  obtain res s where st: "st = (res, s)" by fastforce
  show ?thesis
  proof (cases "walked_revision path info")
    case (Ok parsed)
    show ?thesis
    proof (cases parsed)
      case (Some rv)
      obtain ru s1 rv1 where c: "Content rv s = (ru, (s1, rv1))" by (metis surj_pair)
      then have "s_backend s1 = s_backend s" using Content_backend [of rv s] by simp
      then show ?thesis
        using assms Ok Some c st
        by (cases ru) (auto simp: state_walkFn_def split: if_splits option.splits result.splits)
    qed (use assms Ok st in \<open>auto simp: state_walkFn_def\<close>)
  qed (use assms st in \<open>auto simp: state_walkFn_def\<close>)
qed

lemma store_State_backend: "s_backend (snd (store_State opt s)) = s_backend s"
proof -
  let ?b = "s_backend s"
  obtain r st where w: "Backend_Walk ?b (state_root opt) (state_walkFn opt) ([], s) = (r, st)" by (metis surj_pair)
  have "s_backend (snd st) = ?b"
    using w unfolding Backend_Walk_def
    by (rule walk_loop_invariant [where P = "\<lambda>st. s_backend (snd st) = ?b", rotated 2])
      (auto dest: state_walkFn_backend)
  then show ?thesis using w by (cases st) (auto simp: store_State_def split: option.splits result.splits)
qed

lemma storer_State_backend: "store_backend (snd (storer_State opt st)) = store_backend st"
  using store_State_backend by (cases st) (simp_all add: storer_State_def Let_def split_beta)

lemma storer_Content_frame:
  assumes "storer_Content rv st = (r, (st', rv'))"
  shows "store_wf st' = store_wf st" "meta rv' = meta rv" "store_backend st' = store_backend st"
proof -
  obtain r0 s0 rv0 where c: "Content rv (storer_base st) = (r0, (s0, rv0))" by (metis surj_pair)
  then have "s_backend s0 = s_backend (storer_base st)" using Content_backend [of rv "storer_base st"] by simp
  then show "store_wf st' = store_wf st" "store_backend st' = store_backend st"
    using assms c store_wf_set_base by (auto simp: storer_Content_def)
  show "meta rv' = meta rv" using assms c Content_meta' [OF c] by (simp add: storer_Content_def)
qed

lemma rule_loop_backend:
  "rule_loop rules sp ret st = (r, st') \<Longrightarrow> s_backend (fst st') = s_backend (fst st)"
proof (induction rules arbitrary: sp ret st)
  case (Cons rule rules)
  obtain lm st1 where lm: "label_match rule st = (lm, st1)" by (cases "label_match rule st")
  have b: "s_backend (fst st1) = s_backend (fst st)"
  proof (cases "br_LabelSelector rule")
    case None
    then show ?thesis using lm by (simp add: label_match_def)
  next
    case (Some sel)
    obtain c s' rv' where c: "Content (snd st) (fst st) = (c, (s', rv'))" by (metis surj_pair)
    then have "s_backend s' = s_backend (fst st)" using Content_backend [of "snd st" "fst st"] by simp
    then show ?thesis using lm Some c by (cases c) (auto simp: label_match_def)
  qed
  show ?case
  proof (cases lm)
    case (Ok l)
    then show ?thesis using Cons.prems lm b Cons.IH by (auto simp: Let_def split: if_splits)
  qed (use Cons.prems lm b Cons.IH in auto)
qed simp

lemma storer_RuleFor_frame:
  assumes "storer_RuleFor pol rv st = (r, (st', rv'))"
  shows "store_wf st' = store_wf st" "meta rv' = meta rv" "store_backend st' = store_backend st"
proof -
  obtain r0 s0 rv0 where rl: "rule_loop (bp_Rules pol) 0 None (storer_base st, rv) = (r0, (s0, rv0))"
    by (metis surj_pair)
  then have "s_backend s0 = s_backend (storer_base st)" using rule_loop_backend [OF rl] by simp
  moreover have "st' = set_base s0 st"
    using assms rl by (cases r0) (auto simp: storer_RuleFor_def RuleFor_def split: option.splits)
  ultimately show "store_wf st' = store_wf st" "store_backend st' = store_backend st"
    using store_wf_set_base by simp_all
  show "meta rv' = meta rv" by (rule storer_RuleFor_meta [OF assms])
qed

lemma storer_Get_frame:
  assumes "storer_Get rv st = (r, st')"
  shows "store_wf st' = store_wf st" "store_backend st' = store_backend st"
proof -
  have "store_wf st' = store_wf st \<and> store_backend st' = store_backend st"
  proof (cases st)
    case (Plain s)
    obtain r0 s0 where "ns_Get rv s = (r0, s0)" by fastforce
    then show ?thesis using assms Plain ns_Get_backend [of rv s] by (auto simp: storer_Get_def store_wf_def)
  qed (use assms in \<open>simp add: storer_Get_def\<close>)
  then show "store_wf st' = store_wf st" "store_backend st' = store_backend st" by simp_all
qed

text \<open>What a well-formed store lists is valid.\<close>

lemma readdir_loop_faultless:
  "readdir_loop b acc objs = Ok l \<Longrightarrow> readdir_loop (b\<lparr>faults := \<lambda>_ _. None\<rparr>) acc objs = Ok l"
  by (induction objs arbitrary: acc) (auto split: option.splits)

lemma storer_List_valid:
  assumes "storer_List ns apiVersion kind nm st = Ok revs" "store_wf st"
  shows "valid_revs revs" "\<forall>rv \<in> set revs. rev_ResourceKey rv = ResourceKey apiVersion kind ns nm"
proof -
  have "valid_revs revs \<and> (\<forall>rv \<in> set revs. rev_ResourceKey rv = ResourceKey apiVersion kind ns nm)"
  proof (cases st)
    case (Plain s)
    let ?b = "s_backend s"
    let ?s = "s\<lparr>s_backend := ?b\<lparr>be_bucket := (be_bucket ?b)\<lparr>faults := \<lambda>_ _. None\<rparr>\<rparr>\<rparr>"
    have l: "ns_List ns apiVersion kind nm s = Ok revs" using assms(1) Plain by (simp add: storer_List_def)
    then have "ns_List ns apiVersion kind nm ?s = Ok revs"
      using readdir_loop_faultless [of "be_bucket ?b"]
      by (auto simp: ns_List_def Backend_ReadDir_def bucket_List_def Let_def result_bind_eq_Ok)
    moreover have wf: "backend_wf (s_backend ?s)" "fault_free (s_backend ?s)"
      using assms(2) Plain by (simp_all add: store_wf_def backend_wf_def fault_free_def)
    ultimately show ?thesis
      using ns_List_spec [OF wf, of ns apiVersion kind nm] stored_revs_valid [OF wf(1)]
      by (auto simp: valid_revs_def)
  next
    case (ReadWrite s)
    let ?k = "ResourceKey apiVersion kind ns nm"
    have c: "cache_valid (rw_reader s)" "revs = cache_List ?k (rw_reader s)"
      using assms ReadWrite
      by (auto simp: store_wf_def storer_List_def rw_List_def mem_List_def Let_def split: if_splits)
    have "rev_ResourceKey rv = ?k" if "rv \<in> set revs" for rv
    proof -
      from that c(2) obtain rs where "go_get (rc_m (rw_reader s)) ?k = Some rs" "rv \<in> snd ` set rs"
        by (auto simp: cache_List_def split: option.splits)
      then show ?thesis using c(1) cache_wf_get(2) by (fastforce simp: cache_valid_def)
    qed
    then show ?thesis using cache_valid_List [OF c(1)] c(2) by simp
  qed
  then show "valid_revs revs" "\<forall>rv \<in> set revs. rev_ResourceKey rv = ResourceKey apiVersion kind ns nm"
    by simp_all
qed

section \<open>Purging\<close>

lemma backend_wf_remove: "backend_wf b \<Longrightarrow> backend_wf (snd (Backend_Remove b k))"
  by (auto simp: blob_defs Let_def backend_wf_def set_go_del split: option.split)

lemma remove_each_wf:
  "backend_wf b \<Longrightarrow> backend_wf (snd (remove_each b ks acc err))
     \<and> be_provider (snd (remove_each b ks acc err)) = be_provider b"
proof (induction ks arbitrary: b acc err)
  case (Cons k ks)
  obtain r b' where r: "Backend_Remove b k = (r, b')" by (cases "Backend_Remove b k")
  then have "backend_wf b'" "be_provider b' = be_provider b"
    using backend_wf_remove [OF Cons.prems, of k] Backend_Remove_frame(2) [of b k] by simp_all
  with r Cons.IH show ?case by (cases r) simp_all
qed simp

lemma purge_each_wf:
  "purge_each ks acc s = (r, s') \<Longrightarrow> backend_wf (s_backend s) \<Longrightarrow>
     backend_wf (s_backend s') \<and> be_provider (s_backend s') = be_provider (s_backend s)"
proof (induction ks arbitrary: acc s)
  case (Cons k ks)
  obtain r0 b where b: "Backend_Remove (s_backend s) k = (r0, b)" by fastforce
  then have wf: "backend_wf b" "be_provider b = be_provider (s_backend s)"
    using backend_wf_remove [OF Cons.prems(2), of k] Backend_Remove_frame(2) [of "s_backend s" k] by simp_all
  let ?s = "s\<lparr>s_backend := b\<rparr>"
  have IH: "purge_each ks acc' ?s = (r, s') \<Longrightarrow> ?case" for acc'
    using Cons.IH [of acc' ?s] wf by simp
  show ?case
  proof (cases r0)
    case (Ok x)
    show ?thesis
    proof (cases "ParseLazyLoadingRevision k")
      case p: (Ok rv)
      show ?thesis using Cons.prems(1) b by (intro IH [of "acc @ [rv]"]) (simp add: Ok p)
    next
      case p: (Err e)
      show ?thesis using Cons.prems(1) b by (intro IH [of acc]) (simp add: Ok p)
    qed (use parse_no_crash in simp)
  next
    case (Err e)
    show ?thesis using Cons.prems(1) b by (intro IH [of acc]) (simp add: Err)
  next
    case (Crash c)
    then show ?thesis using Backend_Remove_result(2) [of "s_backend s" k c] b by simp
  qed
qed simp

lemma PurgeRevisions_wf:
  assumes "PurgeRevisions revs s = (r, s')" "backend_wf (s_backend s)"
    "be_provider (s_backend s) \<noteq> S3Provider"
  shows "backend_wf (s_backend s') \<and> be_provider (s_backend s') = be_provider (s_backend s)"
proof -
  let ?keys = "map rev_Key revs"
  consider "revs = []" | "revs \<noteq> []" "s_bulk s" | "revs \<noteq> []" "\<not> s_bulk s" by blast
  then show ?thesis
  proof cases
    case 1
    then show ?thesis using assms by (simp add: PurgeRevisions_def)
  next
    case 2
    obtain ks err b where b: "remove_each (s_backend s) ?keys [] None = ((ks, err), b)" by (metis surj_pair)
    have "s' = s\<lparr>s_backend := b\<rparr>"
      using assms(1,3) 2 b
      by (cases "parse_deleted ks []") (simp_all add: PurgeRevisions_def Backend_RemoveAll_def)
    then show ?thesis using remove_each_wf [OF assms(2), of ?keys "[]" None] b by simp
  next
    case 3
    obtain r1 s1 where each: "purge_each ?keys [] s = (r1, s1)" by fastforce
    then have "s' = s1" using assms(1) 3 by (cases r1) (simp_all add: PurgeRevisions_def)
    then show ?thesis using purge_each_wf [OF each assms(2)] by simp
  qed
qed

lemma storer_PurgeRevisions_wf:
  assumes "storer_PurgeRevisions revs st = (r, st')" "store_wf st"
  shows "store_wf st'"
proof (cases st)
  case (Plain s)
  obtain r1 s1 where p: "PurgeRevisions revs s = (r1, s1)" by fastforce
  then show ?thesis using assms Plain PurgeRevisions_wf [OF p]
    by (auto simp: storer_PurgeRevisions_def store_wf_def)
next
  case (ReadWrite s)
  obtain r1 s1 where p: "PurgeRevisions revs (rw_storer s) = (r1, s1)" by fastforce
  then have wf: "backend_wf (s_backend s1)" "be_provider (s_backend s1) \<noteq> S3Provider"
    "cache_valid (rw_reader s)"
    using PurgeRevisions_wf [OF p] assms(2) ReadWrite by (simp_all add: store_wf_def)
  show ?thesis
  proof (cases r1)
    case (Ok x)
    then obtain gone err where "PurgeRevisions revs (rw_storer s) = (Ok (gone, err), s1)"
      using p by (cases x) simp
    from rw_PurgeRevisions_spec [OF this] show ?thesis
      using assms(1) ReadWrite wf by (auto simp: storer_PurgeRevisions_def store_wf_def cache_valid_fold)
  qed (use assms(1) ReadWrite wf p in
      \<open>auto simp: storer_PurgeRevisions_def rw_PurgeRevisions_def store_wf_def\<close>)
qed

lemma purger_purge_wf:
  assumes "purger_purge p st = (r, (p', st'))" "store_wf st" "queue_valid purgeKeyFunc (pu_c p)"
  shows "store_wf st'" "queue_valid purgeKeyFunc (pu_c p')"
proof -
  obtain r1 st1 where pr: "storer_PurgeRevisions (Cache_SafeCopy (pu_c p)) st = (r1, st1)" by fastforce
  note wf = storer_PurgeRevisions_wf [OF pr assms(2)]
  show "store_wf st'" using assms(1,2) pr wf
    by (cases r1) (auto simp: purger_purge_def Let_def split: if_splits)
  show "queue_valid purgeKeyFunc (pu_c p')" using assms(1,3) pr
    by (cases r1) (auto simp: purger_purge_def Let_def queue_valid_fold split: if_splits)
qed

end
