(* ===== verification/System.thy ===== *)
theory System
  imports Well_Formed
begin

text \<open>
  The operator as a transition system.  Its goroutines are the workers, the two flush loops (of
  the queue and of the retry cache), the purger and the reaper; they interleave at the single
  writes of a flush and at whole work items, purges and reaps.  The invariant of theory
  Well\_Formed holds in every state that the operator reaches without ending.
\<close>

section \<open>The flusher\<close>

definition flusher_valid :: "flusher \<Rightarrow> bool" where
  "flusher_valid f \<longleftrightarrow> queue_valid flushKeyFunc (fl_c f) \<and> queue_valid errorKeyFunc (fl_retryCache f)"

lemma flusher_Queue_valid:
  "flusher_valid f \<Longrightarrow> valid_revision (meta rv) \<Longrightarrow> flusher_valid (flusher_Queue rv f)"
  by (simp add: flusher_valid_def flusher_Queue_def queue_valid_cache)

lemma flush_loop_wf:
  assumes "flush_loop rvs failed c st = (r, (c', st'))" "store_wf st" "valid_revs rvs"
    "valid_revs failed" "queue_valid flushKeyFunc c"
  shows "store_wf st' \<and> queue_valid flushKeyFunc c' \<and> (\<forall>failed'. r = Ok failed' \<longrightarrow> valid_revs failed')"
  using assms
proof (induction rvs arbitrary: failed c st)
  case (Cons rv rvs)
  obtain r1 st1 rv1 where w: "write_rev rv st = (r1, (st1, rv1))" by (metis surj_pair)
  have v: "valid_revision (meta rv)" "valid_revs rvs" using Cons.prems(3) by simp_all
  note wf = write_rev_wf [OF w v(1) Cons.prems(2)]
  show ?case
  proof (cases "\<exists>x. r1 = Crash x")
    case True
    then show ?thesis using Cons.prems(1,5) w wf by auto
  next
    case False
    let ?failed = "if err_of r1 \<noteq> None then failed @ [rv1] else failed"
    have "flush_loop rvs ?failed (Cache_Delete flushKeyFunc (Some rv1) c) st1 = (r, (c', st'))"
      using Cons.prems(1) w False by (cases r1) auto
    moreover have "valid_revs ?failed" using Cons.prems(4) wf(2) v(1) by simp
    ultimately show ?thesis
      using Cons.IH wf(1) v(2) queue_valid_delete [OF Cons.prems(5)] by blast
  qed
qed auto

lemma retry_all_valid:
  "queue_valid errorKeyFunc q \<Longrightarrow> valid_revs failed \<Longrightarrow>
     queue_valid errorKeyFunc (flusher_retry_all failed q)"
  by (simp add: flusher_retry_all_def queue_valid_fold)

lemma flusher_tick_wf:
  assumes "flusher_tick retry f st = (r, (f', st'))" "store_wf st" "flusher_valid f"
  shows "store_wf st' \<and> flusher_valid f'"
proof -
  let ?rvs = "Cache_SafeCopy (if retry then fl_retryCache f else fl_c f)"
  obtain r1 c1 st1 where l: "flush_loop ?rvs [] (fl_c f) st = (r1, (c1, st1))" by (metis surj_pair)
  have "valid_revs ?rvs" "queue_valid flushKeyFunc (fl_c f)" "queue_valid errorKeyFunc (fl_retryCache f)"
    using assms(3) by (simp_all add: flusher_valid_def queue_valid_def)
  with flush_loop_wf [OF l assms(2)] assms(1) l show ?thesis
    by (cases r1) (auto simp: flusher_tick_def Let_def flusher_valid_def retry_all_valid)
qed

text \<open>A running flush.\<close>

definition flush_valid :: "flush_state \<Rightarrow> bool" where
  "flush_valid s \<longleftrightarrow> valid_revs (fs_todo s) \<and> valid_revs (fs_running s)
     \<and> valid_revs (map fst (fs_sending s)) \<and> valid_revs (fs_failed s)"

lemma valid_revs_remove1: "valid_revs rvs \<Longrightarrow> valid_revs (remove1 rv rvs)"
  using set_remove1_subset [of rv rvs] by (auto simp: valid_revs_def)

lemma valid_revs_sending:
  "valid_revs (map fst ps) \<Longrightarrow> valid_revs (map fst (remove1 p ps))"
  using set_remove1_subset [of p ps] by (auto simp: valid_revs_def)

lemma flush_step_valid:
  assumes "flush_step n s s'" "flush_valid s" "store_wf (fs_storer s)"
    "queue_valid flushKeyFunc (fs_c s)"
  shows "flush_valid s' \<and> store_wf (fs_storer s') \<and> queue_valid flushKeyFunc (fs_c s')"
  using assms(1)
proof cases
  case (wrote rv resp st rv')
  from wrote(3) obtain r where w: "write_rev rv (fs_storer s) = (r, (st, rv'))" by (rule async_write_ok)
  have v: "valid_revision (meta rv)" using wrote(2) assms(2) by (auto simp: flush_valid_def valid_revs_def)
  show ?thesis
    using wrote(1) write_rev_wf [OF w v assms(3)] assms(2,4) v
    by (simp add: flush_valid_def valid_revs_remove1)
next
  case (received rv e)
  have v: "valid_revision (meta rv)"
    using received(2) assms(2) by (force simp: flush_valid_def valid_revs_def)
  show ?thesis
    using received(1) assms(2-4) v
    by (simp add: flush_valid_def valid_revs_sending queue_valid_delete)
qed (use assms in \<open>simp_all add: flush_valid_def\<close>)

section \<open>The reaper, the sync and the workers\<close>

lemma storer_State_frame:
  assumes "storer_State reap_options st = (r, st')" "store_wf st" "\<forall>c. r \<noteq> Crash c"
  shows "store_wf st'"
proof (cases r)
  case (Ok p)
  then show ?thesis using assms(1,2) storer_State_wf [of st] by (cases p) auto
next
  case (Err e)
  then show ?thesis using assms(1,2)
    by (cases st) (auto simp: storer_State_def store_State_def reap_options_def split: prod.splits result.splits)
qed (use assms(3) in simp)

lemma reap_list_frame:
  "reap_list pol clock revs count acc st = (r, st') \<Longrightarrow>
     store_wf st' = store_wf st \<and> store_backend st' = store_backend st"
proof (induction revs arbitrary: count acc st)
  case (Cons rv revs)
  obtain r1 st1 rv1 where rf: "storer_RuleFor pol rv st = (r1, (st1, rv1))" by (metis surj_pair)
  note f = storer_RuleFor_frame(1,3) [OF rf]
  show ?case
  proof (cases "\<exists>rule p. r1 = Ok (Some rule) \<and> br_RPOPolicy rule = Some p")
    case True
    then show ?thesis using Cons.prems Cons.IH rf f by (auto simp: Let_def split: if_splits)
  next
    case False
    then show ?thesis using Cons.prems Cons.IH rf f
      by (cases r1) (auto simp: Let_def split: if_splits option.splits)
  qed
qed simp

lemma reap_loop_frame:
  "reap_loop pol clock state count acc st = (r, st') \<Longrightarrow>
     store_wf st' = store_wf st \<and> store_backend st' = store_backend st"
proof (induction state arbitrary: count acc st)
  case (Cons p state)
  obtain k revs where p: "p = (k, revs)" by (cases p)
  obtain r1 st1 where l: "reap_list pol clock revs count acc st = (r1, st1)" by fastforce
  then show ?case using Cons reap_list_frame [OF l] by (cases r1) (auto simp: p)
qed simp

lemma reap_wf:
  assumes "reap pol clock p st = (r, (p', st'))" "\<forall>c. r \<noteq> Crash c" "store_wf st"
    "queue_valid purgeKeyFunc (pu_c p)"
  shows "store_wf st' \<and> queue_valid purgeKeyFunc (pu_c p')"
proof -
  obtain r1 st1 where s: "storer_State reap_options st = (r1, st1)" by fastforce
  have "\<forall>c. r1 \<noteq> Crash c" using assms(1,2) s by (auto simp: reap_def)
  then have wf1: "store_wf st1" using storer_State_frame [OF s assms(3)] by simp
  show ?thesis
  proof (cases "\<exists>state. r1 = Ok (state, None)")
    case False
    then show ?thesis using assms(1,4) s wf1
      by (cases r1) (auto simp: reap_def split: option.splits)
  next
    case True
    then obtain state where st: "storer_State reap_options st = (Ok (state, None), st1)" using s by auto
    obtain r2 st2 where l: "reap_loop pol clock state 0 [] st1 = (r2, st2)" by fastforce
    have wf2: "store_wf st2" using reap_loop_frame [OF l] wf1 by simp
    show ?thesis
    proof (cases r2)
      case (Ok due)
      obtain n revs where due: "due = (n, revs)" by (cases due)
      have "valid_revision (meta rv)" if "rv \<in> set revs" for rv
      proof -
        from reap_loop_sound [OF l [unfolded Ok due] that] obtain k l i where
          "(k, l) \<in> set state" "i < length l" "meta rv = meta (l ! i)" by auto
        then show ?thesis using storer_State_wf [OF st assms(3)] by (auto simp: valid_revs_def)
      qed
      then have "valid_revs revs" by (simp add: valid_revs_def)
      moreover have "p' = fold purger_Queue revs p" "st' = st2"
        using assms(1) st l Ok due by (simp_all add: reap_def)
      ultimately show ?thesis using assms(4) wf2 by (simp add: purger_Queue_fold queue_valid_fold)
    qed (use assms(1,4) st l wf2 in \<open>auto simp: reap_def\<close>)
  qed
qed

definition operator_wf :: "operator \<Rightarrow> bool" where
  "operator_wf opr \<longleftrightarrow> store_wf (op_store opr) \<and> flusher_valid (op_flusher opr)
     \<and> queue_valid purgeKeyFunc (pu_c (op_purger opr))"

lemma storer_Sync_frame:
  assumes "storer_Sync hs st = (r, st')" "store_wf st" "\<forall>x. r \<noteq> Ok x"
  shows "store_wf st'"
proof (cases st)
  case (ReadWrite s)
  then have "rw_Sync hs s = (r, s)"
    using assms(1,3)
    by (cases "store_Sync hs (rw_storer s)")
      (auto simp: storer_Sync_def rw_Sync_def rw_create_all_ok split: prod.splits option.splits)
  then show ?thesis using assms(1,2) ReadWrite by (simp add: storer_Sync_def)
qed (use assms in \<open>simp add: storer_Sync_def\<close>)

lemma syncStore_wf:
  assumes "syncStore opr = (r, opr')" "operator_wf opr"
  shows "operator_wf opr'"
proof -
  obtain r1 st1 where s: "storer_Sync (op_handlers opr) (op_store opr) = (r1, st1)" by fastforce
  show ?thesis
  proof (cases r1)
    case (Ok p)
    obtain state gone where p: "p = (state, gone)" by (cases p)
    have wf: "store_wf st1" "valid_revs gone"
      using storer_Sync_wf [OF s [unfolded Ok p]] assms(2) by (simp_all add: operator_wf_def)
    have "flusher_valid (fold (\<lambda>rv. flusher_Queue (SetDeleted True rv)) gone f)" if "flusher_valid f" for f
      using that wf(2)
    proof (induction gone arbitrary: f)
      case (Cons rv gone)
      then have "flusher_valid (flusher_Queue (SetDeleted True rv) f)"
        by (intro flusher_Queue_valid) simp_all
      with Cons show ?case by simp
    qed simp
    then show ?thesis using assms s Ok p wf(1) by (auto simp: syncStore_def operator_wf_def)
  qed (use assms s storer_Sync_frame [OF s] in \<open>auto simp: syncStore_def operator_wf_def\<close>)
qed

lemma handleResourceFilter_frame:
  assumes "handleResourceFilter rv rule st = (r, (st', rv'))"
  shows "store_wf st' = store_wf st" "meta rv' = meta rv" "store_backend st' = store_backend st"
proof -
  obtain r1 st1 rv1 where c: "storer_Content rv st = (r1, (st1, rv1))" by (metis surj_pair)
  show "store_wf st' = store_wf st" "meta rv' = meta rv" "store_backend st' = store_backend st"
    using assms c storer_Content_frame [OF c]
    by (cases r1; auto simp: handleResourceFilter_def split: if_splits option.splits)+
qed

lemma different_frame:
  assumes "different old rv fs st = (r, st')"
  shows "store_wf st' = store_wf st" "store_backend st' = store_backend st"
proof -
  have "store_wf st' = store_wf st \<and> store_backend st' = store_backend st"
  proof (cases old)
    case (Some o')
    obtain r1 st1 rv1 where c1: "storer_Content o' st = (r1, (st1, rv1))" by (metis surj_pair)
    obtain r2 st2 rv2 where c2: "storer_Content rv st1 = (r2, (st2, rv2))" by (metis surj_pair)
    show ?thesis
      using assms Some c1 c2 storer_Content_frame(1,3) [OF c1] storer_Content_frame(1,3) [OF c2]
      by (cases r1; cases r2) (auto simp: different_def split: if_splits)
  qed (use assms in \<open>simp add: different_def\<close>)
  then show "store_wf st' = store_wf st" "store_backend st' = store_backend st" by simp_all
qed

lemma handleDeletion_valid:
  "flusher_valid fl \<Longrightarrow> valid_revision (meta rv) \<Longrightarrow> flusher_valid (snd (handleDeletion h rv fl))"
  by (simp add: handleDeletion_cases flusher_Queue_valid)

lemma operator_wf_queue:
  assumes "operator_wf opr" "store_wf st" "valid_revision (meta u)"
  shows "operator_wf (opr\<lparr>op_store := st, op_flusher := flusher_Queue u (op_flusher opr)\<rparr>)"
  using assms by (simp add: operator_wf_def flusher_Queue_valid)

lemma operator_wf_store: "operator_wf opr \<Longrightarrow> store_wf st = store_wf (op_store opr) \<Longrightarrow> operator_wf (opr\<lparr>op_store := st\<rparr>)"
  by (simp add: operator_wf_def)

lemma processUnstructured_wf:
  assumes "processUnstructured now item opr = (r, opr')" "operator_wf opr"
    "valid_revision (meta (snd (item_revisions now item)))"
  shows "operator_wf opr'"
proof -
  have rule: "store_wf st' = store_wf st \<and> meta rv' = meta rv"
    if "storer_RuleFor pol rv st = (r, (st', rv'))" for pol rv st r st' rv'
    using storer_RuleFor_frame [OF that] by blast
  have filtered: "store_wf st' = store_wf st \<and> meta rv' = meta rv"
    if "handleResourceFilter rv rule st = (r, (st', rv'))" for rv rule st r st' rv'
    using handleResourceFilter_frame [OF that] by blast
  have wf: "store_wf (op_store opr)" using assms(2) by (simp add: operator_wf_def)
  have "operator_wf (snd (processUnstructured now item opr))"
    unfolding processUnstructured_def handleDeletion_cases using assms(2,3) wf
    by (auto simp: handleRotation_nothing split: prod.split option.split result.split
        intro!: on_ok_keeps [where P = operator_wf] operator_wf_queue operator_wf_store
        dest!: rule filtered storer_Get_frame(1) different_frame(1))
  then show ?thesis using assms(1) by simp
qed

section \<open>The transition system\<close>

text \<open>
  \<open>sy_flush\<close> and \<open>sy_retry\<close> are the flushes of the two loops of the flusher while they run.  Both
  write to the one store, delete from the one queue and share the slots of the semaphore: the
  view of a flush has the operator's store and queue in it.
\<close>

record system =
  sy_op :: operator
  sy_flush :: "flush_state option"
  sy_retry :: "flush_state option"

definition flush_view :: "operator \<Rightarrow> flush_state \<Rightarrow> flush_state" where
  "flush_view opr fs = fs\<lparr>fs_c := fl_c (op_flusher opr), fs_storer := op_store opr\<rparr>"

definition flush_back :: "flush_state \<Rightarrow> operator \<Rightarrow> operator" where
  "flush_back fs opr = opr\<lparr>op_flusher := (op_flusher opr)\<lparr>fl_c := fs_c fs\<rparr>, op_store := fs_storer fs\<rparr>"

definition retry_failed :: "flush_state \<Rightarrow> operator \<Rightarrow> operator" where
  "retry_failed fs opr = opr\<lparr>op_flusher := (op_flusher opr)
     \<lparr>fl_retryCache := flusher_retry_all (fs_failed fs) (fl_retryCache (op_flusher opr))\<rparr>\<rparr>"

definition begin_flush :: "bool \<Rightarrow> operator \<Rightarrow> flush_state" where
  "begin_flush retry opr = flush_start
     (Cache_SafeCopy (if retry then fl_retryCache (op_flusher opr) else fl_c (op_flusher opr)))
     (fl_c (op_flusher opr)) (op_store opr)"

definition slots :: "flush_state option \<Rightarrow> int" where
  "slots fo = (case fo of None \<Rightarrow> 0
     | Some fs \<Rightarrow> int (length (fs_running fs) + length (fs_sending fs)))"

text \<open>
  \<open>sem\<close> is the semaphore of the store.  The informers may change the handlers at any time; a step
  that ends the process is not a step.  Objects from the API server have valid names.
\<close>

inductive system_step :: "int option \<Rightarrow> system \<Rightarrow> system \<Rightarrow> bool" for sem :: "int option" where
  informer: "system_step sem s (s\<lparr>sy_op := (sy_op s)\<lparr>op_handlers := hs\<rparr>\<rparr>)"
| work: "processUnstructured now item (sy_op s) = (Ok cont, opr)
    \<Longrightarrow> valid_revision (meta (snd (item_revisions now item)))
    \<Longrightarrow> system_step sem s (s\<lparr>sy_op := opr\<rparr>)"
| flush_begin: "sy_flush s = None \<Longrightarrow> sem \<noteq> None
    \<Longrightarrow> system_step sem s (s\<lparr>sy_flush := Some (begin_flush False (sy_op s))\<rparr>)"
| flush_write: "sy_flush s = Some fs \<Longrightarrow> sem = Some n
    \<Longrightarrow> flush_step (n - slots (sy_retry s)) (flush_view (sy_op s) fs) fs'
    \<Longrightarrow> system_step sem s (s\<lparr>sy_flush := Some fs', sy_op := flush_back fs' (sy_op s)\<rparr>)"
| flush_end: "sy_flush s = Some fs \<Longrightarrow> flush_done fs
    \<Longrightarrow> system_step sem s (s\<lparr>sy_flush := None, sy_op := retry_failed fs (sy_op s)\<rparr>)"
| retry_begin: "sy_retry s = None \<Longrightarrow> sem \<noteq> None
    \<Longrightarrow> system_step sem s (s\<lparr>sy_retry := Some (begin_flush True (sy_op s))\<rparr>)"
| retry_write: "sy_retry s = Some fs \<Longrightarrow> sem = Some n
    \<Longrightarrow> flush_step (n - slots (sy_flush s)) (flush_view (sy_op s) fs) fs'
    \<Longrightarrow> system_step sem s (s\<lparr>sy_retry := Some fs', sy_op := flush_back fs' (sy_op s)\<rparr>)"
| retry_end: "sy_retry s = Some fs \<Longrightarrow> flush_done fs
    \<Longrightarrow> system_step sem s (s\<lparr>sy_retry := None, sy_op := retry_failed fs (sy_op s)\<rparr>)"
| tick: "sem = None \<Longrightarrow> flusher_tick retry (op_flusher (sy_op s)) (op_store (sy_op s)) = (Ok (), (f, st))
    \<Longrightarrow> system_step sem s (s\<lparr>sy_op := (sy_op s)\<lparr>op_flusher := f, op_store := st\<rparr>\<rparr>)"
| purge: "purger_purge (op_purger (sy_op s)) (op_store (sy_op s)) = (Ok (), (p, st))
    \<Longrightarrow> system_step sem s (s\<lparr>sy_op := (sy_op s)\<lparr>op_purger := p, op_store := st\<rparr>\<rparr>)"
| reap: "reap (op_policy (sy_op s)) clock (op_purger (sy_op s)) (op_store (sy_op s)) = (r, (p, st))
    \<Longrightarrow> \<forall>c. r \<noteq> Crash c
    \<Longrightarrow> system_step sem s (s\<lparr>sy_op := (sy_op s)\<lparr>op_purger := p, op_store := st\<rparr>\<rparr>)"

inductive_cases system_stepE: "system_step sem s s'"

text \<open>The start: an operator with empty queues on a well-formed store synchronises it.\<close>

definition fresh_operator :: "operator \<Rightarrow> bool" where
  "fresh_operator opr \<longleftrightarrow> store_wf (op_store opr) \<and> fl_c (op_flusher opr) = Cache_New
     \<and> fl_retryCache (op_flusher opr) = Cache_New \<and> pu_c (op_purger opr) = Cache_New"

inductive system_init :: "int option \<Rightarrow> system \<Rightarrow> bool" for sem :: "int option" where
  "fresh_operator opr0 \<Longrightarrow> run_start True opr0 = (Ok (), opr)
    \<Longrightarrow> sem = storer_semaphore (op_store opr0) \<Longrightarrow> \<forall>n. sem = Some n \<longrightarrow> 0 \<le> n
    \<Longrightarrow> system_init sem \<lparr>sy_op = opr, sy_flush = None, sy_retry = None\<rparr>"

inductive reachable :: "int option \<Rightarrow> system \<Rightarrow> bool" for sem :: "int option" where
  start: "system_init sem s \<Longrightarrow> reachable sem s"
| step: "reachable sem s \<Longrightarrow> system_step sem s s' \<Longrightarrow> reachable sem s'"

section \<open>The invariant\<close>

definition flushing_valid :: "flush_state option \<Rightarrow> bool" where
  "flushing_valid fo = (case fo of None \<Rightarrow> True | Some fs \<Rightarrow> flush_valid fs)"

definition system_inv :: "int option \<Rightarrow> system \<Rightarrow> bool" where
  "system_inv sem s \<longleftrightarrow> operator_wf (sy_op s) \<and> flushing_valid (sy_flush s) \<and> flushing_valid (sy_retry s)
     \<and> (\<forall>n. sem = Some n \<longrightarrow> slots (sy_flush s) + slots (sy_retry s) \<le> n)"

lemma slots_simps [simp]:
  "slots None = 0" "slots (Some (begin_flush retry opr)) = 0"
  "slots (Some (flush_view opr fs)) = slots (Some fs)"
  by (simp_all add: slots_def begin_flush_def flush_start_def flush_view_def)

lemma slots_nonneg: "0 \<le> slots fo"
  by (simp add: slots_def split: option.split)

lemma begin_flush_valid: "operator_wf opr \<Longrightarrow> flush_valid (begin_flush retry opr)"
  by (simp add: operator_wf_def flusher_valid_def queue_valid_def flush_valid_def begin_flush_def flush_start_def)

lemma retry_failed_wf: "operator_wf opr \<Longrightarrow> flush_valid fs \<Longrightarrow> operator_wf (retry_failed fs opr)"
  by (simp add: operator_wf_def flusher_valid_def retry_failed_def flush_valid_def retry_all_valid)

lemma flush_write_inv:
  assumes "flush_step m (flush_view opr fs) fs'" "operator_wf opr" "flush_valid fs" "slots (Some fs) \<le> m"
  shows "operator_wf (flush_back fs' opr)" "flush_valid fs'" "slots (Some fs') \<le> m"
proof -
  have v: "flush_valid (flush_view opr fs)" "store_wf (fs_storer (flush_view opr fs))"
    "queue_valid flushKeyFunc (fs_c (flush_view opr fs))"
    using assms(2,3) by (simp_all add: operator_wf_def flusher_valid_def flush_valid_def flush_view_def)
  from flush_step_valid [OF assms(1) v] show "flush_valid fs'" "operator_wf (flush_back fs' opr)"
    using assms(2) by (simp_all add: operator_wf_def flusher_valid_def flush_back_def)
  show "slots (Some fs') \<le> m"
    using flush_slots_step [OF assms(1)] assms(4) by (simp add: slots_def flush_view_def)
qed

lemma system_init_inv: "system_init sem s \<Longrightarrow> system_inv sem s"
proof (induction rule: system_init.induct)
  case (1 opr0 opr)
  then have "operator_wf opr0"
    by (simp add: fresh_operator_def operator_wf_def flusher_valid_def)
  obtain r o1 where s: "syncStore opr0 = (r, o1)" by fastforce
  note wf = syncStore_wf [OF s \<open>operator_wf opr0\<close>]
  have "opr = o1\<lparr>op_ready := True\<rparr>" using 1(2) s by (cases r) (auto simp: run_start_def)
  then show ?case using wf 1(4) by (simp add: system_inv_def flushing_valid_def operator_wf_def)
qed

lemma system_step_inv: "system_step sem s s' \<Longrightarrow> system_inv sem s \<Longrightarrow> system_inv sem s'"
proof (induction rule: system_step.induct)
  case (work now item s cont opr)
  then show ?case using processUnstructured_wf by (auto simp: system_inv_def)
next
  case (flush_write s fs n fs')
  then have "slots (Some fs) \<le> n - slots (sy_retry s)" "operator_wf (sy_op s)" "flush_valid fs"
    by (auto simp: system_inv_def flushing_valid_def)
  with flush_write_inv [OF flush_write(3)] flush_write show ?case
    by (auto simp: system_inv_def flushing_valid_def)
next
  case (flush_end s fs)
  with slots_nonneg [of "Some fs"] show ?case
    by (auto simp: system_inv_def flushing_valid_def retry_failed_wf)
next
  case (retry_write s fs n fs')
  then have "slots (Some fs) \<le> n - slots (sy_flush s)" "operator_wf (sy_op s)" "flush_valid fs"
    by (auto simp: system_inv_def flushing_valid_def)
  with flush_write_inv [OF retry_write(3)] retry_write show ?case
    by (auto simp: system_inv_def flushing_valid_def)
next
  case (retry_end s fs)
  with slots_nonneg [of "Some fs"] show ?case
    by (auto simp: system_inv_def flushing_valid_def retry_failed_wf)
next
  case (tick retry s f st)
  then show ?case using flusher_tick_wf [OF tick(2)]
    by (auto simp: system_inv_def operator_wf_def)
next
  case (purge s p st)
  then show ?case using purger_purge_wf [OF purge(1)]
    by (auto simp: system_inv_def operator_wf_def)
next
  case (reap s clock r p st)
  then show ?case using reap_wf [OF reap(1,2)]
    by (auto simp: system_inv_def operator_wf_def)
qed (auto simp: system_inv_def flushing_valid_def begin_flush_valid operator_wf_def)

lemma reachable_inv: "reachable sem s \<Longrightarrow> system_inv sem s"
  by (induction rule: reachable.induct) (auto intro: system_init_inv system_step_inv)

end
