(* ===== verification/Delivery.thy ===== *)
theory Delivery
  imports System
begin

text \<open>
  What the program is for: on a healthy store a flush stores everything that is queued, and a
  change of a watched object reaches the store with the next flush.
\<close>

section \<open>Healthy stores\<close>

text \<open>
  The bucket reports no fault, every object can be encoded, and with an encrypter the cipher is
  sound and the random source never runs dry.
\<close>

definition cipher_ok :: "AESEncrypter option \<Rightarrow> (nat \<Rightarrow> string result) \<Rightarrow> bool" where
  "cipher_ok enc nonces \<longleftrightarrow> (case enc of
     None \<Rightarrow> True
   | Some a \<Rightarrow> aead_sound (AEAD a) \<and> (\<forall>i. \<exists>nonce. nonces i = Ok nonce \<and> length nonce = NonceSize (AEAD a)))"

definition healthy :: "store \<Rightarrow> bool" where
  "healthy s \<longleftrightarrow> fault_free (s_backend s) \<and> (\<forall>u. \<exists>d. json_marshal (s_codec s) u = Ok d)
     \<and> cipher_ok (s_encrypter s) (s_nonce s)"

text \<open>The object stored under the key of a revision decrypts to the encoding of its content.\<close>

definition unseal :: "store \<Rightarrow> string \<Rightarrow> string result" where
  "unseal s c = (case s_encrypter s of Some a \<Rightarrow> AES_Decrypt a (Ok c) | None \<Rightarrow> Ok c)"

definition carries :: "storer \<Rightarrow> revision \<Rightarrow> object \<Rightarrow> bool" where
  "carries st r u \<longleftrightarrow> (\<exists>c d. backend_objs (s_backend (storer_base st)) (revision_Key r) = Some c
     \<and> unseal (storer_base st) c = Ok d \<and> json_marshal (s_codec (storer_base st)) u = Ok d)"

text \<open>The parts of a store that a write does not change.\<close>

definition same_setup :: "store \<Rightarrow> store \<Rightarrow> bool" where
  "same_setup s s' \<longleftrightarrow> s_codec s' = s_codec s \<and> s_encrypter s' = s_encrypter s \<and> s_nonce s' = s_nonce s"

lemma healthy_ready:
  assumes "healthy s"
  shows "encrypter_ready s"
proof (cases "s_encrypter s")
  case (Some a)
  with assms obtain nonce where "s_nonce s (s_ticks s) = Ok nonce" "length nonce = NonceSize (AEAD a)"
    "aead_sound (AEAD a)" by (auto simp: healthy_def cipher_ok_def)
  then show ?thesis using Some by (simp add: encrypter_ready_def)
qed (simp add: encrypter_ready_def)

lemma store_save_healthy:
  assumes "healthy s" "valid_revision r"
  obtains s' where "store_save (ConcreteRevision r u) s = (Ok (), (s', ConcreteRevision r u))"
    "healthy s'" "same_setup s s'" "carries (Plain s') r u"
    "\<And>k. k \<noteq> revision_Key r \<Longrightarrow> backend_objs (s_backend s') k = backend_objs (s_backend s) k"
proof -
  from assms(1) obtain d where d: "json_marshal (s_codec s) u = Ok d" by (auto simp: healthy_def)
  from encrypt_data_spec [OF healthy_ready [OF assms(1)], of d] obtain c t where
    c: "encrypt_data d s = (Ok c, s\<lparr>s_ticks := t\<rparr>)" "unseal s c = Ok d"
    by (auto simp: unseal_def)
  have ff: "fault_free (s_backend s)" using assms(1) by (simp add: healthy_def)
  note sv = store_save_spec [OF ff revision_Key_not_Nil [OF assms(2)] d c(1)]
  show ?thesis
    by (rule that [OF sv])
      (use assms(1) c(2) d in \<open>auto simp: healthy_def fault_free_def same_setup_def carries_def
        unseal_def backend_objs_def\<close>)
qed

lemma write_rev_healthy:
  assumes "healthy (storer_base st)" "valid_revision r"
  obtains st' where "write_rev (ConcreteRevision r u) st = (Ok (), (st', ConcreteRevision r u))"
    "healthy (storer_base st')" "same_setup (storer_base st) (storer_base st')" "carries st' r u"
    "\<And>k. k \<noteq> revision_Key r \<Longrightarrow>
       backend_objs (s_backend (storer_base st')) k = backend_objs (s_backend (storer_base st)) k"
proof -
  obtain s' where s': "store_save (ConcreteRevision r u) (storer_base st) = (Ok (), (s', ConcreteRevision r u))"
    "healthy s'" "same_setup (storer_base st) s'" "carries (Plain s') r u"
    "\<And>k. k \<noteq> revision_Key r \<Longrightarrow> backend_objs (s_backend s') k = backend_objs (s_backend (storer_base st)) k"
    by (rule store_save_healthy [OF assms]) blast
  have del: "r\<lparr>deleted_of := True\<rparr> = r" if "deleted_of r"
    using that by (intro revision.equality) auto
  obtain st' where w: "write_rev (ConcreteRevision r u) st = (Ok (), (st', ConcreteRevision r u))"
    and b: "storer_base st' = s' \<or> (\<exists>l. storer_base st' = s'\<lparr>s_latestCache := l\<rparr>)"
  proof (cases "deleted_of r")
    case True
    then show ?thesis using that s'(1)
      by (cases st) (auto simp: del write_rev_def storer_Delete_def ns_Delete_def rw_Delete_def
          mem_Delete_def Deleted_def)
  next
    case False
    then show ?thesis using that s'(1)
      by (cases st) (auto simp: write_rev_def storer_Update_def ns_Update_def rw_Update_def
          mem_Update_def Deleted_def)
  qed
  show ?thesis
    by (rule that [OF w]) (use b s'(2-5) in \<open>auto simp: healthy_def same_setup_def carries_def unseal_def\<close>)
qed

section \<open>A flush on a healthy store\<close>

lemma Key_resource:
  assumes "valid_revision r" "valid_revision r'" "revision_Key r = revision_Key r'"
  shows "revision_ResourceKey r = revision_ResourceKey r'"
  using Key_dir [OF assms(1)] Key_dir [OF assms(2)] assms(3) by simp

lemma carries_frame:
  assumes "carries st r u" "same_setup (storer_base st) (storer_base st')"
    "backend_objs (s_backend (storer_base st')) (revision_Key r)
       = backend_objs (s_backend (storer_base st)) (revision_Key r)"
  shows "carries st' r u"
  using assms by (auto simp: carries_def unseal_def same_setup_def)

lemma same_setup_trans: "same_setup a b \<Longrightarrow> same_setup b c \<Longrightarrow> same_setup a c"
  by (simp add: same_setup_def)

definition concretes :: "Revision list \<Rightarrow> bool" where
  "concretes rvs \<longleftrightarrow> (\<forall>rv \<in> set rvs. \<exists>r u. rv = ConcreteRevision r u)"

lemma flush_loop_healthy:
  assumes "healthy (storer_base st)" "concretes rvs" "valid_revs rvs" "distinct (map rev_ResourceKey rvs)"
  shows "\<exists>st'. flush_loop rvs failed c st
       = (Ok failed, (fold (\<lambda>rv. Cache_Delete flushKeyFunc (Some rv)) rvs c, st'))
     \<and> healthy (storer_base st') \<and> same_setup (storer_base st) (storer_base st')
     \<and> (\<forall>r u. ConcreteRevision r u \<in> set rvs \<longrightarrow> carries st' r u)
     \<and> (\<forall>k. k \<notin> rev_Key ` set rvs \<longrightarrow>
          backend_objs (s_backend (storer_base st')) k = backend_objs (s_backend (storer_base st)) k)"
  using assms
proof (induction rvs arbitrary: c st)
  case Nil
  then show ?case by (simp add: same_setup_def)
next
  case (Cons rv rvs)
  then obtain r u where rv: "rv = ConcreteRevision r u" "valid_revision r" by (auto simp: concretes_def)
  obtain st1 where w: "write_rev (ConcreteRevision r u) st = (Ok (), (st1, ConcreteRevision r u))"
    "healthy (storer_base st1)" "same_setup (storer_base st) (storer_base st1)" "carries st1 r u"
    "\<And>k. k \<noteq> revision_Key r \<Longrightarrow>
       backend_objs (s_backend (storer_base st1)) k = backend_objs (s_backend (storer_base st)) k"
    by (rule write_rev_healthy [OF Cons.prems(1) rv(2)]) blast
  have tl: "concretes rvs" "valid_revs rvs" "distinct (map rev_ResourceKey rvs)"
    using Cons.prems(2-4) by (simp_all add: concretes_def)
  from Cons.IH [OF w(2) tl, of "Cache_Delete flushKeyFunc (Some rv) c"] obtain st' where IH:
    "flush_loop rvs failed (Cache_Delete flushKeyFunc (Some rv) c) st1
       = (Ok failed, (fold (\<lambda>rv. Cache_Delete flushKeyFunc (Some rv)) rvs (Cache_Delete flushKeyFunc (Some rv) c), st'))"
    "healthy (storer_base st')" "same_setup (storer_base st1) (storer_base st')"
    "\<forall>r u. ConcreteRevision r u \<in> set rvs \<longrightarrow> carries st' r u"
    "\<forall>k. k \<notin> rev_Key ` set rvs \<longrightarrow>
          backend_objs (s_backend (storer_base st')) k = backend_objs (s_backend (storer_base st1)) k"
    by blast
  have fresh: "revision_Key r \<notin> rev_Key ` set rvs"
  proof
    assume "revision_Key r \<in> rev_Key ` set rvs"
    then obtain x where x: "x \<in> set rvs" "rev_Key x = revision_Key r" by auto
    then have "rev_ResourceKey x = revision_ResourceKey r"
      using Key_resource [of "meta x" r] tl(2) rv(2) by (auto simp: valid_revs_def)
    then show False using x(1) Cons.prems(4) rv(1) by (force simp: image_iff)
  qed
  then have "carries st' r u" using carries_frame [OF w(4) IH(3)] IH(5) by blast
  then have "\<forall>r' u'. ConcreteRevision r' u' \<in> set (rv # rvs) \<longrightarrow> carries st' r' u'"
    using IH(4) rv(1) by auto
  moreover have "\<forall>k. k \<notin> rev_Key ` set (rv # rvs) \<longrightarrow>
      backend_objs (s_backend (storer_base st')) k = backend_objs (s_backend (storer_base st)) k"
    using IH(5) w(5) rv(1) by simp
  moreover have "flush_loop (rv # rvs) failed c st
      = (Ok failed, (fold (\<lambda>rv. Cache_Delete flushKeyFunc (Some rv)) (rv # rvs) c, st'))"
    using IH(1) w(1) rv(1) by simp
  ultimately show ?case using IH(2) same_setup_trans [OF w(3) IH(3)] by blast
qed

lemma queue_drained:
  assumes "queue_wf f q"
  shows "go_get (fold (\<lambda>rv. Cache_Delete f (Some rv)) (Cache_SafeCopy q) q) k = None"
proof (cases "go_get q k")
  case (Some rv)
  then have "f rv = k" by (rule queue_wf_key [OF assms])
  then have "rv \<in> set (Cache_SafeCopy q)" using queue_wf_copy [OF assms] Some by simp
  then show ?thesis using rq.fold_delete_entry [OF assms] Some \<open>f rv = k\<close> by auto
qed (simp add: rq.fold_delete_entry [OF assms])

lemma flush_delivers_all:
  assumes "healthy (storer_base st)" "queue_valid flushKeyFunc (fl_c f)" "concretes (Cache_SafeCopy (fl_c f))"
  shows "\<exists>f' st'. flusher_tick False f st = (Ok (), (f', st'))
     \<and> (\<forall>k. go_get (fl_c f') k = None) \<and> fl_retryCache f' = fl_retryCache f
     \<and> healthy (storer_base st') \<and> same_setup (storer_base st) (storer_base st')
     \<and> (\<forall>k r u. go_get (fl_c f) k = Some (ConcreteRevision r u) \<longrightarrow> carries st' r u)"
proof -
  have q: "queue_wf flushKeyFunc (fl_c f)" "valid_revs (Cache_SafeCopy (fl_c f))"
    using assms(2) by (simp_all add: queue_valid_def)
  have "distinct (map rev_ResourceKey (Cache_SafeCopy (fl_c f)))"
    using SafeCopy_distinct_keys [OF q(1)] by (simp add: flushKeyFunc_def [abs_def])
  from flush_loop_healthy [OF assms(1,3) q(2) this, of "[]" "fl_c f"] obtain st' where l:
    "flush_loop (Cache_SafeCopy (fl_c f)) [] (fl_c f) st
       = (Ok [], (fold (\<lambda>rv. Cache_Delete flushKeyFunc (Some rv)) (Cache_SafeCopy (fl_c f)) (fl_c f), st'))"
    "healthy (storer_base st')" "same_setup (storer_base st) (storer_base st')"
    "\<forall>r u. ConcreteRevision r u \<in> set (Cache_SafeCopy (fl_c f)) \<longrightarrow> carries st' r u" by blast
  have "carries st' r u" if "go_get (fl_c f) k = Some (ConcreteRevision r u)" for k r u
  proof -
    have "flushKeyFunc (ConcreteRevision r u) = k" by (rule queue_wf_key [OF q(1) that])
    then show ?thesis using l(4) queue_wf_copy [OF q(1)] that by auto
  qed
  moreover let ?f' = "\<lparr>fl_c = fold (\<lambda>rv. Cache_Delete flushKeyFunc (Some rv)) (Cache_SafeCopy (fl_c f)) (fl_c f),
      fl_retryCache = fl_retryCache f\<rparr>"
  have "flusher_tick False f st = (Ok (), (?f', st'))"
    using l(1) by (simp add: flusher_tick_def flusher_retry_all_def)
  ultimately show ?thesis using l(2,3) queue_drained [OF q(1)]
    by (intro exI [of _ ?f'] exI [of _ st']) simp
qed

section \<open>From a change to the store\<close>

lemma RevisionFrom_concrete: "RevisionFrom now u = ConcreteRevision (meta (RevisionFrom now u)) u"
  by (simp add: RevisionFrom_def split_beta)

lemma concretes_cache:
  assumes "queue_wf f q" "concretes (Cache_SafeCopy q)"
  shows "concretes (Cache_SafeCopy (Cache_Cache f (Some (ConcreteRevision r u)) q))"
  unfolding concretes_def
proof
  fix x assume "x \<in> set (Cache_SafeCopy (Cache_Cache f (Some (ConcreteRevision r u)) q))"
  then have "go_get (Cache_Cache f (Some (ConcreteRevision r u)) q) (f x) = Some x"
    using queue_wf_copy [OF rq.cache_inv [OF assms(1)]] by blast
  then have "x = ConcreteRevision r u \<or> go_get q (f x) = Some x"
    unfolding rq.entry_cache [OF assms(1)] by (auto split: if_splits)
  then show "\<exists>r u. x = ConcreteRevision r u"
    using assms(2) queue_wf_copy [OF assms(1)] by (auto simp: concretes_def)
qed

text \<open>Queueing a revision and flushing stores it, or the one of its resource that was queued instead.\<close>

lemma queued_delivered:
  assumes "healthy (storer_base st)" "queue_valid flushKeyFunc (fl_c f)" "concretes (Cache_SafeCopy (fl_c f))"
    "valid_revision r"
  shows "\<exists>f' st'. flusher_tick False (flusher_Queue (ConcreteRevision r u) f) st = (Ok (), (f', st'))
     \<and> healthy (storer_base st') \<and> (\<forall>k. go_get (fl_c f') k = None)
     \<and> (\<exists>r' u'. revision_ResourceKey r' = revision_ResourceKey r
          \<and> resourceVersion_of r \<le> resourceVersion_of r' \<and> carries st' r' u'
          \<and> ((\<forall>q. go_get (fl_c f) (revision_ResourceKey r) = Some q \<longrightarrow> ResourceVersion q < resourceVersion_of r)
               \<longrightarrow> r' = r \<and> u' = u))"
proof -
  let ?f = "flusher_Queue (ConcreteRevision r u) f" and ?k = "revision_ResourceKey r"
  have wf: "queue_wf flushKeyFunc (fl_c f)" using assms(2) by (simp add: queue_valid_def)
  have q: "queue_valid flushKeyFunc (fl_c ?f)" "concretes (Cache_SafeCopy (fl_c ?f))"
    using queue_valid_cache [OF assms(2)] concretes_cache [OF wf assms(3)] assms(4)
    by (simp_all add: flusher_Queue_def)
  from flush_delivers_all [OF assms(1) q] obtain f' st' where t:
    "flusher_tick False ?f st = (Ok (), (f', st'))" "healthy (storer_base st')"
    "\<forall>k. go_get (fl_c f') k = None"
    "\<forall>k r u. go_get (fl_c ?f) k = Some (ConcreteRevision r u) \<longrightarrow> carries st' r u" by blast
  obtain x where x: "go_get (fl_c ?f) ?k = Some x" "resourceVersion_of r \<le> ResourceVersion x"
    "(\<forall>q. go_get (fl_c f) ?k = Some q \<longrightarrow> ResourceVersion q < resourceVersion_of r) \<longrightarrow> x = ConcreteRevision r u"
    using rq.entry_cache [OF wf, of "ConcreteRevision r u" ?k]
    by (cases "go_get (fl_c f) ?k")
      (auto simp: flusher_Queue_def flushKeyFunc_def ResourceVersion_def split: if_splits)
  have "x \<in> set (Cache_SafeCopy (fl_c ?f))"
    using queue_wf_copy [of flushKeyFunc "fl_c ?f"] queue_wf_key [of flushKeyFunc "fl_c ?f" ?k x] q(1) x(1)
    by (simp add: queue_valid_def)
  then obtain r' u' where r': "x = ConcreteRevision r' u'" using q(2) by (auto simp: concretes_def)
  have "flushKeyFunc x = ?k"
    using queue_wf_key [of flushKeyFunc "fl_c ?f" ?k x] q(1) x(1) by (simp add: queue_valid_def)
  then have "revision_ResourceKey r' = ?k" by (simp add: r' flushKeyFunc_def)
  moreover have "carries st' r' u'" using t(4) x(1) r' by blast
  moreover have "resourceVersion_of r \<le> resourceVersion_of r'" using x(2) by (simp add: r' ResourceVersion_def)
  ultimately show ?thesis using t(1-3) x(3) unfolding r' Revision.inject by blast
qed

lemma change_delivered:
  assumes "storer_RuleFor (op_policy opr) (RevisionFrom now new) (op_store opr)
      = (Ok (Some rule), (op_store opr, RevisionFrom now new))"
    and "br_LabelSelector rule = None"
    and "br_ResourceNames rule = [] \<or> Name (RevisionFrom now new) \<in> set (br_ResourceNames rule)"
    and "HandlerFor (op_handlers opr) (GetAPIVersion new) (GetKind new) (GetNamespace new) = Some h"
    and "informer_has h (RevisionFrom now new)"
    and "ResourceVersion (RevisionFrom now old) \<noteq> ResourceVersion (RevisionFrom now new)"
    and "f \<in> set (br_Fields rule)" "field_changed old new f"
    and "healthy (storer_base (op_store opr))" "operator_wf opr"
    and "concretes (Cache_SafeCopy (fl_c (op_flusher opr)))"
    and "valid_revision (meta (RevisionFrom now new))"
  defines "r \<equiv> meta (RevisionFrom now new)"
  shows "\<exists>opr' f' st'. processUnstructured now (WorkPair old new) opr = (Ok True, opr')
     \<and> flusher_tick False (op_flusher opr') (op_store opr') = (Ok (), (f', st'))
     \<and> (\<exists>r' u'. revision_ResourceKey r' = revision_ResourceKey r
          \<and> resourceVersion_of r \<le> resourceVersion_of r' \<and> carries st' r' u'
          \<and> ((\<forall>q. go_get (fl_c (op_flusher opr)) (revision_ResourceKey r) = Some q
                \<longrightarrow> ResourceVersion q < resourceVersion_of r) \<longrightarrow> r' = r \<and> u' = new))"
proof -
  let ?opr = "opr\<lparr>op_flusher := flusher_Queue (RevisionFrom now new) (op_flusher opr)\<rparr>"
  have p: "processUnstructured now (WorkPair old new) opr = (Ok True, ?opr)"
    using process_pair [OF assms(1-4), of old] assms(5-8) by auto
  have q: "queue_valid flushKeyFunc (fl_c (op_flusher opr))"
    using assms(10) by (simp add: operator_wf_def flusher_valid_def)
  have u: "RevisionFrom now new = ConcreteRevision r new"
    using RevisionFrom_concrete by (simp add: r_def)
  have v: "valid_revision r" using assms(12) by (simp add: r_def)
  show ?thesis
    using queued_delivered [OF assms(9) q assms(11) v, of new] p unfolding u by auto
qed

end
