(* ===== verification/Tracking.thy ===== *)
theory Tracking
  imports System
begin

text \<open>
  Runs of the system, and what becomes of a queued revision along a run: it stays queued, gives
  way to a newer one of its object, or is settled, stored or handed to the retries.
\<close>

section \<open>What a write leaves behind\<close>

text \<open>Any operation of the bucket may fail but the one whose error the store drops.\<close>

definition closes_ok :: "storer \<Rightarrow> bool" where
  "closes_ok st \<longleftrightarrow> (\<forall>k. faults (be_bucket (s_backend (storer_base st))) OpCloseWriter k = None)"

lemma write_rev_tracked:
  assumes "write_rev rv st = (r, (st', rv'))" "closes_ok st" "rev_Key rv \<noteq> []"
  shows "closes_ok st'" "r = Ok () \<Longrightarrow> has_obj st' (rev_Key rv)" "has_obj st k \<Longrightarrow> has_obj st' k" "meta rv' = meta rv"
proof -
  obtain r0 s0 rv0 where sv: "store_save rv (storer_base st) = (r0, (s0, rv0))"
    "s_backend (storer_base st') = s_backend s0" "r = Ok () \<longrightarrow> r0 = Ok ()"
    using write_rev_save [OF assms(1)] by blast
  from sv(1) have "closes_ok st' \<and> (r = Ok () \<longrightarrow> has_obj st' (rev_Key rv))"
  proof (rule store_save_backend)
    assume "s_backend s0 = s_backend (storer_base st)" "\<forall>u. r0 \<noteq> Ok u"
    then show ?thesis using sv(2,3) assms(2) by (simp add: closes_ok_def)
  next
    fix w assume "w_key w = rev_Key rv" "s_backend s0 = snd (Backend_CloseWriter (s_backend (storer_base st)) w)"
    then show ?thesis using sv(2) assms(2,3) by (simp add: closes_ok_def has_obj_def blob_defs)
  qed
  then show "closes_ok st'" "r = Ok () \<Longrightarrow> has_obj st' (rev_Key rv)" by simp_all
  show "has_obj st k \<Longrightarrow> has_obj st' k" "meta rv' = meta rv" using write_rev_has_obj [OF assms(1)] by blast+
qed

lemma flush_loop_mono:
  "flush_loop rvs failed c st = (Ok failed', (c', st')) \<Longrightarrow>
     set failed \<subseteq> set failed' \<and> (has_obj st k \<longrightarrow> has_obj st' k)"
proof (induction rvs arbitrary: failed c st)
  case (Cons rv rvs)
  obtain r st1 rv1 where w: "write_rev rv st = (r, (st1, rv1))" by (metis surj_pair)
  let ?failed = "if err_of r \<noteq> None then failed @ [rv1] else failed"
  have "flush_loop rvs ?failed (Cache_Delete flushKeyFunc (Some rv1) c) st1 = (Ok failed', (c', st'))"
    using Cons.prems w by (cases r) auto
  from Cons.IH [OF this] write_rev_has_obj(1) [OF w, of k] show ?case by (auto split: if_splits)
qed simp

text \<open>What leaves the queue in a flush has a version that was stored or failed.\<close>

lemma flush_loop_drops:
  assumes "flush_loop rvs failed c st = (Ok failed', (c', st'))" "closes_ok st" "valid_revs rvs"
    "queue_wf flushKeyFunc c" "go_get c k = Some rv" "go_get c' k \<noteq> Some rv"
  shows "\<exists>x. rev_ResourceKey x = k \<and> ResourceVersion x = ResourceVersion rv
     \<and> (has_obj st' (rev_Key x) \<or> x \<in> set failed')"
  using assms
proof (induction rvs arbitrary: failed c st)
  case (Cons y rvs)
  obtain r st1 y1 where w: "write_rev y st = (r, (st1, y1))" by (metis surj_pair)
  let ?failed = "if err_of r \<noteq> None then failed @ [y1] else failed" and ?c = "Cache_Delete flushKeyFunc (Some y1) c"
  have run: "flush_loop rvs ?failed ?c st1 = (Ok failed', (c', st'))" and nc: "\<forall>x. r \<noteq> Crash x"
    using Cons.prems(1) w by (cases r; auto)+
  have "rev_Key y \<noteq> []" using Cons.prems(3) revision_Key_not_Nil [of "meta y"] by simp
  note t = write_rev_tracked [OF w Cons.prems(2) this]
  show ?case
  proof (cases "go_get ?c k = Some rv")
    case True
    then show ?thesis
      using Cons.IH [OF run t(1) _ rq.delete_inv [OF Cons.prems(4)] True Cons.prems(6)] Cons.prems(3) by simp
  next
    case False
    then have "k = flushKeyFunc y1" "ResourceVersion rv = ResourceVersion y1"
      using rq.entry_delete [OF Cons.prems(4), of y1 k] Cons.prems(5) by (auto split: if_splits)
    moreover have "has_obj st' (rev_Key y1) \<or> y1 \<in> set failed'"
    proof (cases r)
      case (Ok u)
      then show ?thesis using t(2,4) flush_loop_mono [OF run, of "rev_Key y"] by simp
    next
      case (Err e)
      then show ?thesis using flush_loop_mono [OF run] by simp
    qed (use nc in simp)
    ultimately show ?thesis by (intro exI [of _ y1]) (simp add: flushKeyFunc_def)
  qed
qed simp

section \<open>Work items only queue\<close>

lemma processUnstructured_queue:
  "op_flusher (snd (processUnstructured now item opr)) = op_flusher opr
   \<or> (\<exists>rv. op_flusher (snd (processUnstructured now item opr)) = flusher_Queue rv (op_flusher opr))"
proof -
  define P where "P o' \<longleftrightarrow> op_flusher o' = op_flusher opr \<or> (\<exists>rv. op_flusher o' = flusher_Queue rv (op_flusher opr))"
    for o' :: operator
  have same: "P o'" if "op_flusher o' = op_flusher opr" for o' :: operator using that by (simp add: P_def)
  have queued: "P (o'\<lparr>op_flusher := flusher_Queue rv (op_flusher opr)\<rparr>)" for o' :: operator and rv
    by (auto simp: P_def)
  have compare: "P (snd (on_ok (r, o1) (\<lambda>diff opr.
        if \<not> diff then (Ok True, opr)
        else on_ok (handleRotation u rule (opr\<lparr>op_flusher := flusher_Queue u (op_flusher opr)\<rparr>))
               (\<lambda>_ opr. (Ok True, opr)))))" if "op_flusher o1 = op_flusher opr" for r u o1 rule
    using that by (intro on_ok_keeps [where P = P]) (simp_all add: same queued handleRotation_nothing)
  have "P (snd (processUnstructured now item opr))"
    unfolding processUnstructured_def handleDeletion_cases
    by (auto simp: same queued split: prod.split option.split intro!: on_ok_keeps [where P = P] compare)
  then show ?thesis by (simp add: P_def)
qed

section \<open>Runs\<close>

text \<open>A run lists its states, the last one first.\<close>

inductive system_run :: "int option \<Rightarrow> system list \<Rightarrow> bool" for sem :: "int option" where
  start: "system_init sem s \<Longrightarrow> system_run sem [s]"
| step: "system_run sem (s # ss) \<Longrightarrow> system_step sem s s' \<Longrightarrow> system_run sem (s' # s # ss)"

inductive_cases system_runE: "system_run sem ss"

lemma run_reachable: "system_run sem ss \<Longrightarrow> reachable sem (hd ss)"
  by (induction rule: system_run.induct) (auto intro: reachable.intros)

abbreviation queue_of :: "system \<Rightarrow> rev_queue" where
  "queue_of s \<equiv> fl_c (op_flusher (sy_op s))"

text \<open>The revision was in the store at some time, or a write of it failed and it is to be retried.\<close>

definition failed_of :: "flush_state option \<Rightarrow> Revision set" where
  "failed_of fo = (case fo of None \<Rightarrow> {} | Some fs \<Rightarrow> set (fs_failed fs))"

definition to_retry :: "system \<Rightarrow> string \<Rightarrow> bool" where
  "to_retry s k \<longleftrightarrow> k \<in> rev_Key ` (failed_of (sy_flush s) \<union> failed_of (sy_retry s))
     \<or> go_get (fl_retryCache (op_flusher (sy_op s))) k \<noteq> None"

definition settled :: "system list \<Rightarrow> Revision \<Rightarrow> bool" where
  "settled ss rv \<longleftrightarrow> (\<exists>s \<in> set ss. has_obj (op_store (sy_op s)) (rev_Key rv) \<or> to_retry s (rev_Key rv))"

definition version_settled :: "system list \<Rightarrow> string \<Rightarrow> int \<Rightarrow> bool" where
  "version_settled ss k v \<longleftrightarrow> (\<exists>rv. rev_ResourceKey rv = k \<and> v \<le> ResourceVersion rv \<and> settled ss rv)"

lemma settled_mono: "settled ss rv \<Longrightarrow> settled (s # ss) rv"
  by (auto simp: settled_def)

lemma version_settled_mono: "version_settled ss k v \<Longrightarrow> version_settled (s # ss) k v"
  by (auto simp: version_settled_def dest: settled_mono)

lemma version_settled_le: "version_settled ss k v \<Longrightarrow> w \<le> v \<Longrightarrow> version_settled ss k w"
  by (fastforce simp: version_settled_def)

text \<open>A goroutine that waits to report success has stored its revision.\<close>

definition sent_settled :: "flush_state option \<Rightarrow> system list \<Rightarrow> bool" where
  "sent_settled fo ss \<longleftrightarrow> (case fo of None \<Rightarrow> True
     | Some fs \<Rightarrow> \<forall>rv. (rv, None) \<in> set (fs_sending fs) \<longrightarrow> settled ss rv)"

lemma sent_settled_mono: "sent_settled fo ss \<Longrightarrow> sent_settled fo (s # ss)"
  by (auto simp: sent_settled_def dest: settled_mono split: option.splits)

lemma sent_settled_begin: "sent_settled (Some (begin_flush retry opr)) ss"
  by (simp add: sent_settled_def begin_flush_def flush_start_def)

lemma settled_head: "has_obj (op_store (sy_op s)) (rev_Key rv) \<Longrightarrow> settled (s # ss) rv"
  by (auto simp: settled_def)

text \<open>A step of a flush keeps this: \<open>s'\<close> is the state after it.\<close>

lemma flush_step_sent:
  assumes "flush_step n (flush_view opr fs) fs'" "flush_valid fs" "closes_ok (op_store opr)"
    "sent_settled (Some fs) ss" "op_store (sy_op s') = fs_storer fs'"
  shows "sent_settled (Some fs') (s' # ss)"
  using assms(1)
proof cases
  case (wrote rv resp st rv')
  from wrote(3) obtain r where w: "write_rev rv (op_store opr) = (r, (st, rv'))" "\<forall>x. r \<noteq> Crash x"
    "err_of r = resp_Error resp" unfolding flush_view_def by (auto elim: async_write_ok)
  have "rv \<in> set (fs_running fs)" using wrote(2) by (simp add: flush_view_def)
  then have "rev_Key rv \<noteq> []"
    using assms(2) revision_Key_not_Nil [of "meta rv"] by (auto simp: flush_valid_def valid_revs_def)
  note t = write_rev_tracked [OF w(1) assms(3) this]
  have "resp_Error resp = None \<Longrightarrow> settled (s' # ss) rv'"
    using w(2,3) t(2,4) assms(5) wrote(1) by (cases r) (auto intro!: settled_head simp: flush_view_def)
  then show ?thesis
    using assms(4) wrote(1) settled_mono [of ss _ s'] by (auto simp: sent_settled_def flush_view_def)
next
  case (received rv e)
  then show ?thesis using assms(4) set_remove1_subset [of "(rv, e)" "fs_sending fs"] settled_mono [of ss _ s']
    by (auto simp: sent_settled_def flush_view_def)
qed (use assms(4) settled_mono [of ss _ s'] in \<open>auto simp: sent_settled_def flush_view_def\<close>)

text \<open>What a step of a flush takes from the queue is settled.\<close>

lemma flush_step_drops:
  assumes "flush_step n (flush_view opr fs) fs'" "queue_wf flushKeyFunc (fl_c (op_flusher opr))"
    "sent_settled (Some fs) ss" "go_get (fl_c (op_flusher opr)) k = Some rv"
    "go_get (fs_c fs') k \<noteq> Some rv" "sy_flush s' = Some fs' \<or> sy_retry s' = Some fs'"
  shows "version_settled (s' # ss) k (ResourceVersion rv)"
  using assms(1)
proof cases
  case (received x e)
  then have "fs_c fs' = Cache_Delete flushKeyFunc (Some x) (fl_c (op_flusher opr))"
    "(x, e) \<in> set (fs_sending fs)" "e \<noteq> None \<Longrightarrow> x \<in> set (fs_failed fs')"
    by (auto simp: flush_view_def)
  moreover from this have "k = rev_ResourceKey x" "ResourceVersion rv = ResourceVersion x"
    using rq.entry_delete [OF assms(2), of x k] assms(4,5) by (auto simp: flushKeyFunc_def split: if_splits)
  moreover have "settled (s' # ss) x"
  proof (cases e)
    case None
    then show ?thesis using assms(3) received(2) settled_mono by (auto simp: sent_settled_def flush_view_def)
  next
    case (Some e')
    then have "x \<in> set (fs_failed fs')" using received by simp
    then show ?thesis using assms(6) by (auto simp: settled_def to_retry_def failed_of_def)
  qed
  ultimately show ?thesis by (auto simp: version_settled_def)
qed (use assms(4,5) in \<open>auto simp: flush_view_def\<close>)

section \<open>One step\<close>

lemma work_tracks:
  assumes "processUnstructured now item opr = (r, opr')" "queue_wf flushKeyFunc (fl_c (op_flusher opr))"
    "go_get (fl_c (op_flusher opr)) k = Some rv"
  shows "\<exists>rv'. go_get (fl_c (op_flusher opr')) k = Some rv' \<and> ResourceVersion rv \<le> ResourceVersion rv'"
  using processUnstructured_queue [of now item opr] assms rq.cache_version_mono [OF assms(2,3)]
  by (auto simp: flusher_Queue_def)

lemma tick_tracks:
  assumes "flusher_tick retry (op_flusher (sy_op s)) (op_store (sy_op s)) = (Ok (), (f, st))"
    "closes_ok (op_store (sy_op s))" "flusher_valid (op_flusher (sy_op s))"
    "go_get (queue_of s) k = Some rv" "go_get (fl_c f) k \<noteq> Some rv"
    "sy_op s' = (sy_op s)\<lparr>op_flusher := f, op_store := st\<rparr>"
  shows "version_settled (s' # ss) k (ResourceVersion rv)"
proof -
  let ?f = "op_flusher (sy_op s)"
  let ?rvs = "Cache_SafeCopy (if retry then fl_retryCache ?f else fl_c ?f)"
  have v: "valid_revs ?rvs" "queue_wf flushKeyFunc (fl_c ?f)" "queue_wf errorKeyFunc (fl_retryCache ?f)"
    using assms(3) by (simp_all add: flusher_valid_def queue_valid_def)
  obtain r c st1 where l: "flush_loop ?rvs [] (fl_c ?f) (op_store (sy_op s)) = (r, (c, st1))" by (metis surj_pair)
  then obtain failed where ok: "r = Ok failed" "st1 = st" "fl_c f = c"
    "fl_retryCache f = flusher_retry_all failed (fl_retryCache ?f)"
    using assms(1) by (cases r) (auto simp: flusher_tick_def Let_def)
  obtain x where x: "rev_ResourceKey x = k" "ResourceVersion x = ResourceVersion rv"
    "has_obj st (rev_Key x) \<or> x \<in> set failed"
    using flush_loop_drops [OF l [unfolded ok(1,2)] assms(2) v(1,2) assms(4)] assms(5) ok(3) by auto
  have "x \<in> set failed \<Longrightarrow> to_retry s' (rev_Key x)"
    using retry_all_has [OF v(3), of "rev_Key x" failed] ok(4) assms(6) by (auto simp: to_retry_def)
  then have "settled (s' # ss) x" using x(3) assms(6) by (auto simp: settled_def)
  then show ?thesis using x(1,2) by (auto simp: version_settled_def)
qed

text \<open>The queue and the running flushes after a step, for a run that ends in \<open>s\<close>.\<close>

lemma step_tracks:
  assumes "system_step sem s s'" "system_inv sem s" "closes_ok (op_store (sy_op s))"
    "sent_settled (sy_flush s) (s # ss)" "sent_settled (sy_retry s) (s # ss)" "go_get (queue_of s) k = Some rv"
  shows "(\<exists>rv'. go_get (queue_of s') k = Some rv' \<and> ResourceVersion rv \<le> ResourceVersion rv')
    \<or> version_settled (s' # s # ss) k (ResourceVersion rv)"
proof (cases "go_get (queue_of s') k = Some rv")
  case False
  have inv: "flusher_valid (op_flusher (sy_op s))" "queue_wf flushKeyFunc (queue_of s)"
    using assms(2) by (simp_all add: system_inv_def operator_wf_def flusher_valid_def queue_valid_def)
  from assms(1) show ?thesis
  proof cases
    case (work now item cont opr)
    then show ?thesis using work_tracks [OF work(2) inv(2) assms(6)] by simp
  next
    case (flush_write fs n fs')
    then show ?thesis
      using flush_step_drops [OF flush_write(4) inv(2) _ assms(6)] assms(4) False
      by (simp add: flush_back_def)
  next
    case (retry_write fs n fs')
    then show ?thesis
      using flush_step_drops [OF retry_write(4) inv(2) _ assms(6)] assms(5) False
      by (simp add: flush_back_def)
  next
    case (tick retry f st)
    then show ?thesis
      using tick_tracks [OF tick(3) assms(3) inv(1) assms(6)] False by simp
  qed (use assms(6) False in \<open>simp_all add: retry_failed_def\<close>)
qed auto

lemma step_sent:
  assumes "system_step sem s s'" "system_inv sem s" "closes_ok (op_store (sy_op s))"
    "sent_settled (sy_flush s) (s # ss)" "sent_settled (sy_retry s) (s # ss)"
  shows "sent_settled (sy_flush s') (s' # s # ss) \<and> sent_settled (sy_retry s') (s' # s # ss)"
proof -
  note keep = assms(4,5) [THEN sent_settled_mono, of s']
  from assms(1) show ?thesis
  proof cases
    case (flush_write fs n fs')
    have "flush_valid fs" using assms(2) flush_write(2) by (simp add: system_inv_def flushing_valid_def)
    from flush_step_sent [OF flush_write(4) this assms(3)] show ?thesis
      using flush_write assms(4) keep by (simp add: flush_back_def)
  next
    case (retry_write fs n fs')
    have "flush_valid fs" using assms(2) retry_write(2) by (simp add: system_inv_def flushing_valid_def)
    from flush_step_sent [OF retry_write(4) this assms(3)] show ?thesis
      using retry_write assms(5) keep by (simp add: flush_back_def)
  qed (use keep sent_settled_begin in \<open>simp_all add: sent_settled_def\<close>)
qed

section \<open>Along a run\<close>

lemma run_sent:
  assumes "system_run sem ss" "\<forall>s \<in> set ss. closes_ok (op_store (sy_op s))"
  shows "sent_settled (sy_flush (hd ss)) ss \<and> sent_settled (sy_retry (hd ss)) ss"
  using assms
proof (induction rule: system_run.induct)
  case (start s)
  then show ?case by (auto simp: sent_settled_def elim: system_init.cases)
next
  case (step s ss s')
  have "system_inv sem s" using run_reachable [OF step(1)] reachable_inv by simp
  with step step_sent [OF step(2)] show ?case by simp
qed

lemma run_tracks:
  assumes "system_run sem ss" "\<forall>s \<in> set ss. closes_ok (op_store (sy_op s))"
    "s1 \<in> set ss" "go_get (queue_of s1) k = Some rv"
  shows "(\<exists>rv'. go_get (queue_of (hd ss)) k = Some rv' \<and> ResourceVersion rv \<le> ResourceVersion rv')
    \<or> version_settled ss k (ResourceVersion rv)"
  using assms
proof (induction rule: system_run.induct)
  case (step s ss s')
  have sent: "sent_settled (sy_flush s) (s # ss)" "sent_settled (sy_retry s) (s # ss)"
    using run_sent [OF step(1)] step.prems(1) by simp_all
  have inv: "system_inv sem s" using run_reachable [OF step(1)] reachable_inv by simp
  have ok: "closes_ok (op_store (sy_op s))" using step.prems(1) by simp
  show ?case
  proof (cases "s1 = s'")
    case False
    then have IH: "(\<exists>rv'. go_get (queue_of s) k = Some rv' \<and> ResourceVersion rv \<le> ResourceVersion rv')
        \<or> version_settled (s # ss) k (ResourceVersion rv)" using step by simp
    then show ?thesis
    proof
      assume "\<exists>rv'. go_get (queue_of s) k = Some rv' \<and> ResourceVersion rv \<le> ResourceVersion rv'"
      then obtain rv1 where rv1: "go_get (queue_of s) k = Some rv1" "ResourceVersion rv \<le> ResourceVersion rv1" by blast
      from step_tracks [OF step(2) inv ok sent rv1(1)] rv1(2) show ?thesis
        by (auto intro: version_settled_le order_trans)
    qed (simp add: version_settled_mono)
  qed (use step.prems in auto)
qed auto

end
