(* ===== verification/System_Props.thy ===== *)
theory System_Props
  imports Delivery Tracking Controller_Props
begin

text \<open>
  Properties of the running operator: its invariant over every interleaving of its goroutines, the
  type of what a store lists, and the delivery of queued and changed objects to the store.
\<close>

section \<open>The invariant\<close>

text \<open>C1: in every state the operator reaches, whatever the interleaving of workers, flushes, retries,
  purges and reaps and whatever faults the backend reports, the backend holds only the
  configuration and keys that parse back to valid revisions, the three queues and the cache hold
  valid revisions under their own keys, and the two flushes together hold no more slots of the
  semaphore than it has.\<close>

theorem system_invariant:
  assumes "reachable sem s"
  defines "opr \<equiv> sy_op s"
  shows "(\<forall>k. backend_objs (s_backend (storer_base (op_store opr))) k \<noteq> None \<longrightarrow>
       k = DefaultConfig \<or> stored_key k)
    \<and> (\<forall>k rv. go_get (fl_c (op_flusher opr)) k = Some rv \<longrightarrow> valid_revision (meta rv) \<and> rev_ResourceKey rv = k)
    \<and> (\<forall>k rv. go_get (fl_retryCache (op_flusher opr)) k = Some rv \<longrightarrow> valid_revision (meta rv) \<and> rev_Key rv = k)
    \<and> (\<forall>k rv. go_get (pu_c (op_purger opr)) k = Some rv \<longrightarrow> valid_revision (meta rv) \<and> rev_Key rv = k)
    \<and> (\<forall>c k v rv. op_store opr = ReadWrite c \<and> cached (rw_reader c) k v = Some rv \<longrightarrow> valid_revision (meta rv))
    \<and> (\<forall>n. sem = Some n \<longrightarrow> slots (sy_flush s) + slots (sy_retry s) \<le> n)"
proof -
  have inv: "system_inv sem s" by (rule reachable_inv [OF assms(1)])
  then have st: "store_wf (op_store opr)" and fl: "flusher_valid (op_flusher opr)"
    and pu: "queue_valid purgeKeyFunc (pu_c (op_purger opr))"
    by (simp_all add: system_inv_def operator_wf_def opr_def)
  have q: "valid_revision (meta rv) \<and> f rv = k" if "queue_valid f q" "go_get q k = Some rv" for f q k rv
  proof -
    have wf: "queue_wf f q" using that(1) by (simp add: queue_valid_def)
    have "f rv = k" by (rule queue_wf_key [OF wf that(2)])
    moreover from this have "rv \<in> set (Cache_SafeCopy q)" using queue_wf_copy [OF wf] that(2) by simp
    ultimately show ?thesis using that(1) by (auto simp: queue_valid_def valid_revs_def)
  qed
  have "k = DefaultConfig \<or> stored_key k"
    if "backend_objs (s_backend (storer_base (op_store opr))) k \<noteq> None" for k
    using st that unfolding backend_objs_def go_keys_get [symmetric]
    by (auto simp: store_wf_def backend_wf_def)
  moreover have "\<forall>c k v rv. op_store opr = ReadWrite c \<and> cached (rw_reader c) k v = Some rv \<longrightarrow>
      valid_revision (meta rv)"
    using st by (auto simp: store_wf_def cache_valid_def)
  moreover have "\<forall>n. sem = Some n \<longrightarrow> slots (sy_flush s) + slots (sy_retry s) \<le> n"
    using inv by (simp add: system_inv_def)
  ultimately show ?thesis
    using fl q [OF pu] q [of flushKeyFunc "fl_c (op_flusher opr)"]
      q [of errorKeyFunc "fl_retryCache (op_flusher opr)"]
    by (simp add: flusher_valid_def flushKeyFunc_def errorKeyFunc_def purgeKeyFunc_def del: not_None_eq)
qed

text \<open>A run of the sample operator: it starts, sees a change and begins to flush it.\<close>

definition sem_operator :: "int option \<Rightarrow> operator" where
  "sem_operator n = sample_operator\<lparr>op_store := Plain (sample_store\<lparr>s_writeSemaphore := n\<rparr>)\<rparr>"

definition sem_ready :: "int option \<Rightarrow> operator" where "sem_ready n = (sem_operator n)\<lparr>op_ready := True\<rparr>"

lemma sem_start: "run_start True (sem_operator n) = (Ok (), (sem_ready n))"
proof -
  let ?s = "sample_store\<lparr>s_writeSemaphore := n\<rparr>" and ?hs = "op_handlers (sem_operator n)"
  have h: "\<forall>(k, h) \<in> set ?hs. rh_keyErr h = (\<lambda>_. None)"
    by (simp add: sem_operator_def sample_operator_def web_handler_def)
  have b: "s_backend ?s = sample_backend" "\<not> s_deleteUntracked ?s" by (simp_all add: sample_store_def)
  have "filter (sync_obsolete False ?hs) (stored_revs sample_backend) = []"
    by (simp add: sample_revs sync_obsolete_def rev_handler_def HandlerFor_def sem_operator_def sample_operator_def
        handler_key_def APIVersion_def Kind_def Namespace_def)
      (simp add: web_rev_def node_rev_def path_eval web_handler_def informer_key_def meta_namespace_key_def
        Namespace_def Name_def)
  then obtain state where "store_Sync ?hs ?s = Ok (state, [], None)"
    using store_Sync_spec [of ?s ?hs] sample_wf sample_fault_free h b by auto
  then have "storer_Sync ?hs (Plain ?s) = (Ok (state, []), Plain ?s)" by (simp add: storer_Sync_def)
  then show ?thesis by (simp add: run_start_def syncStore_def sem_ready_def sem_operator_def)
qed

definition sem_changed :: "int option \<Rightarrow> operator" where
  "sem_changed n = (sem_ready n)\<lparr>op_flusher := flusher_Queue (RevisionFrom 0 web_obj2) (op_flusher (sem_ready n))\<rparr>"

lemma web2_valid: "valid_revision (meta (RevisionFrom 0 web_obj2))"
  by (simp add: web_from valid_revision_def valid_api_def plain_elem_def max_int64_def unix_of_def)

lemma sem_change: "processUnstructured 0 (WorkPair web_obj web_obj2) (sem_ready n) = (Ok True, (sem_changed n))"
proof -
  have rule: "storer_RuleFor (op_policy (sem_ready n)) (RevisionFrom 0 web_obj2) (op_store (sem_ready n))
      = (Ok (Some spec_rule), (op_store (sem_ready n), RevisionFrom 0 web_obj2))"
    by (simp add: sem_ready_def sem_operator_def sample_operator_def spec_rule_for)
  have r: "br_LabelSelector spec_rule = None"
    "br_ResourceNames spec_rule = [] \<or> Name (RevisionFrom 0 web_obj2) \<in> set (br_ResourceNames spec_rule)"
    by (simp_all add: spec_rule_def)
  have h: "HandlerFor (op_handlers (sem_ready n)) (GetAPIVersion web_obj2) (GetKind web_obj2)
     (GetNamespace web_obj2) = Some web_handler"
    using web_handled by (simp add: sem_ready_def sem_operator_def)
  have "ResourceVersion (RevisionFrom 0 web_obj) \<noteq> ResourceVersion (RevisionFrom 0 web_obj2)"
    by (simp add: ResourceVersion_def web_from) (simp add: object_eval web_obj_def number_eval)
  moreover have "\<exists>f \<in> set (br_Fields spec_rule). field_changed web_obj web_obj2 f"
    by (simp add: spec_rule_def field_changed_def NestedFieldNoCopy_def web_obj_def web_obj2_def)
  ultimately show ?thesis
    using process_pair [OF rule r h, of web_obj] web_informed by (simp add: sem_changed_def)
qed

definition quiet :: "operator \<Rightarrow> system" where
  "quiet opr = \<lparr>sy_op = opr, sy_flush = None, sy_retry = None\<rparr>"

lemma sem_fresh: "fresh_operator (sem_operator n)"
  by (simp add: fresh_operator_def sem_operator_def sample_operator_def store_wf_def sample_store_def)
    (simp add: sample_backend_def S3Provider_def)

lemma sem_step: "system_step n (quiet (sem_ready n)) (quiet (sem_changed n))"
proof -
  have "system_step n (quiet (sem_ready n)) (quiet (sem_ready n)\<lparr>sy_op := sem_changed n\<rparr>)"
    by (rule system_step.work [where now = 0 and item = "WorkPair web_obj web_obj2" and cont = True])
      (simp_all add: quiet_def sem_change item_revisions_def web2_valid)
  then show ?thesis by (simp add: quiet_def)
qed

lemma sem_run:
  assumes "\<forall>m. n = Some m \<longrightarrow> 0 \<le> m"
  shows "system_run n [quiet (sem_changed n), quiet (sem_ready n)]"
proof (rule system_run.step [OF _ sem_step])
  have sem: "n = storer_semaphore (op_store (sem_operator n))" by (simp add: sem_operator_def)
  show "system_run n [quiet (sem_ready n)]"
    unfolding quiet_def by (intro system_run.start system_init.intros [OF sem_fresh sem_start sem] assms)
qed

lemma sem_reachable:
  "\<exists>s. reachable (Some 1) s \<and> sy_op s = sem_changed (Some 1) \<and> sy_flush s \<noteq> None"
proof -
  let ?s = "quiet (sem_changed (Some 1))"
  have "reachable (Some 1) ?s" using run_reachable [OF sem_run [of "Some 1"]] by simp
  moreover have "system_step (Some 1) ?s (?s\<lparr>sy_flush := Some (begin_flush False (sem_changed (Some 1)))\<rparr>)"
    using system_step.flush_begin [of ?s "Some 1"] by (simp add: quiet_def)
  ultimately show ?thesis
    by (intro exI [of _ "?s\<lparr>sy_flush := Some (begin_flush False (sem_changed (Some 1)))\<rparr>"])
      (auto simp: quiet_def intro: reachable.step)
qed

theorem system_invariant_witness:
  "\<exists>s. reachable (Some 1) s \<and> sy_flush s \<noteq> None \<and> slots (sy_flush s) + slots (sy_retry s) \<le> 1"
proof -
  obtain s where s: "reachable (Some 1) s" "sy_flush s \<noteq> None" using sem_reachable by blast
  then show ?thesis using system_invariant [OF s(1)] by auto
qed

section \<open>What a store lists\<close>

text \<open>C21: List of a well-formed store, cached or not and whatever faults it meets, returns only valid
  revisions of the resource it was asked for.\<close>

theorem listed_revisions_valid:
  assumes "storer_List ns apiVersion kind nm st = Ok revs" "store_wf st"
  shows "\<forall>rv \<in> set revs. valid_revision (meta rv) \<and> rev_ResourceKey rv = ResourceKey apiVersion kind ns nm"
  using storer_List_valid [OF assms] by (simp add: valid_revs_def)

theorem listed_revisions_valid_witness:
  "\<exists>revs. storer_List ''default'' ''apps/v1'' ''Deployment'' ''web'' (Plain sample_store) = Ok revs \<and> revs \<noteq> []
     \<and> (\<forall>rv \<in> set revs. valid_revision (meta rv))"
proof -
  let ?k = "ResourceKey ''apps/v1'' ''Deployment'' ''default'' ''web''"
  have k: "?k = ''apps/v1/Deployment/default/web''" by (simp add: ResourceKey_def path_eval)
  let ?revs = "sort_revs (filter (\<lambda>rv. rev_ResourceKey rv = ?k \<and> \<not> Deleted rv) (stored_revs sample_backend))"
  have "s_backend sample_store = sample_backend" by (simp add: sample_store_def)
  then have l: "storer_List ''default'' ''apps/v1'' ''Deployment'' ''web'' (Plain sample_store) = Ok ?revs"
    using ns_List_spec [OF sample_wf(1) sample_fault_free(1)] by (simp add: storer_List_def)
  have wf: "store_wf (Plain sample_store)"
    by (simp add: store_wf_def) (simp add: sample_eval S3Provider_def)
  have ne: "?revs \<noteq> []"
    using sample_live unfolding live_revs_def k by (simp add: sort_revs_def)
  show ?thesis
    by (rule exI [of _ ?revs]) (use l ne listed_revisions_valid [OF l wf] in blast)
qed

section \<open>Delivery\<close>


lemma sample_healthy [simp]: "healthy sample_store"
  using sample_fault_free(1) by (simp add: healthy_def cipher_ok_def sample_store_def sample_codec_def)

definition changed_flusher :: flusher where
  "changed_flusher = \<lparr>fl_c = [(''apps/v1/Deployment/default/web'', RevisionFrom 0 web_obj2)], fl_retryCache = Cache_New\<rparr>"

lemma changed_queue: "queue_valid flushKeyFunc (fl_c changed_flusher)"
  using web2_valid
  by (simp add: changed_flusher_def queue_valid_def queue_wf_def Cache_SafeCopy_def flushKeyFunc_def web_from)
    (simp add: key_eval path_eval)


text \<open>A change of a watched object reaches the store with the next flush: when a field the rule
  names changed, the item queues the new revision, and the flush on a healthy store stores it, or
  one of at least its version that was queued for the same object.\<close>

theorem change_reaches_store:
  assumes "storer_RuleFor (op_policy opr) (RevisionFrom now new) (op_store opr)
      = (Ok (Some rule), (op_store opr, RevisionFrom now new))"
    and "br_LabelSelector rule = None"
    and "br_ResourceNames rule = [] \<or> Name (RevisionFrom now new) \<in> set (br_ResourceNames rule)"
    and "HandlerFor (op_handlers opr) (GetAPIVersion new) (GetKind new) (GetNamespace new) = Some h"
    and "informer_has h (RevisionFrom now new)"
    and "ResourceVersion (RevisionFrom now old) \<noteq> ResourceVersion (RevisionFrom now new)"
    and "f \<in> set (br_Fields rule)" "field_changed old new f"
    and "healthy (storer_base (op_store opr))" "operator_wf opr"
    and "concretes (Cache_SafeCopy (fl_c (op_flusher opr)))"
    and "valid_revision (meta (RevisionFrom now new))"
  defines "r \<equiv> meta (RevisionFrom now new)"
  shows "\<exists>opr' f' st'. processUnstructured now (WorkPair old new) opr = (Ok True, opr')
     \<and> flusher_tick False (op_flusher opr') (op_store opr') = (Ok (), (f', st'))
     \<and> (\<exists>r' u'. revision_ResourceKey r' = revision_ResourceKey r
          \<and> resourceVersion_of r \<le> resourceVersion_of r' \<and> carries st' r' u'
          \<and> ((\<forall>q. go_get (fl_c (op_flusher opr)) (revision_ResourceKey r) = Some q
                \<longrightarrow> ResourceVersion q < resourceVersion_of r) \<longrightarrow> r' = r \<and> u' = new))"
  unfolding r_def by (rule change_delivered [OF assms(1-12)])

theorem change_reaches_store_witness:
  "\<exists>opr' f' st'. processUnstructured 0 (WorkPair web_obj web_obj2) sample_operator = (Ok True, opr')
     \<and> flusher_tick False (op_flusher opr') (op_store opr') = (Ok (), (f', st'))
     \<and> carries st' (meta (RevisionFrom 0 web_obj2)) web_obj2"
proof -
  let ?o = sample_operator
  have rule: "storer_RuleFor (op_policy ?o) (RevisionFrom 0 web_obj2) (op_store ?o)
      = (Ok (Some spec_rule), (op_store ?o, RevisionFrom 0 web_obj2))"
    by (simp add: sample_operator_def spec_rule_for)
  have r: "br_LabelSelector spec_rule = None"
    "br_ResourceNames spec_rule = [] \<or> Name (RevisionFrom 0 web_obj2) \<in> set (br_ResourceNames spec_rule)"
    by (simp_all add: spec_rule_def)
  have v: "ResourceVersion (RevisionFrom 0 web_obj) \<noteq> ResourceVersion (RevisionFrom 0 web_obj2)"
    by (simp add: ResourceVersion_def web_from) (simp add: object_eval web_obj_def number_eval)
  have f: "''spec'' \<in> set (br_Fields spec_rule)" "field_changed web_obj web_obj2 ''spec''"
    by (simp_all add: spec_rule_def field_changed_def NestedFieldNoCopy_def web_obj_def web_obj2_def)
  have e: "fl_c (op_flusher ?o) = []" by (simp add: sample_operator_def Cache_New_def)
  have h: "healthy (storer_base (op_store ?o))" "concretes (Cache_SafeCopy (fl_c (op_flusher ?o)))"
    by (simp_all add: e concretes_def Cache_SafeCopy_def) (simp add: sample_operator_def)
  have wf: "operator_wf ?o"
    by (simp add: operator_wf_def sample_operator_def flusher_valid_def store_wf_def)
      (simp add: sample_eval S3Provider_def)
  from change_reaches_store [OF rule r web_handled web_informed v f h(1) wf h(2) web2_valid] e
  show ?thesis by auto
qed

section \<open>What becomes of a queued revision\<close>


lemma sem_changed_state:
  "op_flusher (sem_changed None) = changed_flusher" "op_store (sem_changed None) = Plain sample_store"
  by (simp add: sem_changed_def sem_ready_def sem_operator_def sample_operator_def flusher_Queue_def
      Cache_Cache_def Cache_New_def changed_flusher_def flushKeyFunc_def web_from)
    (simp add: key_eval path_eval go_put_def,
     simp add: sem_changed_def sem_ready_def sem_operator_def, simp add: sample_store_def)


end
