(* ===== verification/Archive.thy ===== *)
theory Archive
  imports Delivery
begin

text \<open>
  The contract of a store as an archive: a map from revisions to contents that writes extend and
  purges restrict, and that List reads.  The locale \<open>archive_store\<close> says what one write and one
  purge do, its lemmas what any sequence of them does; \<open>listed_archive\<close> adds List.  Both are
  interpreted on the operations of the store, the first with and without the cache.
\<close>

section \<open>The abstract archive\<close>

type_synonym 'c archive = "revision \<Rightarrow> 'c option"

datatype archive_event = Wrote revision object | Purged "revision list"

text \<open>Keys hold whole seconds, so an archive knows a revision by its truncation.\<close>

fun archive_step :: "(object \<Rightarrow> 'c) \<Rightarrow> archive_event \<Rightarrow> 'c archive \<Rightarrow> 'c archive" where
  "archive_step content (Wrote r u) h = h(trunc_revision r \<mapsto> content u)"
| "archive_step content (Purged rs) h = h |` (- trunc_revision ` set rs)"

fun event_valid :: "archive_event \<Rightarrow> bool" where
  "event_valid (Wrote r u) = valid_revision r"
| "event_valid (Purged rs) \<longleftrightarrow> (\<forall>r \<in> set rs. valid_revision r) \<and> distinct (map revision_Key rs)"

fun touches :: "archive_event \<Rightarrow> revision \<Rightarrow> bool" where
  "touches (Wrote r u) r' \<longleftrightarrow> trunc_revision r = trunc_revision r'"
| "touches (Purged rs) r' \<longleftrightarrow> trunc_revision r' \<in> trunc_revision ` set rs"

lemma archive_untouched:
  "\<not> touches e r \<Longrightarrow> archive_step content e h (trunc_revision r) = h (trunc_revision r)"
  by (cases e) (auto simp: restrict_map_def)

lemma archive_all_untouched:
  "\<forall>e \<in> set es. \<not> touches e r \<Longrightarrow> fold (archive_step content) es h (trunc_revision r) = h (trunc_revision r)"
  by (induction es arbitrary: h) (simp_all add: archive_untouched)

text \<open>A run of events with operations that may fail, stopping at the first failure.\<close>

fun run_event :: "(revision \<Rightarrow> object \<Rightarrow> 's \<Rightarrow> unit result \<times> 's) \<Rightarrow> (revision list \<Rightarrow> 's \<Rightarrow> unit result \<times> 's)
    \<Rightarrow> archive_event \<Rightarrow> 's \<Rightarrow> unit result \<times> 's" where
  "run_event wrt prg (Wrote r u) s = wrt r u s"
| "run_event wrt prg (Purged rs) s = prg rs s"

fun run_events :: "(revision \<Rightarrow> object \<Rightarrow> 's \<Rightarrow> unit result \<times> 's) \<Rightarrow> (revision list \<Rightarrow> 's \<Rightarrow> unit result \<times> 's)
    \<Rightarrow> archive_event list \<Rightarrow> 's \<Rightarrow> unit result \<times> 's" where
  "run_events wrt prg [] s = (Ok (), s)"
| "run_events wrt prg (e # es) s = on_ok (run_event wrt prg e s) (\<lambda>_ s. run_events wrt prg es s)"

section \<open>The contract\<close>

locale archive_store =
  fixes view :: "'s \<Rightarrow> 'c archive"
    and inv :: "'s \<Rightarrow> bool"
    and content :: "'s \<Rightarrow> object \<Rightarrow> 'c"
    and wrt :: "revision \<Rightarrow> object \<Rightarrow> 's \<Rightarrow> unit result \<times> 's"
    and prg :: "revision list \<Rightarrow> 's \<Rightarrow> unit result \<times> 's"
  assumes write_law: "inv s \<Longrightarrow> valid_revision r \<Longrightarrow> \<exists>s'. wrt r u s = (Ok (), s') \<and> inv s'
      \<and> content s' = content s \<and> view s' = (view s)(trunc_revision r \<mapsto> content s u)"
    and purge_law: "inv s \<Longrightarrow> event_valid (Purged rs) \<Longrightarrow> \<exists>s'. prg rs s = (Ok (), s') \<and> inv s'
      \<and> content s' = content s \<and> view s' = view s |` (- trunc_revision ` set rs)"
begin

lemma event_refines:
  assumes "inv s" "event_valid e"
  shows "\<exists>s'. run_event wrt prg e s = (Ok (), s') \<and> inv s' \<and> content s' = content s
     \<and> view s' = archive_step (content s) e (view s)"
  using assms write_law purge_law by (cases e) auto

lemma events_refine:
  assumes "inv s" "\<forall>e \<in> set es. event_valid e"
  shows "\<exists>s'. run_events wrt prg es s = (Ok (), s') \<and> inv s' \<and> content s' = content s
     \<and> view s' = fold (archive_step (content s)) es (view s)"
  using assms
proof (induction es arbitrary: s)
  case (Cons e es)
  then obtain s1 where s1: "run_event wrt prg e s = (Ok (), s1)" "inv s1" "content s1 = content s"
    "view s1 = archive_step (content s) e (view s)" using event_refines [of s e] by auto
  from Cons.IH [OF s1(2)] Cons.prems(2) obtain s2 where
    "run_events wrt prg es s1 = (Ok (), s2)" "inv s2" "content s2 = content s"
    "view s2 = fold (archive_step (content s)) es (view s1)" using s1(3) by auto
  then show ?case using s1(1,4) by simp
qed simp

text \<open>What was written and neither written again nor purged since is there.\<close>

lemma written_kept:
  assumes "inv s" "\<forall>e \<in> set (es @ Wrote r u # es'). event_valid e" "\<forall>e \<in> set es'. \<not> touches e r"
  shows "\<exists>s'. run_events wrt prg (es @ Wrote r u # es') s = (Ok (), s') \<and> inv s'
     \<and> view s' (trunc_revision r) = Some (content s u)"
  using events_refine [OF assms(1,2)] by (auto simp: archive_all_untouched [OF assms(3)])

lemma purged_gone:
  assumes "inv s" "\<forall>e \<in> set (es @ Purged rs # es'). event_valid e" "r \<in> set rs"
    "\<forall>e \<in> set es'. \<not> touches e r"
  shows "\<exists>s'. run_events wrt prg (es @ Purged rs # es') s = (Ok (), s') \<and> inv s'
     \<and> view s' (trunc_revision r) = None"
  using events_refine [OF assms(1,2)] assms(3) by (auto simp: archive_all_untouched [OF assms(4)])

end

text \<open>An archive whose live revisions can be listed.\<close>

locale listed_archive = archive_store +
  fixes listing :: "string \<Rightarrow> string \<Rightarrow> string \<Rightarrow> string \<Rightarrow> 'a \<Rightarrow> Revision list result"
  assumes listing_law: "inv s \<Longrightarrow> \<exists>revs. listing ns a k n s = Ok revs \<and> distinct revs
      \<and> sorted (map ResourceVersion revs)
      \<and> (\<forall>rv. rv \<in> set revs \<longleftrightarrow> (\<exists>r. rv = LazyLoadingRevision r None \<and> view s r \<noteq> None
           \<and> revision_ResourceKey r = ResourceKey a k ns n \<and> \<not> deleted_of r))"
begin

lemma written_listed:
  assumes "inv s" "\<forall>e \<in> set (es @ Wrote r u # es'). event_valid e" "\<forall>e \<in> set es'. \<not> touches e r"
    "\<not> deleted_of r" "revision_ResourceKey r = ResourceKey a k ns n"
  shows "\<exists>s' revs. run_events wrt prg (es @ Wrote r u # es') s = (Ok (), s') \<and> inv s'
     \<and> listing ns a k n s' = Ok revs \<and> LazyLoadingRevision (trunc_revision r) None \<in> set revs
     \<and> view s' (trunc_revision r) = Some (content s u)"
proof -
  obtain s' where s': "run_events wrt prg (es @ Wrote r u # es') s = (Ok (), s')" "inv s'"
    "view s' (trunc_revision r) = Some (content s u)" using written_kept [OF assms(1-3)] by blast
  obtain revs where revs: "listing ns a k n s' = Ok revs"
    "\<forall>rv. rv \<in> set revs \<longleftrightarrow> (\<exists>r. rv = LazyLoadingRevision r None \<and> view s' r \<noteq> None
       \<and> revision_ResourceKey r = ResourceKey a k ns n \<and> \<not> deleted_of r)"
    using listing_law [OF s'(2), of ns a k n] by blast
  have "LazyLoadingRevision (trunc_revision r) None \<in> set revs"
    unfolding revs(2) [rule_format] using s'(3) assms(4,5)
    by (intro exI [of _ "trunc_revision r"]) (simp add: trunc_revision_def revision_ResourceKey_def)
  then show ?thesis using s' revs(1) by blast
qed

end

section \<open>Purging on a healthy store\<close>

lemma remove_each_faults:
  "faults (be_bucket (snd (remove_each b keys acc err))) = faults (be_bucket b)"
proof (induction keys arbitrary: b acc err)
  case (Cons k keys)
  obtain r b' where r: "Backend_Remove b k = (r, b')" by fastforce
  then have "faults (be_bucket b') = faults (be_bucket b)" using Backend_Remove_frame(1) [of b k] by simp
  then show ?case using Cons.IH r by (cases r) simp_all
qed simp

lemma PurgeRevisions_healthy:
  assumes "\<forall>rv \<in> set revs. valid_revision (meta rv)" "distinct (map rev_Key revs)"
    "be_provider (s_backend s) \<noteq> S3Provider"
    "PurgeRevisions revs s = (Ok x, s')"
  shows "same_setup s s' \<and> faults (be_bucket (s_backend s')) = faults (be_bucket (s_backend s))"
proof (cases "revs = []")
  case True
  then show ?thesis using assms(4) by (simp add: PurgeRevisions_def same_setup_def)
next
  case False
  let ?keys = "map rev_Key revs"
  have "s' = s\<lparr>s_backend := snd (remove_each (s_backend s) ?keys [] None)\<rparr>"
  proof (cases "s_bulk s")
    case True
    obtain ks err b where rm: "remove_each (s_backend s) ?keys [] None = ((ks, err), b)" by (metis surj_pair)
    then show ?thesis using assms(3,4) False True
      by (cases "parse_deleted ks []") (simp_all add: PurgeRevisions_def Backend_RemoveAll_def)
  next
    case nb: False
    show ?thesis
      using purge_each_remove_each [OF assms(1,2), of "[]" s "[]" None] assms(4) False nb
      by (simp add: PurgeRevisions_def)
  qed
  then show ?thesis by (simp add: same_setup_def remove_each_faults)
qed

section \<open>The store as an archive\<close>

text \<open>
  A stored object is read as Get reads it: decrypted and decoded.  What is recorded of a content
  is its encoding, decoded.
\<close>

definition decoded :: "storer \<Rightarrow> object \<Rightarrow> object result" where
  "decoded st u = result_bind (json_marshal (s_codec (storer_base st)) u) (json_unmarshal (s_codec (storer_base st)))"

definition archive_of :: "storer \<Rightarrow> object result archive" where
  "archive_of st r =
     (if valid_revision r \<and> trunc_revision r = r
      then map_option (\<lambda>c. result_bind (unseal (storer_base st) c) (json_unmarshal (s_codec (storer_base st))))
        (backend_objs (s_backend (storer_base st)) (revision_Key r))
      else None)"

definition archive_inv :: "storer \<Rightarrow> bool" where
  "archive_inv st \<longleftrightarrow> store_wf st \<and> healthy (storer_base st)"

text \<open>The writes of the flusher and the purges, without what else they return.\<close>

definition archive_write :: "revision \<Rightarrow> object \<Rightarrow> storer \<Rightarrow> unit result \<times> storer" where
  "archive_write r u st = (case write_rev (ConcreteRevision r u) st of (x, (st', rv)) \<Rightarrow> (x, st'))"

definition archive_purge :: "revision list \<Rightarrow> storer \<Rightarrow> unit result \<times> storer" where
  "archive_purge rs st = on_ok (storer_PurgeRevisions (map (\<lambda>r. LazyLoadingRevision r None) rs) st) (\<lambda>_ st. (Ok (), st))"

lemma Key_eq_trunc:
  "valid_revision r \<Longrightarrow> valid_revision r' \<Longrightarrow> revision_Key r = revision_Key r' \<longleftrightarrow> trunc_revision r = trunc_revision r'"
  using Key_inject by (metis trunc_keys(1))

lemma trunc_idem [simp]: "trunc_revision (trunc_revision r) = trunc_revision r"
  by (simp add: trunc_revision_def)

lemma decoded_setup: "same_setup (storer_base st) (storer_base st') \<Longrightarrow> decoded st' = decoded st"
  by (simp add: decoded_def [abs_def] same_setup_def)

lemma archive_write_law:
  assumes "archive_inv st" "valid_revision r"
  shows "\<exists>st'. archive_write r u st = (Ok (), st') \<and> archive_inv st' \<and> decoded st' = decoded st
     \<and> archive_of st' = (archive_of st)(trunc_revision r \<mapsto> decoded st u)"
proof -
  have inv: "store_wf st" "healthy (storer_base st)" using assms(1) by (simp_all add: archive_inv_def)
  obtain st' where w: "write_rev (ConcreteRevision r u) st = (Ok (), (st', ConcreteRevision r u))"
    "healthy (storer_base st')" "same_setup (storer_base st) (storer_base st')" "carries st' r u"
    "\<And>k. k \<noteq> revision_Key r \<Longrightarrow>
       backend_objs (s_backend (storer_base st')) k = backend_objs (s_backend (storer_base st)) k"
    by (rule write_rev_healthy [OF inv(2) assms(2)]) blast
  have "store_wf st'" using write_rev_wf [OF w(1) _ inv(1)] assms(2) by simp
  moreover have "archive_of st' r' = ((archive_of st)(trunc_revision r \<mapsto> decoded st u)) r'" for r'
  proof (cases "r' = trunc_revision r")
    case True
    then show ?thesis using w(3,4) assms(2)
      by (auto simp: archive_of_def carries_def decoded_def same_setup_def)
  next
    case False
    then have "revision_Key r' \<noteq> revision_Key r" if "valid_revision r'" "trunc_revision r' = r'"
      using that Key_eq_trunc [OF that(1) assms(2)] by auto
    then show ?thesis using False w(3,5) by (auto simp: archive_of_def same_setup_def unseal_def)
  qed
  ultimately show ?thesis
    using w(1,2) decoded_setup [OF w(3)] by (auto simp: archive_write_def archive_inv_def)
qed

lemma archive_purge_law:
  assumes "archive_inv st" "event_valid (Purged rs)"
  shows "\<exists>st'. archive_purge rs st = (Ok (), st') \<and> archive_inv st' \<and> decoded st' = decoded st
     \<and> archive_of st' = archive_of st |` (- trunc_revision ` set rs)"
proof -
  let ?revs = "map (\<lambda>r. LazyLoadingRevision r None) rs" and ?s = "storer_base st"
  have inv: "store_wf st" "healthy ?s" using assms(1) by (simp_all add: archive_inv_def)
  have v: "\<forall>rv \<in> set ?revs. valid_revision (meta rv)" "distinct (map rev_Key ?revs)"
    using assms(2) by (simp_all add: o_def)
  have p: "be_provider (s_backend ?s) \<noteq> S3Provider" using inv(1) by (simp add: store_wf_def)
  obtain gone err s' where pr: "PurgeRevisions ?revs ?s = (Ok (gone, err), s')"
    and objs: "\<forall>k. backend_objs (s_backend s') k = (if k \<in> rev_Key ` set ?revs \<and> removable (s_backend ?s) k
      then None else backend_objs (s_backend ?s) k)" using PurgeRevisions_spec [OF v p] by blast
  obtain st' where st': "storer_PurgeRevisions ?revs st = (Ok (gone, err), st')" "storer_base st' = s'"
    using storer_PurgeRevisions_base [OF pr] by blast
  note same = PurgeRevisions_healthy [OF v p pr]
  have inv': "archive_inv st'"
    using storer_PurgeRevisions_wf [OF st'(1) inv(1)] inv(2) same st'(2)
    by (simp add: archive_inv_def healthy_def fault_free_def same_setup_def)
  have gone: "backend_objs (s_backend s') k = (if k \<in> revision_Key ` set rs then None else backend_objs (s_backend ?s) k)" for k
    using objs inv(2) by (auto simp: removable_def healthy_def fault_free_def image_image)
  have "archive_of st' r' = (archive_of st |` (- trunc_revision ` set rs)) r'" for r'
  proof (cases "valid_revision r' \<and> trunc_revision r' = r'")
    case True
    have "revision_Key r' \<in> revision_Key ` set rs \<longleftrightarrow> r' \<in> trunc_revision ` set rs"
      using True Key_eq_trunc assms(2) by (auto simp: image_iff)
    then show ?thesis using True same st'(2) gone
      by (simp add: archive_of_def restrict_map_def same_setup_def unseal_def)
  qed (auto simp: archive_of_def restrict_map_def)
  then show ?thesis
    using st' inv' decoded_setup [of st st'] same by (auto simp: archive_purge_def)
qed

interpretation kept: archive_store archive_of archive_inv decoded archive_write archive_purge
  by unfold_locales (rule archive_write_law archive_purge_law, assumption+)+

text \<open>A store without the cache lists its archive.\<close>

definition listed_inv :: "storer \<Rightarrow> bool" where
  "listed_inv st \<longleftrightarrow> archive_inv st \<and> (case st of Plain s \<Rightarrow> True | ReadWrite s \<Rightarrow> False)"

lemma archive_write_plain: "archive_write r u (Plain s) = (x, st') \<Longrightarrow> \<exists>s'. st' = Plain s'"
  by (auto simp: archive_write_def write_rev_def storer_Delete_def storer_Update_def on_ok_def
      split: if_splits prod.splits result.splits)

lemma archive_purge_plain: "archive_purge rs (Plain s) = (x, st') \<Longrightarrow> \<exists>s'. st' = Plain s'"
  by (auto simp: archive_purge_def storer_PurgeRevisions_def on_ok_def split: prod.splits result.splits)

lemma listing_archive:
  assumes "listed_inv st"
  shows "\<exists>revs. storer_List ns a k n st = Ok revs \<and> distinct revs \<and> sorted (map ResourceVersion revs)
     \<and> (\<forall>rv. rv \<in> set revs \<longleftrightarrow> (\<exists>r. rv = LazyLoadingRevision r None \<and> archive_of st r \<noteq> None
          \<and> revision_ResourceKey r = ResourceKey a k ns n \<and> \<not> deleted_of r))"
proof -
  obtain s where st: "st = Plain s" using assms by (cases st) (simp_all add: listed_inv_def)
  then have wf: "backend_wf (s_backend s)" "fault_free (s_backend s)"
    using assms by (simp_all add: listed_inv_def archive_inv_def store_wf_def healthy_def)
  let ?live = "live_revs (ResourceKey a k ns n) (s_backend s)"
  have "storer_List ns a k n st = Ok (sort_revs ?live)"
    using ns_List_spec [OF wf] by (simp add: st storer_List_def live_revs_def)
  moreover have "distinct (map rev_Key (sort_revs ?live))"
    using live_revs_distinct [OF wf(1)] by (simp add: distinct_map sort_revs_def)
  then have "distinct (sort_revs ?live)" by (simp add: distinct_map)
  moreover have "rv \<in> set (sort_revs ?live) \<longleftrightarrow> (\<exists>r. rv = LazyLoadingRevision r None \<and> archive_of st r \<noteq> None
          \<and> revision_ResourceKey r = ResourceKey a k ns n \<and> \<not> deleted_of r)" for rv
    using stored_revs_iff [OF wf(1), of rv]
    by (auto simp: live_revs_def archive_of_def st Deleted_def)
  ultimately show ?thesis using sort_revs_sorted by blast
qed

interpretation plain: listed_archive archive_of listed_inv decoded archive_write archive_purge storer_List
proof
  fix st r u assume a: "listed_inv st" "valid_revision r"
  then obtain s where st: "st = Plain s" "archive_inv st" by (cases st) (simp_all add: listed_inv_def)
  from archive_write_law [OF st(2) a(2)] show "\<exists>st'. archive_write r u st = (Ok (), st') \<and> listed_inv st'
      \<and> decoded st' = decoded st \<and> archive_of st' = (archive_of st)(trunc_revision r \<mapsto> decoded st u)"
    using archive_write_plain st(1) by (fastforce simp: listed_inv_def)
next
  fix st rs assume a: "listed_inv st" "event_valid (Purged rs)"
  then obtain s where st: "st = Plain s" "archive_inv st" by (cases st) (simp_all add: listed_inv_def)
  from archive_purge_law [OF st(2) a(2)] show "\<exists>st'. archive_purge rs st = (Ok (), st') \<and> listed_inv st'
      \<and> decoded st' = decoded st \<and> archive_of st' = archive_of st |` (- trunc_revision ` set rs)"
    using archive_purge_plain st(1) by (fastforce simp: listed_inv_def)
qed (rule listing_archive)

end
