(* ===== verification/Archive_Props.thy ===== *)
theory Archive_Props
  imports Archive Samples
begin

text \<open>
  The properties of the store as an archive: any sequence of writes and purges refines the same
  sequence on the abstract archive, and what was written is listed.
\<close>

text \<open>C4: a store, with the cache or without it, is an archive: from a well-formed healthy store any
  sequence of valid writes and purges succeeds, leaves such a store, and takes the archive it stands
  for where the same sequence takes it on the map from revisions to contents.\<close>

theorem archive_refined:
  assumes "store_wf st" "healthy (storer_base st)" "\<forall>e \<in> set es. event_valid e"
  shows "\<exists>st'. run_events archive_write archive_purge es st = (Ok (), st')
     \<and> store_wf st' \<and> healthy (storer_base st')
     \<and> archive_of st' = fold (archive_step (decoded st)) es (archive_of st)"
  using kept.events_refine [of st es] assms by (auto simp: archive_inv_def)

definition web11 :: revision where "web11 = web_rev 11 1700000120 False"

lemma web11_valid [simp]: "valid_revision web11"
  by (simp add: web11_def valid_revision_def web_rev_def valid_api_def plain_elem_def max_int64_def)

definition two_events :: "archive_event list" where
  "two_events = [Wrote web11 web_obj, Purged [web_rev 9 1700000000 False]]"

lemma two_events_valid: "\<forall>e \<in> set two_events. event_valid e"
  by (simp add: two_events_def)

lemma sample_archive: "store_wf (Plain sample_store)" "healthy (storer_base (Plain sample_store))"
proof -
  show "store_wf (Plain sample_store)" by (simp add: store_wf_def) (simp add: sample_eval S3Provider_def)
  show "healthy (storer_base (Plain sample_store))"
    using sample_fault_free(1) by (simp add: healthy_def cipher_ok_def sample_store_def sample_codec_def)
qed

lemma decoded_sample: "decoded (Plain sample_store) u = Ok web_obj"
  by (simp add: decoded_def sample_store_def sample_codec_def)

theorem archive_refined_witness:
  "\<exists>st'. run_events archive_write archive_purge two_events (Plain sample_store) = (Ok (), st')
     \<and> archive_of st' web11 = Some (Ok web_obj) \<and> archive_of st' (web_rev 9 1700000000 False) = None"
proof -
  obtain st' where st': "run_events archive_write archive_purge two_events (Plain sample_store) = (Ok (), st')"
    "archive_of st' = fold (archive_step (decoded (Plain sample_store))) two_events (archive_of (Plain sample_store))"
    using archive_refined [OF sample_archive two_events_valid] by blast
  have "web11 \<noteq> web_rev 9 1700000000 False" by (simp add: web11_def web_rev_def)
  moreover have "trunc_revision web11 = web11" by (simp add: web11_def)
  ultimately show ?thesis using st' by (simp add: two_events_def decoded_sample)
qed

text \<open>C20: a revision that is written to a store without the cache, and neither written again nor purged
  since, is listed for its object, and what is stored of it decodes to what was written, whatever
  else was written and purged before and after.\<close>

theorem written_revision_listed:
  assumes "backend_wf (s_backend s)" "be_provider (s_backend s) \<noteq> S3Provider" "healthy s"
    and "\<forall>e \<in> set (es @ Wrote r u # es'). event_valid e" "\<forall>e \<in> set es'. \<not> touches e r" "\<not> deleted_of r"
  shows "\<exists>st' revs. run_events archive_write archive_purge (es @ Wrote r u # es') (Plain s) = (Ok (), st')
     \<and> storer_List (namespace_of r) (apiVersion_of r) (kind_of r) (name_of r) st' = Ok revs
     \<and> LazyLoadingRevision (trunc_revision r) None \<in> set revs
     \<and> archive_of st' (trunc_revision r) = Some (decoded (Plain s) u)"
proof -
  have "listed_inv (Plain s)" using assms(1-3) by (simp add: listed_inv_def archive_inv_def store_wf_def)
  from plain.written_listed [OF this assms(4-6) revision_ResourceKey_def] show ?thesis by blast
qed

theorem written_revision_listed_witness:
  "\<exists>st' revs. run_events archive_write archive_purge two_events (Plain sample_store) = (Ok (), st')
     \<and> storer_List ''default'' ''apps/v1'' ''Deployment'' ''web'' st' = Ok revs
     \<and> LazyLoadingRevision web11 None \<in> set revs"
proof -
  have s: "backend_wf (s_backend sample_store)" "be_provider (s_backend sample_store) \<noteq> S3Provider" "healthy sample_store"
    using sample_archive by (simp_all add: store_wf_def)
  have fields: "namespace_of web11 = ''default''" "apiVersion_of web11 = ''apps/v1''"
    "kind_of web11 = ''Deployment''" "name_of web11 = ''web''" "trunc_revision web11 = web11" "\<not> deleted_of web11"
    by (simp_all add: web11_def) (simp_all add: web_rev_def)
  have "\<forall>e \<in> set [Purged [web_rev 9 1700000000 False]]. \<not> touches e web11"
    by (simp add: fields(5)) (simp add: web11_def web_rev_def)
  from written_revision_listed [OF s, of "[]" web11 web_obj "[Purged [web_rev 9 1700000000 False]]"] this
  show ?thesis using two_events_valid fields by (simp add: two_events_def) blast
qed

end
