(* ===== verification/Metrics.thy ===== *)
theory Metrics
  imports Controller
begin

text \<open>
  pkg/store/metrics.go, pkg/store/backend/metrics.go and pkg/controller/metrics.go: the wrappers
  that count and time the calls of the store and of the backend, and the registration of the
  metrics of the work queues.  A metric is part of an explicit state; the clock is read before
  and after each call.
\<close>

section \<open>Counters and latencies\<close>

text \<open>
  The metrics of pkg/store.  \<open>mt_clock\<close> gives the n-th reading of the clock, \<open>mt_ticks\<close> counts the
  readings; a latency is the list of its observations.
\<close>

record metrics =
  getCounter :: nat
  getLatency :: "int list"
  createCounter :: nat
  createLatency :: "int list"
  deleteCounter :: nat
  deleteLatency :: "int list"
  listCounter :: nat
  listLatency :: "int list"
  mt_clock :: "nat \<Rightarrow> gotime"
  mt_ticks :: nat

text \<open>A call that may use the metrics itself, and one that does not.\<close>

type_synonym ('a, 't) metered = "metrics \<Rightarrow> 'a result \<times> (metrics \<times> 't)"

definition unmetered :: "'a result \<times> 't \<Rightarrow> ('a, 't) metered" where
  "unmetered c m = (fst c, (m, snd c))"

text \<open>
  The body every wrapper shares: count, read the clock, call, observe the time since.  A panic or
  a \<open>Fatal\<close> of the call leaves before the observation, which is not deferred.
\<close>

definition timed :: "(metrics \<Rightarrow> metrics) \<Rightarrow> (int \<Rightarrow> metrics \<Rightarrow> metrics) \<Rightarrow> ('a, 't) metered
    \<Rightarrow> ('a, 't) metered" where
  "timed inc observe call m =
     (let m = inc m;
          start = mt_clock m (mt_ticks m);
          m = m\<lparr>mt_ticks := Suc (mt_ticks m)\<rparr>
      in case call m of
           (Crash c, (m, t)) \<Rightarrow> (Crash c, (m, t))
         | (r, (m, t)) \<Rightarrow>
             (r, (observe (mt_clock m (mt_ticks m) - start) (m\<lparr>mt_ticks := Suc (mt_ticks m)\<rparr>), t)))"

abbreviation inc_get :: "metrics \<Rightarrow> metrics" where
  "inc_get m \<equiv> m\<lparr>getCounter := Suc (getCounter m)\<rparr>"
abbreviation inc_create :: "metrics \<Rightarrow> metrics" where
  "inc_create m \<equiv> m\<lparr>createCounter := Suc (createCounter m)\<rparr>"
abbreviation inc_delete :: "metrics \<Rightarrow> metrics" where
  "inc_delete m \<equiv> m\<lparr>deleteCounter := Suc (deleteCounter m)\<rparr>"
abbreviation inc_list :: "metrics \<Rightarrow> metrics" where
  "inc_list m \<equiv> m\<lparr>listCounter := Suc (listCounter m)\<rparr>"
abbreviation obs_get :: "int \<Rightarrow> metrics \<Rightarrow> metrics" where
  "obs_get d m \<equiv> m\<lparr>getLatency := getLatency m @ [d]\<rparr>"
abbreviation obs_create :: "int \<Rightarrow> metrics \<Rightarrow> metrics" where
  "obs_create d m \<equiv> m\<lparr>createLatency := createLatency m @ [d]\<rparr>"
abbreviation obs_delete :: "int \<Rightarrow> metrics \<Rightarrow> metrics" where
  "obs_delete d m \<equiv> m\<lparr>deleteLatency := deleteLatency m @ [d]\<rparr>"
abbreviation obs_list :: "int \<Rightarrow> metrics \<Rightarrow> metrics" where
  "obs_list d m \<equiv> m\<lparr>listLatency := listLatency m @ [d]\<rparr>"

section \<open>The instrumented interfaces of the store\<close>

text \<open>Each takes the call of the interface it wraps.  Delete counts as a delete and is timed as a create.\<close>

definition instr_PurgeRevision :: "(unit, 't) metered \<Rightarrow> (unit, 't) metered" where
  "instr_PurgeRevision call = timed inc_delete obs_delete call"

definition instr_PurgeRevisions ::
    "(Revision list \<times> error option, 't) metered \<Rightarrow> (Revision list \<times> error option, 't) metered" where
  "instr_PurgeRevisions call = timed inc_delete obs_delete call"

definition instr_Create :: "(Revision, 't) metered \<Rightarrow> (Revision, 't) metered" where
  "instr_Create call = timed inc_create obs_create call"

definition instr_Update :: "(Revision, 't) metered \<Rightarrow> (Revision, 't) metered" where
  "instr_Update call = timed inc_create obs_create call"

definition instr_Delete :: "(unit, 't) metered \<Rightarrow> (unit, 't) metered" where
  "instr_Delete call = timed inc_delete obs_create call"

definition instr_Get :: "(Revision option, 't) metered \<Rightarrow> (Revision option, 't) metered" where
  "instr_Get call = timed inc_get obs_get call"

definition instr_List :: "(Revision list, 't) metered \<Rightarrow> (Revision list, 't) metered" where
  "instr_List call = timed inc_list obs_list call"

text \<open>
  The asynchronous interface has the same five, and three whose call returns as soon as the
  semaphore is acquired: what is timed is the wait for a slot.
\<close>

definition async_Create :: "(Revision, 't) metered \<Rightarrow> (Revision, 't) metered" where
  "async_Create call = timed inc_create obs_create call"

definition async_Update :: "(Revision, 't) metered \<Rightarrow> (Revision, 't) metered" where
  "async_Update call = timed inc_create obs_create call"

definition async_Delete :: "(unit, 't) metered \<Rightarrow> (unit, 't) metered" where
  "async_Delete call = timed inc_delete obs_create call"

definition async_Get :: "(Revision option, 't) metered \<Rightarrow> (Revision option, 't) metered" where
  "async_Get call = timed inc_get obs_get call"

definition async_List :: "(Revision list, 't) metered \<Rightarrow> (Revision list, 't) metered" where
  "async_List call = timed inc_list obs_list call"

definition async_AsyncCreate :: "('ch, 't) metered \<Rightarrow> ('ch, 't) metered" where
  "async_AsyncCreate call = timed inc_create obs_create call"

definition async_AsyncUpdate :: "('ch, 't) metered \<Rightarrow> ('ch, 't) metered" where
  "async_AsyncUpdate call = timed inc_create obs_create call"

definition async_AsyncDelete :: "('ch, 't) metered \<Rightarrow> ('ch, 't) metered" where
  "async_AsyncDelete call = timed inc_delete obs_create call"

section \<open>The store behind the wrappers\<close>

text \<open>
  \<open>Revisions\<close> of both stores wraps with the synchronous or, with a semaphore, the asynchronous
  interface.  The read-write store calls \<open>Revisions\<close> of the store it wraps, so its writes pass
  two wrappers.
\<close>

definition metered_ns_Update :: "Revision \<Rightarrow> store \<Rightarrow> (Revision, store \<times> Revision) metered" where
  "metered_ns_Update rv s =
     (if s_writeSemaphore s \<noteq> None then async_Update (unmetered (ns_Update rv s))
      else instr_Update (unmetered (ns_Update rv s)))"

definition metered_ns_Create :: "Revision \<Rightarrow> store \<Rightarrow> (Revision, store \<times> Revision) metered" where
  "metered_ns_Create rv s =
     (if s_writeSemaphore s \<noteq> None then async_Create (unmetered (ns_Create rv s))
      else instr_Create (unmetered (ns_Create rv s)))"

definition metered_ns_Delete :: "Revision \<Rightarrow> store \<Rightarrow> (unit, store \<times> Revision) metered" where
  "metered_ns_Delete rv s =
     (if s_writeSemaphore s \<noteq> None then async_Delete (unmetered (ns_Delete rv s))
      else instr_Delete (unmetered (ns_Delete rv s)))"

definition metered_ns_Get :: "Revision \<Rightarrow> store \<Rightarrow> (Revision option, store) metered" where
  "metered_ns_Get rv s =
     (if s_writeSemaphore s \<noteq> None then async_Get (unmetered (ns_Get rv s))
      else instr_Get (unmetered (ns_Get rv s)))"

definition metered_ns_List ::
    "string \<Rightarrow> string \<Rightarrow> string \<Rightarrow> string \<Rightarrow> store \<Rightarrow> (Revision list, store) metered" where
  "metered_ns_List ns apiVersion kind nm s =
     (if s_writeSemaphore s \<noteq> None then async_List (unmetered (ns_List ns apiVersion kind nm s, s))
      else instr_List (unmetered (ns_List ns apiVersion kind nm s, s)))"

definition metered_rw_Update :: "Revision \<Rightarrow> rw_store \<Rightarrow> (Revision, rw_store \<times> Revision) metered" where
  "metered_rw_Update rv s =
     (let call = (\<lambda>m. case metered_ns_Update rv (rw_storer s) m of (res, (m, (st, rv))) \<Rightarrow>
        on_ok (res, (m, (s\<lparr>rw_storer := st\<rparr>, rv))) (\<lambda>_ (m, (s, rv)).
          let (r, c) = mem_Update rv (rw_reader s) in (r, (m, (s\<lparr>rw_reader := c\<rparr>, rv)))))
      in if rw_writeSemaphore s \<noteq> None then async_Update call else instr_Update call)"

definition metered_rw_Create :: "Revision \<Rightarrow> rw_store \<Rightarrow> (Revision, rw_store \<times> Revision) metered" where
  "metered_rw_Create rv s =
     (let call = (\<lambda>m. case metered_ns_Create rv (rw_storer s) m of (res, (m, (st, rv))) \<Rightarrow>
        on_ok (res, (m, (s\<lparr>rw_storer := st\<rparr>, rv))) (\<lambda>_ (m, (s, rv)).
          let (r, c) = mem_Create rv (rw_reader s) in (r, (m, (s\<lparr>rw_reader := c\<rparr>, rv)))))
      in if rw_writeSemaphore s \<noteq> None then async_Create call else instr_Create call)"

definition metered_rw_Delete :: "Revision \<Rightarrow> rw_store \<Rightarrow> (unit, rw_store \<times> Revision) metered" where
  "metered_rw_Delete rv s =
     (let call = (\<lambda>m. case metered_ns_Delete rv (rw_storer s) m of (res, (m, (st, rv))) \<Rightarrow>
        on_ok (res, (m, (s\<lparr>rw_storer := st\<rparr>, rv))) (\<lambda>_ (m, (s, rv)).
          let (r, c) = mem_Delete rv (rw_reader s) in (r, (m, (s\<lparr>rw_reader := c\<rparr>, rv)))))
      in if rw_writeSemaphore s \<noteq> None then async_Delete call else instr_Delete call)"

definition metered_rw_Get :: "Revision \<Rightarrow> rw_store \<Rightarrow> (Revision option, rw_store) metered" where
  "metered_rw_Get rv s =
     (let call = unmetered (result_bind (rw_Get rv s) (\<lambda>r. Ok (Some r)), s)
      in if rw_writeSemaphore s \<noteq> None then async_Get call else instr_Get call)"

definition metered_rw_List ::
    "string \<Rightarrow> string \<Rightarrow> string \<Rightarrow> string \<Rightarrow> rw_store \<Rightarrow> (Revision list, rw_store) metered" where
  "metered_rw_List ns apiVersion kind nm s =
     (let call = unmetered (rw_List ns apiVersion kind nm s, s)
      in if rw_writeSemaphore s \<noteq> None then async_List call else instr_List call)"

text \<open>The purger of a store is always wrapped, by \<open>New\<close>; the getter's is not.\<close>

definition metered_PurgeRevision :: "Revision \<Rightarrow> store \<Rightarrow> (unit, store) metered" where
  "metered_PurgeRevision rv s = instr_PurgeRevision (unmetered (PurgeRevision rv s))"

definition metered_PurgeRevisions ::
    "Revision list \<Rightarrow> store \<Rightarrow> (Revision list \<times> error option, store) metered" where
  "metered_PurgeRevisions revs s = instr_PurgeRevisions (unmetered (PurgeRevisions revs s))"

definition metered_rw_PurgeRevision :: "Revision \<Rightarrow> rw_store \<Rightarrow> (unit, rw_store) metered" where
  "metered_rw_PurgeRevision rv s m =
     (case metered_PurgeRevision rv (rw_storer s) m of (r, (m, st)) \<Rightarrow>
      on_ok (r, (m, s\<lparr>rw_storer := st\<rparr>)) (\<lambda>_ (m, s).
        let (r, c) = mem_PurgeRevision rv (rw_reader s) in (r, (m, s\<lparr>rw_reader := c\<rparr>))))"

definition metered_rw_PurgeRevisions ::
    "Revision list \<Rightarrow> rw_store \<Rightarrow> (Revision list \<times> error option, rw_store) metered" where
  "metered_rw_PurgeRevisions revs s m =
     (case metered_PurgeRevisions revs (rw_storer s) m of (r, (m, st)) \<Rightarrow>
      on_ok (r, (m, s\<lparr>rw_storer := st\<rparr>)) (\<lambda>(deletedFromStore, writerErr) (m, s).
        let (r, c) = mem_PurgeRevisions deletedFromStore (rw_reader s) in
        on_ok (r, (m, s\<lparr>rw_reader := c\<rparr>)) (\<lambda>(revsDeleted, _) (m, s). (Ok (revsDeleted, writerErr), (m, s)))))"

text \<open>The calls of the interface \<open>Storer\<close>, with the state of theory Storer.\<close>

definition in_storer :: "('s \<Rightarrow> storer) \<Rightarrow> ('a, 's \<times> Revision) metered \<Rightarrow> ('a, storer \<times> Revision) metered" where
  "in_storer f call m = (case call m of (r, (m, (s, rv))) \<Rightarrow> (r, (m, (f s, rv))))"

definition in_storer0 :: "('s \<Rightarrow> storer) \<Rightarrow> ('a, 's) metered \<Rightarrow> ('a, storer) metered" where
  "in_storer0 f call m = (case call m of (r, (m, s)) \<Rightarrow> (r, (m, f s)))"

definition metered_Update :: "Revision \<Rightarrow> storer \<Rightarrow> (Revision, storer \<times> Revision) metered" where
  "metered_Update rv st = (case st of
     Plain s \<Rightarrow> in_storer Plain (metered_ns_Update rv s)
   | ReadWrite s \<Rightarrow> in_storer ReadWrite (metered_rw_Update rv s))"

definition metered_Create :: "Revision \<Rightarrow> storer \<Rightarrow> (Revision, storer \<times> Revision) metered" where
  "metered_Create rv st = (case st of
     Plain s \<Rightarrow> in_storer Plain (metered_ns_Create rv s)
   | ReadWrite s \<Rightarrow> in_storer ReadWrite (metered_rw_Create rv s))"

definition metered_Delete :: "Revision \<Rightarrow> storer \<Rightarrow> (unit, storer \<times> Revision) metered" where
  "metered_Delete rv st = (case st of
     Plain s \<Rightarrow> in_storer Plain (metered_ns_Delete rv s)
   | ReadWrite s \<Rightarrow> in_storer ReadWrite (metered_rw_Delete rv s))"

definition metered_Get :: "Revision \<Rightarrow> storer \<Rightarrow> (Revision option, storer) metered" where
  "metered_Get rv st = (case st of
     Plain s \<Rightarrow> in_storer0 Plain (metered_ns_Get rv s)
   | ReadWrite s \<Rightarrow> in_storer0 ReadWrite (metered_rw_Get rv s))"

definition metered_List ::
    "string \<Rightarrow> string \<Rightarrow> string \<Rightarrow> string \<Rightarrow> storer \<Rightarrow> (Revision list, storer) metered" where
  "metered_List ns apiVersion kind nm st = (case st of
     Plain s \<Rightarrow> in_storer0 Plain (metered_ns_List ns apiVersion kind nm s)
   | ReadWrite s \<Rightarrow> in_storer0 ReadWrite (metered_rw_List ns apiVersion kind nm s))"

definition metered_storer_PurgeRevision :: "Revision \<Rightarrow> storer \<Rightarrow> (unit, storer) metered" where
  "metered_storer_PurgeRevision rv st = (case st of
     Plain s \<Rightarrow> in_storer0 Plain (metered_PurgeRevision rv s)
   | ReadWrite s \<Rightarrow> in_storer0 ReadWrite (metered_rw_PurgeRevision rv s))"

definition metered_storer_PurgeRevisions ::
    "Revision list \<Rightarrow> storer \<Rightarrow> (Revision list \<times> error option, storer) metered" where
  "metered_storer_PurgeRevisions revs st = (case st of
     Plain s \<Rightarrow> in_storer0 Plain (metered_PurgeRevisions revs s)
   | ReadWrite s \<Rightarrow> in_storer0 ReadWrite (metered_rw_PurgeRevisions revs s))"

section \<open>The wrappers change nothing\<close>

text \<open>\<open>meters f c\<close>: whatever the metrics, the metered call ends as \<open>c\<close> and leaves its state.\<close>

definition meters :: "('a, 't) metered \<Rightarrow> 'a result \<times> 't \<Rightarrow> bool" where
  "meters f c \<longleftrightarrow> (\<forall>m. \<exists>m'. f m = (fst c, (m', snd c)))"

named_theorems metered \<open>transparent metered calls\<close>

lemma metersE:
  assumes "meters f c"
  obtains m' where "f m = (fst c, (m', snd c))"
  using assms by (auto simp: meters_def)

lemma meters_unmetered [metered]: "meters (unmetered c) c"
  by (simp add: meters_def unmetered_def)

lemma meters_timed [metered]: "meters f c \<Longrightarrow> meters (timed inc obs f) c"
  unfolding meters_def
proof
  fix m assume f: "\<forall>m. \<exists>m'. f m = (fst c, (m', snd c))"
  let ?m = "(inc m)\<lparr>mt_ticks := Suc (mt_ticks (inc m))\<rparr>"
  from f obtain m' where "f ?m = (fst c, (m', snd c))" by blast
  then show "\<exists>m'. timed inc obs f m = (fst c, (m', snd c))"
    by (cases "fst c") (simp_all add: timed_def Let_def)
qed

lemmas instr_defs = instr_Create_def instr_Update_def instr_Delete_def instr_Get_def instr_List_def
  instr_PurgeRevision_def instr_PurgeRevisions_def async_Create_def async_Update_def async_Delete_def
  async_Get_def async_List_def async_AsyncCreate_def async_AsyncUpdate_def async_AsyncDelete_def

lemma meters_ns [metered]:
  "meters (metered_ns_Update rv s) (ns_Update rv s)" "meters (metered_ns_Create rv s) (ns_Create rv s)"
  "meters (metered_ns_Delete rv s) (ns_Delete rv s)" "meters (metered_ns_Get rv s) (ns_Get rv s)"
  "meters (metered_ns_List ns a k n s) (ns_List ns a k n s, s)"
  by (simp_all add: metered_ns_Update_def metered_ns_Create_def metered_ns_Delete_def metered_ns_Get_def
      metered_ns_List_def instr_defs metered)

lemma meters_purge [metered]:
  "meters (metered_PurgeRevision rv s) (PurgeRevision rv s)"
  "meters (metered_PurgeRevisions revs s) (PurgeRevisions revs s)"
  by (simp_all add: metered_PurgeRevision_def metered_PurgeRevisions_def instr_defs metered)

text \<open>A second call on the state of the first.\<close>

lemma meters_bind:
  assumes "meters f c" "\<And>m. g (fst c, (m, snd c)) = (fst c', (m, snd c'))"
  shows "meters (\<lambda>m. g (f m)) c'"
  using assms unfolding meters_def by metis

lemma meters_rw [metered]:
  "meters (metered_rw_Update rv s) (rw_Update rv s)" "meters (metered_rw_Create rv s) (rw_Create rv s)"
  "meters (metered_rw_Delete rv s) (rw_Delete rv s)"
  "meters (metered_rw_Get rv s) (result_bind (rw_Get rv s) (\<lambda>r. Ok (Some r)), s)"
  "meters (metered_rw_List ns a k n s) (rw_List ns a k n s, s)"
proof -
  show "meters (metered_rw_Update rv s) (rw_Update rv s)"
  proof -
    obtain r st rv' where c: "ns_Update rv (rw_storer s) = (r, (st, rv'))" by (metis surj_pair)
    have "meters (\<lambda>m. case metered_ns_Update rv (rw_storer s) m of (res, (m, (st, rv))) \<Rightarrow>
        on_ok (res, (m, (s\<lparr>rw_storer := st\<rparr>, rv))) (\<lambda>_ (m, (s, rv)).
          let (r, c) = mem_Update rv (rw_reader s) in (r, (m, (s\<lparr>rw_reader := c\<rparr>, rv))))) (rw_Update rv s)"
      by (rule meters_bind [OF meters_ns(1)], cases r) (simp_all add: c rw_Update_def split_beta Let_def)
    then show ?thesis by (simp add: metered_rw_Update_def instr_defs Let_def meters_timed)
  qed
  show "meters (metered_rw_Create rv s) (rw_Create rv s)"
  proof -
    obtain r st rv' where c: "ns_Create rv (rw_storer s) = (r, (st, rv'))" by (metis surj_pair)
    have "meters (\<lambda>m. case metered_ns_Create rv (rw_storer s) m of (res, (m, (st, rv))) \<Rightarrow>
        on_ok (res, (m, (s\<lparr>rw_storer := st\<rparr>, rv))) (\<lambda>_ (m, (s, rv)).
          let (r, c) = mem_Create rv (rw_reader s) in (r, (m, (s\<lparr>rw_reader := c\<rparr>, rv))))) (rw_Create rv s)"
      by (rule meters_bind [OF meters_ns(2)], cases r) (simp_all add: c rw_Create_def split_beta Let_def)
    then show ?thesis by (simp add: metered_rw_Create_def instr_defs Let_def meters_timed)
  qed
  show "meters (metered_rw_Delete rv s) (rw_Delete rv s)"
  proof -
    obtain r st rv' where c: "ns_Delete rv (rw_storer s) = (r, (st, rv'))" by (metis surj_pair)
    have "meters (\<lambda>m. case metered_ns_Delete rv (rw_storer s) m of (res, (m, (st, rv))) \<Rightarrow>
        on_ok (res, (m, (s\<lparr>rw_storer := st\<rparr>, rv))) (\<lambda>_ (m, (s, rv)).
          let (r, c) = mem_Delete rv (rw_reader s) in (r, (m, (s\<lparr>rw_reader := c\<rparr>, rv))))) (rw_Delete rv s)"
      by (rule meters_bind [OF meters_ns(3)], cases r) (simp_all add: c rw_Delete_def split_beta Let_def)
    then show ?thesis by (simp add: metered_rw_Delete_def instr_defs Let_def meters_timed)
  qed
qed (simp_all add: metered_rw_Get_def metered_rw_List_def instr_defs Let_def metered)

lemma meters_rw_purge [metered]:
  "meters (metered_rw_PurgeRevision rv s) (rw_PurgeRevision rv s)"
  "meters (metered_rw_PurgeRevisions revs s) (rw_PurgeRevisions revs s)"
proof -
  obtain r st where c: "PurgeRevision rv (rw_storer s) = (r, st)" by fastforce
  show "meters (metered_rw_PurgeRevision rv s) (rw_PurgeRevision rv s)"
    unfolding metered_rw_PurgeRevision_def [abs_def]
    by (rule meters_bind [OF meters_purge(1)], cases r) (simp_all add: c rw_PurgeRevision_def split_beta Let_def)
  obtain r st where c: "PurgeRevisions revs (rw_storer s) = (r, st)" by fastforce
  show "meters (metered_rw_PurgeRevisions revs s) (rw_PurgeRevisions revs s)"
    unfolding metered_rw_PurgeRevisions_def [abs_def]
    by (rule meters_bind [OF meters_purge(2)], cases r)
      (simp_all add: c rw_PurgeRevisions_def split_beta Let_def mem_PurgeRevisions_def)
qed

lemma meters_in_storer:
  "meters call c \<Longrightarrow> meters (in_storer f call) (case c of (r, (s, rv)) \<Rightarrow> (r, (f s, rv)))"
  "meters call0 c0 \<Longrightarrow> meters (in_storer0 f call0) (case c0 of (r, s) \<Rightarrow> (r, f s))"
  unfolding meters_def in_storer_def [abs_def] in_storer0_def [abs_def]
  by (auto split: prod.splits) (metis prod.inject)+

lemma meters_storer:
  "meters (metered_Update rv st) (storer_Update rv st)"
  "meters (metered_Create rv st) (storer_Create rv st)"
  "meters (metered_Delete rv st) (storer_Delete rv st)"
  "meters (metered_Get rv st) (storer_Get rv st)"
  "meters (metered_List ns a k n st) (storer_List ns a k n st, st)"
  "meters (metered_storer_PurgeRevision rv st) (storer_PurgeRevision rv st)"
  "meters (metered_storer_PurgeRevisions revs st) (storer_PurgeRevisions revs st)"
proof -
  note defs = metered_Update_def metered_Create_def metered_Delete_def
      metered_Get_def metered_List_def metered_storer_PurgeRevision_def metered_storer_PurgeRevisions_def
      storer_Update_def storer_Create_def storer_Delete_def storer_Get_def storer_List_def
      storer_PurgeRevision_def storer_PurgeRevisions_def
  show "meters (metered_Update rv st) (storer_Update rv st)"
    "meters (metered_Create rv st) (storer_Create rv st)"
    "meters (metered_Delete rv st) (storer_Delete rv st)"
    using meters_ns(1-3) [THEN meters_in_storer(1), where f = Plain]
      meters_rw(1-3) [THEN meters_in_storer(1), where f = ReadWrite]
    by (simp_all add: defs Let_def split: storer.split)
  show "meters (metered_Get rv st) (storer_Get rv st)"
    "meters (metered_List ns a k n st) (storer_List ns a k n st, st)"
    using meters_ns(4,5) [THEN meters_in_storer(2), where f = Plain]
      meters_rw(4,5) [THEN meters_in_storer(2), where f = ReadWrite]
    by (simp_all add: defs Let_def split: storer.split)
  show "meters (metered_storer_PurgeRevision rv st) (storer_PurgeRevision rv st)"
    "meters (metered_storer_PurgeRevisions revs st) (storer_PurgeRevisions revs st)"
    using meters_purge [THEN meters_in_storer(2), where f = Plain]
      meters_rw_purge [THEN meters_in_storer(2), where f = ReadWrite]
    by (simp_all add: defs Let_def split: storer.split)
qed

section \<open>What is counted\<close>

text \<open>\<open>counts f g c d l\<close>: the call adds these to the counters of reads, creates, deletes and lists.\<close>

definition counts :: "('a, 't) metered \<Rightarrow> nat \<Rightarrow> nat \<Rightarrow> nat \<Rightarrow> nat \<Rightarrow> bool" where
  "counts f g c d l \<longleftrightarrow> (\<forall>m. let m' = fst (snd (f m)) in
     getCounter m' = getCounter m + g \<and> createCounter m' = createCounter m + c
     \<and> deleteCounter m' = deleteCounter m + d \<and> listCounter m' = listCounter m + l)"

named_theorems counted \<open>what metered calls count\<close>

lemma counts_unmetered [counted]: "counts (unmetered x) 0 0 0 0"
  by (simp add: counts_def unmetered_def)

lemma timed_counters:
  assumes "\<And>d m. getCounter (obs d m) = getCounter m \<and> createCounter (obs d m) = createCounter m
      \<and> deleteCounter (obs d m) = deleteCounter m \<and> listCounter (obs d m) = listCounter m"
    and "counts f g c d l"
    and "\<And>m. getCounter (inc m) = getCounter m + g' \<and> createCounter (inc m) = createCounter m + c'
      \<and> deleteCounter (inc m) = deleteCounter m + d' \<and> listCounter (inc m) = listCounter m + l'"
  shows "counts (timed inc obs f) (g + g') (c + c') (d + d') (l + l')"
  unfolding counts_def Let_def
proof
  fix m
  let ?m = "(inc m)\<lparr>mt_ticks := Suc (mt_ticks (inc m))\<rparr>"
  obtain r m1 t where f: "f ?m = (r, (m1, t))" by (metis surj_pair)
  have "getCounter m1 = getCounter ?m + g \<and> createCounter m1 = createCounter ?m + c
      \<and> deleteCounter m1 = deleteCounter ?m + d \<and> listCounter m1 = listCounter ?m + l"
    using assms(2) f unfolding counts_def Let_def by (metis fst_conv snd_conv)
  then show "getCounter (fst (snd (timed inc obs f m))) = getCounter m + (g + g')
      \<and> createCounter (fst (snd (timed inc obs f m))) = createCounter m + (c + c')
      \<and> deleteCounter (fst (snd (timed inc obs f m))) = deleteCounter m + (d + d')
      \<and> listCounter (fst (snd (timed inc obs f m))) = listCounter m + (l + l')"
    using f assms(1,3) by (cases r) (simp_all add: timed_def Let_def)
qed

lemma counts_timed [counted]:
  "counts f g c d l \<Longrightarrow> counts (timed inc_create obs_create f) g (Suc c) d l"
  "counts f g c d l \<Longrightarrow> counts (timed inc_delete obs_create f) g c (Suc d) l"
  "counts f g c d l \<Longrightarrow> counts (timed inc_delete obs_delete f) g c (Suc d) l"
  "counts f g c d l \<Longrightarrow> counts (timed inc_get obs_get f) (Suc g) c d l"
  "counts f g c d l \<Longrightarrow> counts (timed inc_list obs_list f) g c d (Suc l)"
  using timed_counters [where inc = inc_create and obs = obs_create and f = f and g' = 0 and c' = 1 and d' = 0 and l' = 0]
    timed_counters [where inc = inc_delete and obs = obs_create and f = f and g' = 0 and c' = 0 and d' = 1 and l' = 0]
    timed_counters [where inc = inc_delete and obs = obs_delete and f = f and g' = 0 and c' = 0 and d' = 1 and l' = 0]
    timed_counters [where inc = inc_get and obs = obs_get and f = f and g' = 1 and c' = 0 and d' = 0 and l' = 0]
    timed_counters [where inc = inc_list and obs = obs_list and f = f and g' = 0 and c' = 0 and d' = 0 and l' = 1]
  by simp_all

lemma counts_once:
  "counts (timed inc_create obs_create (unmetered x)) 0 (Suc 0) 0 0"
  "counts (timed inc_delete obs_create (unmetered x)) 0 0 (Suc 0) 0"
  "counts (timed inc_delete obs_delete (unmetered x)) 0 0 (Suc 0) 0"
  "counts (timed inc_get obs_get (unmetered x)) (Suc 0) 0 0 0"
  "counts (timed inc_list obs_list (unmetered x)) 0 0 0 (Suc 0)"
  by (rule counts_timed [OF counts_unmetered])+

text \<open>A second call that keeps the metrics.\<close>

lemma counts_bind:
  assumes "counts f g c d l" "\<And>r m t. fst (snd (h (r, (m, t)))) = m"
  shows "counts (\<lambda>m. h (f m)) g c d l"
  using assms unfolding counts_def Let_def by (metis prod.collapse)

lemma counts_ns [counted]:
  "counts (metered_ns_Update rv s) 0 1 0 0" "counts (metered_ns_Create rv s) 0 1 0 0"
  "counts (metered_ns_Delete rv s) 0 0 1 0" "counts (metered_ns_Get rv s) 1 0 0 0"
  "counts (metered_ns_List ns a k n s) 0 0 0 1"
  "counts (metered_PurgeRevision rv s) 0 0 1 0" "counts (metered_PurgeRevisions revs s) 0 0 1 0"
  by (simp_all add: metered_ns_Update_def metered_ns_Create_def metered_ns_Delete_def metered_ns_Get_def
      metered_ns_List_def metered_PurgeRevision_def metered_PurgeRevisions_def instr_defs counts_once)

lemma on_ok_metrics: "(\<And>a t. fst (snd (f a (m, t))) = m) \<Longrightarrow> fst (snd (on_ok (r, (m, t)) f)) = m"
  by (cases r) simp_all

lemma counts_rw [counted]:
  "counts (metered_rw_Update rv s) 0 2 0 0" "counts (metered_rw_Create rv s) 0 2 0 0"
  "counts (metered_rw_Delete rv s) 0 0 2 0" "counts (metered_rw_Get rv s) 1 0 0 0"
  "counts (metered_rw_List ns a k n s) 0 0 0 1"
  "counts (metered_rw_PurgeRevision rv s) 0 0 1 0" "counts (metered_rw_PurgeRevisions revs s) 0 0 1 0"
proof -
  have "counts (\<lambda>m. case metered_ns_Update rv (rw_storer s) m of (res, (m, (st, rv))) \<Rightarrow>
        on_ok (res, (m, (s\<lparr>rw_storer := st\<rparr>, rv))) (\<lambda>_ (m, (s, rv)).
          let (r, c) = mem_Update rv (rw_reader s) in (r, (m, (s\<lparr>rw_reader := c\<rparr>, rv))))) 0 1 0 0"
    by (rule counts_bind [OF counts_ns(1)]) (auto simp: split_beta Let_def intro!: on_ok_metrics)
  then show "counts (metered_rw_Update rv s) 0 2 0 0"
    by (simp add: metered_rw_Update_def instr_defs Let_def counts_timed numeral_2_eq_2)
  have "counts (\<lambda>m. case metered_ns_Create rv (rw_storer s) m of (res, (m, (st, rv))) \<Rightarrow>
        on_ok (res, (m, (s\<lparr>rw_storer := st\<rparr>, rv))) (\<lambda>_ (m, (s, rv)).
          let (r, c) = mem_Create rv (rw_reader s) in (r, (m, (s\<lparr>rw_reader := c\<rparr>, rv))))) 0 1 0 0"
    by (rule counts_bind [OF counts_ns(2)]) (auto simp: split_beta Let_def intro!: on_ok_metrics)
  then show "counts (metered_rw_Create rv s) 0 2 0 0"
    by (simp add: metered_rw_Create_def instr_defs Let_def counts_timed numeral_2_eq_2)
  have "counts (\<lambda>m. case metered_ns_Delete rv (rw_storer s) m of (res, (m, (st, rv))) \<Rightarrow>
        on_ok (res, (m, (s\<lparr>rw_storer := st\<rparr>, rv))) (\<lambda>_ (m, (s, rv)).
          let (r, c) = mem_Delete rv (rw_reader s) in (r, (m, (s\<lparr>rw_reader := c\<rparr>, rv))))) 0 0 1 0"
    by (rule counts_bind [OF counts_ns(3)]) (auto simp: split_beta Let_def intro!: on_ok_metrics)
  then show "counts (metered_rw_Delete rv s) 0 0 2 0"
    by (simp add: metered_rw_Delete_def instr_defs Let_def counts_timed numeral_2_eq_2)
  show "counts (metered_rw_PurgeRevision rv s) 0 0 1 0"
    unfolding metered_rw_PurgeRevision_def [abs_def]
    by (rule counts_bind [OF counts_ns(6)]) (auto simp: split_beta Let_def intro!: on_ok_metrics)
  show "counts (metered_rw_PurgeRevisions revs s) 0 0 1 0"
    unfolding metered_rw_PurgeRevisions_def [abs_def]
    by (rule counts_bind [OF counts_ns(7)]) (auto simp: split_beta Let_def intro!: on_ok_metrics)
qed (simp_all add: metered_rw_Get_def metered_rw_List_def instr_defs Let_def counts_once)

lemma counts_in_storer:
  "counts call g c d l \<Longrightarrow> counts (in_storer f call) g c d l"
  "counts call0 g c d l \<Longrightarrow> counts (in_storer0 f' call0) g c d l"
  unfolding counts_def in_storer_def [abs_def] in_storer0_def [abs_def] by (simp_all add: split_beta)

text \<open>A write counts once for each store it passes.\<close>

primrec write_layers :: "storer \<Rightarrow> nat" where
  "write_layers (Plain s) = 1"
| "write_layers (ReadWrite s) = 2"

lemma counts_storer:
  "counts (metered_Update rv st) 0 (write_layers st) 0 0"
  "counts (metered_Create rv st) 0 (write_layers st) 0 0"
  "counts (metered_Delete rv st) 0 0 (write_layers st) 0"
  "counts (metered_Get rv st) 1 0 0 0" "counts (metered_List ns a k n st) 0 0 0 1"
  "counts (metered_storer_PurgeRevision rv st) 0 0 1 0" "counts (metered_storer_PurgeRevisions revs st) 0 0 1 0"
  using counts_ns counts_rw
  by (cases st; simp add: metered_Update_def metered_Create_def metered_Delete_def metered_Get_def metered_List_def
      metered_storer_PurgeRevision_def metered_storer_PurgeRevisions_def counts_in_storer)+

section \<open>The instrumented backend\<close>

record backend_metrics =
  bm_deleteLatency :: "int list"
  bm_readDirLatency :: "int list"
  bm_walkLatency :: "int list"
  bm_clock :: "nat \<Rightarrow> gotime"
  bm_ticks :: nat

definition bm_timed :: "(int \<Rightarrow> backend_metrics \<Rightarrow> backend_metrics) \<Rightarrow> backend_metrics \<Rightarrow> backend_metrics" where
  "bm_timed observe m =
     observe (bm_clock m (Suc (bm_ticks m)) - bm_clock m (bm_ticks m))
       (m\<lparr>bm_ticks := Suc (Suc (bm_ticks m))\<rparr>)"

definition instr_Remove :: "Backend \<Rightarrow> string \<Rightarrow> backend_metrics
    \<Rightarrow> unit result \<times> (Backend \<times> backend_metrics)" where
  "instr_Remove b key m = (case Backend_Remove b key of (r, b) \<Rightarrow>
     (r, (b, bm_timed (\<lambda>d m. m\<lparr>bm_deleteLatency := bm_deleteLatency m @ [d]\<rparr>) m)))"

definition instr_ReadDir :: "Backend \<Rightarrow> string \<Rightarrow> backend_metrics
    \<Rightarrow> list_object list result \<times> backend_metrics" where
  "instr_ReadDir b path m = (Backend_ReadDir b path,
     bm_timed (\<lambda>d m. m\<lparr>bm_readDirLatency := bm_readDirLatency m @ [d]\<rparr>) m)"

text \<open>A panic of the callback leaves before the walk is observed.\<close>

definition instr_Walk :: "Backend \<Rightarrow> string \<Rightarrow> (string \<Rightarrow> list_object \<Rightarrow> 's \<Rightarrow> unit result \<times> 's) \<Rightarrow> 's
    \<Rightarrow> backend_metrics \<Rightarrow> unit result \<times> ('s \<times> backend_metrics)" where
  "instr_Walk b dir walkFn s m = (case Backend_Walk b dir walkFn s of
     (Crash c, s) \<Rightarrow> (Crash c, (s, m\<lparr>bm_ticks := Suc (bm_ticks m)\<rparr>))
   | (r, s) \<Rightarrow> (r, (s, bm_timed (\<lambda>d m. m\<lparr>bm_walkLatency := bm_walkLatency m @ [d]\<rparr>) m)))"

definition instr_RemoveAll :: "Backend \<Rightarrow> string list \<Rightarrow> backend_metrics
    \<Rightarrow> (string list \<times> error option) \<times> (Backend \<times> backend_metrics)" where
  "instr_RemoveAll b keys m = (case Backend_RemoveAll b keys of (r, b) \<Rightarrow>
     (r, (b, bm_timed (\<lambda>d m. m\<lparr>bm_deleteLatency := bm_deleteLatency m @ [d]\<rparr>) m)))"

text \<open>
  The dynamic type of a backend value, as far as the type assertions see it: whether it has
  \<open>RemoveAll\<close>.  The wrapper of a bulk remover is one, around the wrapper of its other methods.
\<close>

datatype backend_value =
    RawBackend Backend bool
  | InstrumentedBackend backend_value
  | BulkRemovingInstrumentedBackend backend_value

primrec is_BulkRemovingBackend :: "backend_value \<Rightarrow> bool" where
  "is_BulkRemovingBackend (RawBackend b bulk) = bulk"
| "is_BulkRemovingBackend (InstrumentedBackend v) = False"
| "is_BulkRemovingBackend (BulkRemovingInstrumentedBackend v) = True"

definition newInstrumentedBulkRemovingBackend :: "backend_value \<Rightarrow> backend_value" where
  "newInstrumentedBulkRemovingBackend br = BulkRemovingInstrumentedBackend (InstrumentedBackend br)"

definition NewInstrumentedBackend :: "backend_value \<Rightarrow> backend_value" where
  "NewInstrumentedBackend b =
     (if is_BulkRemovingBackend b then newInstrumentedBulkRemovingBackend b else InstrumentedBackend b)"

lemma NewInstrumentedBackend_bulk: "is_BulkRemovingBackend (NewInstrumentedBackend b) = is_BulkRemovingBackend b"
  by (simp add: NewInstrumentedBackend_def newInstrumentedBulkRemovingBackend_def)

section \<open>The metrics of the work queues\<close>

text \<open>
  The registry is the list of the names registered; \<open>MustRegister\<close> panics on a name that is
  already there.  The provider's methods are called by the constructor of a work queue.
\<close>

type_synonym registry = "string list"

definition MustRegister :: "string \<Rightarrow> registry \<Rightarrow> registry result" where
  "MustRegister n reg =
     (if n \<in> set reg then Crash (Panic ''duplicate metrics collector registration attempted'')
      else Ok (n # reg))"

datatype queue_metric =
    DepthMetric
  | AddsMetric
  | DeprecatedAddsMetric
  | DeprecatedDepthMetric
  | DeprecatedLatencyMetric
  | DeprecatedLongestRunningProcessorMetric
  | DeprecatedLongestRunningProcessorMicrosecondsMetric
  | DeprecatedRetriesMetric
  | DeprecatedUnfinishedWorkSecondsMetric
  | DeprecatedWorkDurationMetric
  | LatencyMetric
  | LongestRunningProcessorSecondsMetric
  | UnfinishedWorkSecondsMetric
  | WorkDurationMetric
  | RetriesMetric

text \<open>The name of the metric a method registers; the deprecated ones register nothing.\<close>

primrec metric_prefix :: "queue_metric \<Rightarrow> string option" where
  "metric_prefix DepthMetric = Some ''workqueue_depth_''"
| "metric_prefix AddsMetric = Some ''workqueue_adds_''"
| "metric_prefix DeprecatedAddsMetric = None"
| "metric_prefix DeprecatedDepthMetric = None"
| "metric_prefix DeprecatedLatencyMetric = None"
| "metric_prefix DeprecatedLongestRunningProcessorMetric = None"
| "metric_prefix DeprecatedLongestRunningProcessorMicrosecondsMetric = None"
| "metric_prefix DeprecatedRetriesMetric = None"
| "metric_prefix DeprecatedUnfinishedWorkSecondsMetric = None"
| "metric_prefix DeprecatedWorkDurationMetric = None"
| "metric_prefix LatencyMetric = Some ''workqueue_latency_''"
| "metric_prefix LongestRunningProcessorSecondsMetric = Some ''longest_running_process_seconds_''"
| "metric_prefix UnfinishedWorkSecondsMetric = Some ''workqueue_unfinished_work_seconds_''"
| "metric_prefix WorkDurationMetric = Some ''workqueue_duration_''"
| "metric_prefix RetriesMetric = Some ''workqueue_retries_''"

text \<open>The full name of a metric: its namespace, subsystem and name.\<close>

definition BuildFQName :: "string \<Rightarrow> string \<Rightarrow> string \<Rightarrow> string" where
  "BuildFQName namespace subsystem nm = namespace @ ''_'' @ subsystem @ ''_'' @ nm"

definition metric_name :: "string \<Rightarrow> string \<Rightarrow> string" where
  "metric_name pre n = BuildFQName ''saiki'' ''controller'' (pre @ n)"

definition New_metric :: "queue_metric \<Rightarrow> string \<Rightarrow> registry \<Rightarrow> registry result" where
  "New_metric q n reg = (case metric_prefix q of
     None \<Rightarrow> Ok reg
   | Some pre \<Rightarrow> MustRegister (metric_name pre n) reg)"

text \<open>\<open>calls\<close> are the methods the library calls for a named queue.\<close>

fun NewNamedQueue :: "queue_metric list \<Rightarrow> string \<Rightarrow> registry \<Rightarrow> registry result" where
  "NewNamedQueue [] n reg = Ok reg"
| "NewNamedQueue (q # calls) n reg =
     result_bind (New_metric q n reg) (\<lambda>reg. NewNamedQueue calls n reg)"

text \<open>The queues of the clients that \<open>New\<close> watches, one after the other.\<close>

fun watch_queues :: "queue_metric list \<Rightarrow> Dynamic list \<Rightarrow> registry \<Rightarrow> registry result" where
  "watch_queues calls [] reg = Ok reg"
| "watch_queues calls (client # clients) reg =
     result_bind (NewNamedQueue calls (queue_name client) reg) (\<lambda>reg. watch_queues calls clients reg)"

lemma metric_name_inj:
  assumes "metric_prefix q = Some p" "metric_prefix q' = Some p'" "metric_name p n = metric_name p' n'"
  shows "q = q' \<and> n = n'"
  using assms by (cases q; cases q') (auto simp: metric_name_def BuildFQName_def)

definition registered :: "queue_metric list \<Rightarrow> string \<Rightarrow> string set" where
  "registered calls n = {metric_name p n | q p. q \<in> set calls \<and> metric_prefix q = Some p}"

lemma registered_Cons:
  "registered (q # calls) n = (case metric_prefix q of None \<Rightarrow> {} | Some p \<Rightarrow> {metric_name p n})
     \<union> registered calls n"
  by (auto simp: registered_def split: option.splits)

lemma registered_other:
  assumes "n \<noteq> n'"
  shows "registered calls n \<inter> registered calls n' = {}"
proof (rule ccontr)
  assume "registered calls n \<inter> registered calls n' \<noteq> {}"
  then obtain q p q' p' where "metric_prefix q = Some p" "metric_prefix q' = Some p'"
    "metric_name p n = metric_name p' n'" unfolding registered_def by blast
  then show False using metric_name_inj assms by blast
qed

lemma NewNamedQueue_result:
  assumes "distinct calls"
  shows "(registered calls n \<inter> set reg = {} \<longrightarrow>
       (\<exists>reg'. NewNamedQueue calls n reg = Ok reg' \<and> set reg' = registered calls n \<union> set reg))
     \<and> (registered calls n \<inter> set reg \<noteq> {} \<longrightarrow> (\<exists>c. NewNamedQueue calls n reg = Crash c))"
  using assms
proof (induction calls arbitrary: reg)
  case Nil
  then show ?case by (simp add: registered_def)
next
  case (Cons q calls)
  show ?case
  proof (cases "metric_prefix q")
    case None
    then show ?thesis using Cons by (simp add: New_metric_def registered_Cons)
  next
    case (Some p)
    have fresh: "metric_name p n \<notin> registered calls n"
      using Cons.prems metric_name_inj [OF Some] by (auto simp: registered_def)
    show ?thesis
    proof (cases "metric_name p n \<in> set reg")
      case True
      then show ?thesis using Some by (simp add: New_metric_def MustRegister_def registered_Cons)
    next
      case False
      then have "New_metric q n reg = Ok (metric_name p n # reg)"
        using Some by (simp add: New_metric_def MustRegister_def)
      then have eq: "NewNamedQueue (q # calls) n reg = NewNamedQueue calls n (metric_name p n # reg)" by simp
      have sets: "registered (q # calls) n \<inter> set reg = {} \<longleftrightarrow> registered calls n \<inter> set (metric_name p n # reg) = {}"
        "registered calls n \<union> set (metric_name p n # reg) = registered (q # calls) n \<union> set reg"
        using Some fresh False by (auto simp: registered_Cons)
      have "distinct calls" using Cons.prems by simp
      from Cons.IH [OF this, of "metric_name p n # reg"] show ?thesis unfolding eq sets .
    qed
  qed
qed

text \<open>The start gets past the work queues exactly when their names are all different.\<close>

lemma watch_queues_result:
  assumes "distinct calls" "\<exists>q \<in> set calls. metric_prefix q \<noteq> None"
    "\<forall>n \<in> queue_name ` set clients. registered calls n \<inter> set reg = {}"
  shows "(\<exists>reg'. watch_queues calls clients reg = Ok reg') \<longleftrightarrow> distinct (map queue_name clients)"
    and "\<not> distinct (map queue_name clients) \<Longrightarrow> \<exists>c. watch_queues calls clients reg = Crash c"
proof -
  have ne: "registered calls n \<noteq> {}" for n using assms(2) by (auto simp: registered_def)
  have "(distinct (map queue_name clients) \<and> (\<forall>n \<in> queue_name ` set clients. registered calls n \<inter> set reg = {})
        \<longrightarrow> (\<exists>reg'. watch_queues calls clients reg = Ok reg'))
      \<and> (\<not> (distinct (map queue_name clients) \<and> (\<forall>n \<in> queue_name ` set clients. registered calls n \<inter> set reg = {}))
        \<longrightarrow> (\<exists>c. watch_queues calls clients reg = Crash c))" for reg
  proof (induction clients arbitrary: reg)
    case (Cons c cs)
    let ?n = "queue_name c"
    show ?case
    proof (cases "registered calls ?n \<inter> set reg = {}")
      case False
      then show ?thesis using NewNamedQueue_result [OF assms(1), of ?n reg] by auto
    next
      case True
      then obtain reg' where r: "NewNamedQueue calls ?n reg = Ok reg'"
        "set reg' = registered calls ?n \<union> set reg"
        using NewNamedQueue_result [OF assms(1), of ?n reg] by blast
      have "(\<forall>n \<in> queue_name ` set cs. registered calls n \<inter> set reg' = {}) \<longleftrightarrow>
          ?n \<notin> queue_name ` set cs \<and> (\<forall>n \<in> queue_name ` set cs. registered calls n \<inter> set reg = {})"
      proof
        assume l: "\<forall>n \<in> queue_name ` set cs. registered calls n \<inter> set reg' = {}"
        then have "?n \<notin> queue_name ` set cs" using ne [of ?n] r(2) by blast
        then show "?n \<notin> queue_name ` set cs \<and> (\<forall>n \<in> queue_name ` set cs. registered calls n \<inter> set reg = {})"
          using l r(2) by blast
      next
        assume l: "?n \<notin> queue_name ` set cs \<and> (\<forall>n \<in> queue_name ` set cs. registered calls n \<inter> set reg = {})"
        show "\<forall>n \<in> queue_name ` set cs. registered calls n \<inter> set reg' = {}"
        proof
          fix n assume n: "n \<in> queue_name ` set cs"
          then have "n \<noteq> ?n" "registered calls n \<inter> set reg = {}" using l by blast+
          then show "registered calls n \<inter> set reg' = {}"
            using registered_other [of n ?n calls] by (simp add: r(2) Int_Un_distrib)
        qed
      qed
      note step = this
      have eq: "watch_queues calls (c # cs) reg = watch_queues calls cs reg'" using r(1) by simp
      have "(distinct (map queue_name (c # cs))
            \<and> (\<forall>n \<in> queue_name ` set (c # cs). registered calls n \<inter> set reg = {})) \<longleftrightarrow>
          (distinct (map queue_name cs) \<and> (\<forall>n \<in> queue_name ` set cs. registered calls n \<inter> set reg' = {}))"
        unfolding step list.map distinct.simps set_map list.set image_insert using True by blast
      then show ?thesis unfolding eq using Cons.IH [of reg'] by (simp only:)
    qed
  qed simp
  note res = this [of reg]
  show "\<exists>c. watch_queues calls clients reg = Crash c" if "\<not> distinct (map queue_name clients)"
    using res that by blast
  then show "(\<exists>reg'. watch_queues calls clients reg = Ok reg') \<longleftrightarrow> distinct (map queue_name clients)"
    using res assms(3) by (metis result.distinct(3))
qed

subsection \<open>The metrics registered when the process starts\<close>

fun MustRegister_all :: "string list \<Rightarrow> registry \<Rightarrow> registry result" where
  "MustRegister_all [] reg = Ok reg"
| "MustRegister_all (n # ns) reg = result_bind (MustRegister n reg) (MustRegister_all ns)"

definition store_init :: "registry \<Rightarrow> registry result" where
  "store_init = MustRegister_all (map (BuildFQName ''saiki'' ''store'')
     [''creates'', ''create_latency'', ''deletes'', ''delete_latency'', ''reads'', ''read_latency'',
      ''lists'', ''list_latency''])"

definition backend_init :: "registry \<Rightarrow> registry result" where
  "backend_init = MustRegister_all (map (BuildFQName ''saiki'' ''backend'')
     [''read_dir_latency'', ''walk_latency'', ''delete_latency''])"

definition flusher_init :: "registry \<Rightarrow> registry result" where
  "flusher_init = MustRegister_all (map (BuildFQName ''saiki'' ''flusher'')
     [''errors'', ''count'', ''last_flushed_resource_version''])"

definition purger_init :: "registry \<Rightarrow> registry result" where
  "purger_init = MustRegister_all (map (BuildFQName ''saiki'' ''purger'') [''errors'', ''count''])"

definition reaper_init :: "registry \<Rightarrow> registry result" where
  "reaper_init = MustRegister_all (map (BuildFQName ''saiki'' ''reaper'') [''errors'', ''count''])"

definition controller_init :: "registry \<Rightarrow> registry result" where
  "controller_init = MustRegister_all (map (BuildFQName ''saiki'' ''controller'')
     [''last_seen_resource_version'', ''last_processed_resource_version'', ''processing_errors''])"

text \<open>The \<open>init\<close> functions of the packages, imported packages first.\<close>

definition process_init :: "registry \<Rightarrow> registry result" where
  "process_init reg =
     result_bind (backend_init reg) (\<lambda>reg. result_bind (store_init reg) (\<lambda>reg.
     result_bind (flusher_init reg) (\<lambda>reg. result_bind (purger_init reg) (\<lambda>reg.
     result_bind (reaper_init reg) controller_init))))"

lemmas init_defs = process_init_def backend_init_def store_init_def flusher_init_def purger_init_def
  reaper_init_def controller_init_def BuildFQName_def MustRegister_def

lemma process_init_ok:
  obtains reg where "process_init [] = Ok reg" "\<forall>calls n. registered calls n \<inter> set reg = {}"
proof -
  let ?reg = "rev (map (BuildFQName ''saiki'' ''backend'') [''read_dir_latency'', ''walk_latency'', ''delete_latency'']
     @ map (BuildFQName ''saiki'' ''store'') [''creates'', ''create_latency'', ''deletes'', ''delete_latency'',
         ''reads'', ''read_latency'', ''lists'', ''list_latency'']
     @ map (BuildFQName ''saiki'' ''flusher'') [''errors'', ''count'', ''last_flushed_resource_version'']
     @ map (BuildFQName ''saiki'' ''purger'') [''errors'', ''count'']
     @ map (BuildFQName ''saiki'' ''reaper'') [''errors'', ''count'']
     @ map (BuildFQName ''saiki'' ''controller'')
        [''last_seen_resource_version'', ''last_processed_resource_version'', ''processing_errors''])"
  have "process_init [] = Ok ?reg" by (simp add: init_defs)
  moreover have "metric_name p n \<notin> set ?reg" if "metric_prefix q = Some p" for p q n
    using that by (cases q) (auto simp: metric_name_def BuildFQName_def)
  then have "\<forall>calls n. registered calls n \<inter> set ?reg = {}" unfolding registered_def by blast
  ultimately show ?thesis by (rule that)
qed

text \<open>From the start of the process: it gets past the work queues exactly when their names differ.\<close>

lemma start_queues:
  assumes "distinct calls" "\<exists>q \<in> set calls. metric_prefix q \<noteq> None"
  shows "if distinct (map queue_name clients)
    then \<exists>reg. result_bind (process_init []) (watch_queues calls clients) = Ok reg
    else \<exists>c. result_bind (process_init []) (watch_queues calls clients) = Crash c"
proof -
  obtain reg where r: "process_init [] = Ok reg" "\<forall>calls n. registered calls n \<inter> set reg = {}"
    by (rule process_init_ok)
  then have "\<forall>n \<in> queue_name ` set clients. registered calls n \<inter> set reg = {}" by blast
  from watch_queues_result [OF assms this] show ?thesis unfolding r(1) result_bind_simps if_bool_eq_conj by blast
qed

end
