(* ===== verification/Metrics_Props.thy ===== *)
theory Metrics_Props
  imports Metrics Samples
begin

text \<open>
  The properties of the metrics: the wrappers change nothing but the metrics, what a call counts,
  and when registering the metrics of the work queues ends the process.
\<close>


text \<open>A read counts once.  A write counts once on a plain store and twice on one with the cache,
  where the wrapped interface writes through another wrapped interface; a purge counts as one delete.\<close>

theorem writes_counted_per_layer:
  fixes st :: storer
  defines "layers \<equiv> (case st of Plain s \<Rightarrow> 1 | ReadWrite s \<Rightarrow> 2)"
  shows "counts (metered_Update rv st) 0 layers 0 0 \<and> counts (metered_Create rv st) 0 layers 0 0
   \<and> counts (metered_Delete rv st) 0 0 layers 0
   \<and> counts (metered_Get rv st) 1 0 0 0 \<and> counts (metered_List ns a k n st) 0 0 0 1
   \<and> counts (metered_storer_PurgeRevision rv st) 0 0 1 0
   \<and> counts (metered_storer_PurgeRevisions revs st) 0 0 1 0"
proof -
  have "layers = write_layers st" by (cases st) (simp_all add: layers_def)
  then show ?thesis by (simp only: counts_storer simp_thms)
qed

text \<open>C26: the registration of the metrics gets past the start of the process and the work queues of
  the watched clients when their queue names are all different, and panics otherwise.\<close>

theorem start_panics_on_queue_names:
  assumes "distinct calls" "DepthMetric \<in> set calls"
  shows "if distinct (map queue_name clients)
    then \<exists>reg. result_bind (process_init []) (watch_queues calls clients) = Ok reg
    else \<exists>c. result_bind (process_init []) (watch_queues calls clients) = Crash c"
  by (rule start_queues [OF assms(1)]) (use assms(2) in force)

text \<open>Two groups whose names differ in a dot.\<close>

definition clash_clients :: "Dynamic list" where
  "clash_clients = map (\<lambda>g. \<lparr>dyn_gv = \<lparr>gv_group = g, gv_version = ''v1''\<rparr>, dyn_resource = ''widgets'',
     dyn_kind = ''Widget'', dyn_namespace = []\<rparr>) [''a-b.io'', ''a.b.io'']"

theorem start_panics_on_queue_names_witness:
  "\<exists>c. result_bind (process_init []) (watch_queues [DepthMetric, AddsMetric] clash_clients) = Crash c"
proof -
  have "\<not> distinct (map queue_name clash_clients)"
    by (simp add: clash_clients_def queue_name_def replace_char_def)
  then show ?thesis using start_panics_on_queue_names [of "[DepthMetric, AddsMetric]" clash_clients] by auto
qed

end
