(* ===== verification/Export.thy ===== *)
theory Export
  imports Flusher Config_Store
begin

text \<open>
  The JSON that the command line exports: \<open>MarshalJSONWithContent\<close> of a list of revisions and of a
  state, and \<open>MarshalJSONOnlyContent\<close> of a state (pkg/store/revision.go and state.go).  \<open>enc\<close> is
  \<open>json.MarshalIndent\<close>; the text around the encoded values is written by the code itself.
\<close>

type_synonym indent_encoder = "string \<Rightarrow> string \<Rightarrow> json \<Rightarrow> string result"

abbreviation newline :: char where "newline \<equiv> CHR 0x0A"
abbreviation dquote :: char where "dquote \<equiv> CHR 0x22"
abbreviation backslash :: char where "backslash \<equiv> CHR 0x5C"

text \<open>The verb q of fmt, on printable ASCII.\<close>

definition go_quote :: "string \<Rightarrow> string" where
  "go_quote s = [dquote] @ concat (map (\<lambda>c. if c = dquote \<or> c = backslash then [backslash, c] else [c]) s)
     @ [dquote]"

section \<open>Lists of revisions\<close>

text \<open>
  The loop, with the number of revisions written and the output so far.  The revision that is
  encoded is a new one, built from the content at the time of the export.
\<close>

fun revs_with_content :: "indent_encoder \<Rightarrow> string \<Rightarrow> string \<Rightarrow> Revision list \<Rightarrow> nat \<Rightarrow> string \<Rightarrow> store
    \<Rightarrow> string result \<times> store" where
  "revs_with_content enc pre indent [] i out s = (Ok out, s)"
| "revs_with_content enc pre indent (rv # revs) i out s =
     (let out = (if i > 0 then out @ '','' else out) @ [newline] @ pre @ indent in
      case Content rv s of (ru, (s, rv)) \<Rightarrow>
      on_ok (ru, s) (\<lambda>content s.
        let concreteRev = RevisionFrom (s_clock s (s_ticks s)) content in
        on_ok (enc (pre @ indent) indent (MarshalJSON concreteRev), tick s) (\<lambda>b s.
          revs_with_content enc pre indent revs (i + 1) (out @ b) s)))"

definition RevisionList_MarshalJSONWithContent :: "indent_encoder \<Rightarrow> string \<Rightarrow> string \<Rightarrow> Revision list
    \<Rightarrow> store \<Rightarrow> string result \<times> store" where
  "RevisionList_MarshalJSONWithContent enc pre indent revs s =
     on_ok (revs_with_content enc pre indent revs 0 (pre @ ''['') s) (\<lambda>out s.
       (Ok (out @ [newline] @ pre @ '']''), s))"

section \<open>States\<close>

fun state_with_content :: "indent_encoder \<Rightarrow> string \<Rightarrow> string \<Rightarrow> State \<Rightarrow> nat \<Rightarrow> string \<Rightarrow> store
    \<Rightarrow> string result \<times> store" where
  "state_with_content enc pre indent [] i out s = (Ok out, s)"
| "state_with_content enc pre indent ((key, revisionlist) # state) i out s =
     (let out = (if i > 0 then out @ '','' else out) @ [newline] @ pre @ indent @ go_quote key @ '': '' in
      on_ok (RevisionList_MarshalJSONWithContent enc (pre @ indent) indent revisionlist s) (\<lambda>b s.
        state_with_content enc pre indent state (i + 1) (out @ b) s))"

definition State_MarshalJSONWithContent :: "indent_encoder \<Rightarrow> string \<Rightarrow> string \<Rightarrow> State
    \<Rightarrow> store \<Rightarrow> string result \<times> store" where
  "State_MarshalJSONWithContent enc pre indent state s =
     on_ok (state_with_content enc pre indent state 0 (pre @ ''{'') s) (\<lambda>out s.
       (Ok (out @ [newline] @ pre @ ''}''), s))"

text \<open>Only the contents, one after the other, separated by line ends: the nested loops as one.\<close>

fun only_content :: "indent_encoder \<Rightarrow> string \<Rightarrow> string \<Rightarrow> Revision list \<Rightarrow> nat \<Rightarrow> string \<Rightarrow> store
    \<Rightarrow> string result \<times> store" where
  "only_content enc pre indent [] i out s = (Ok out, s)"
| "only_content enc pre indent (rv # revs) i out s =
     (let out = (if i > 0 then out @ [newline] else out) in
      case Content rv s of (ru, (s, rv)) \<Rightarrow>
      on_ok (ru, s) (\<lambda>content s.
      on_ok (enc pre indent (VMap content), s) (\<lambda>b s.
        only_content enc pre indent revs (i + 1) (out @ b) s)))"

definition State_MarshalJSONOnlyContent :: "indent_encoder \<Rightarrow> string \<Rightarrow> string \<Rightarrow> State
    \<Rightarrow> store \<Rightarrow> string result \<times> store" where
  "State_MarshalJSONOnlyContent enc pre indent state s =
     only_content enc pre indent (concat (map snd state)) 0 [] s"

section \<open>What is exported\<close>

text \<open>The objects as the encoder gets them.\<close>

definition exported :: "gotime \<Rightarrow> object \<Rightarrow> json" where
  "exported now u = MarshalJSON (RevisionFrom now u)"

text \<open>An exported revision is never marked deleted, and its time is that of the export.\<close>

lemma exported_fields:
  "\<exists>m. exported now u = VMap m \<and> go_get m ''deleted'' = Some (VBool False)
     \<and> go_get m ''content'' = Some (VMap u)
     \<and> go_get m ''revisionTimestamp'' = Some (VInt (unix_of now))"
  by (simp add: exported_def RevisionFrom_def split_beta concrete_json_def lazy_json_def)

text \<open>
  Exporting revisions whose content is loaded, at the time \<open>now\<close>, with an encoder that does not
  fail: the encoded revisions between brackets, separated by commas, in their order.
\<close>

fun loaded :: "Revision \<Rightarrow> object option" where
  "loaded (ConcreteRevision r u) = Some u"
| "loaded (LazyLoadingRevision r c) = c"

definition encodes :: "indent_encoder \<Rightarrow> (string \<Rightarrow> string \<Rightarrow> json \<Rightarrow> string) \<Rightarrow> bool" where
  "encodes enc f \<longleftrightarrow> (\<forall>pre indent v. enc pre indent v = Ok (f pre indent v))"

definition export_entry :: "(string \<Rightarrow> string \<Rightarrow> json \<Rightarrow> string) \<Rightarrow> gotime \<Rightarrow> string \<Rightarrow> string \<Rightarrow> Revision \<Rightarrow> string" where
  "export_entry f now pre indent rv =
     [newline] @ pre @ indent @ f (pre @ indent) indent (exported now (the (loaded rv)))"

lemma Content_loaded: "loaded rv = Some u \<Longrightarrow> Content rv s = (Ok u, (s, rv))"
  by (cases "(rv, s)" rule: Content.cases) auto

lemma str_join_Cons: "str_join sep (x # xs) = x @ concat (map (\<lambda>y. sep @ y) xs)"
  by (induction xs arbitrary: x) simp_all

lemma revs_with_content_loaded:
  assumes "encodes enc f" "\<forall>rv \<in> set revs. loaded rv \<noteq> None" "s_clock s = (\<lambda>_. now)"
  shows "\<exists>n. revs_with_content enc pre indent revs i out s
     = (Ok (out @ (if i = 0 then str_join '','' (map (export_entry f now pre indent) revs)
          else concat (map (\<lambda>rv. '','' @ export_entry f now pre indent rv) revs))), s\<lparr>s_ticks := n\<rparr>)"
  using assms(2,3)
proof (induction revs arbitrary: i out s)
  case Nil
  have "s = s\<lparr>s_ticks := s_ticks s\<rparr>" by simp
  then show ?case by (intro exI [of _ "s_ticks s"]) simp
next
  case (Cons rv revs)
  then obtain u where u: "loaded rv = Some u" by auto
  let ?out = "(if i > 0 then out @ '','' else out) @ export_entry f now pre indent rv"
  have step: "revs_with_content enc pre indent (rv # revs) i out s
      = revs_with_content enc pre indent revs (i + 1) ?out (tick s)"
    using assms(1) Cons.prems(2)
    by (simp add: Content_loaded [OF u] Let_def encodes_def export_entry_def exported_def u)
  from Cons.IH [of "tick s" "i + 1" ?out] Cons.prems obtain n where
    "revs_with_content enc pre indent revs (i + 1) ?out (tick s)
      = (Ok (?out @ concat (map (\<lambda>rv. '','' @ export_entry f now pre indent rv) revs)), (tick s)\<lparr>s_ticks := n\<rparr>)"
    by (auto simp: tick_def)
  then show ?case unfolding step
    by (intro exI [of _ n]) (simp add: tick_def str_join_Cons o_def)
qed

lemma RevisionList_export:
  assumes "encodes enc f" "\<forall>rv \<in> set revs. loaded rv \<noteq> None" "s_clock s = (\<lambda>_. now)"
  shows "\<exists>n. RevisionList_MarshalJSONWithContent enc pre indent revs s
     = (Ok (pre @ ''['' @ str_join '','' (map (export_entry f now pre indent) revs) @ [newline] @ pre @ '']''),
        s\<lparr>s_ticks := n\<rparr>)"
proof -
  from revs_with_content_loaded [OF assms, of pre indent 0 "pre @ ''[''"] obtain n where
    "revs_with_content enc pre indent revs 0 (pre @ ''['') s
     = (Ok ((pre @ ''['') @ str_join '','' (map (export_entry f now pre indent) revs)), s\<lparr>s_ticks := n\<rparr>)"
    by auto
  then show ?thesis by (intro exI [of _ n]) (simp add: RevisionList_MarshalJSONWithContent_def)
qed

text \<open>An export reads: it leaves the backend as it is.\<close>

lemma revs_with_content_backend:
  "revs_with_content enc pre indent revs i out s = (r, s') \<Longrightarrow> s_backend s' = s_backend s"
proof (induction revs arbitrary: i out s)
  case (Cons rv revs)
  obtain ru s1 rv1 where c: "Content rv s = (ru, (s1, rv1))" by (metis surj_pair)
  then have b: "s_backend s1 = s_backend s" using Content_backend [of rv s] by simp
  show ?case
  proof (cases ru)
    case (Ok u)
    let ?e = "enc (pre @ indent) indent (MarshalJSON (RevisionFrom (s_clock s1 (s_ticks s1)) u))"
    show ?thesis
    proof (cases ?e)
      case e: (Ok e)
      let ?out = "(if i > 0 then out @ '','' else out) @ [newline] @ pre @ indent"
      have "revs_with_content enc pre indent revs (i + 1) (?out @ e) (tick s1) = (r, s')"
        using Cons.prems c Ok e by (simp add: Let_def)
      from Cons.IH [OF this] b show ?thesis by (simp add: tick_def)
    qed (use Cons.prems c Ok b in \<open>auto simp: Let_def tick_def\<close>)
  qed (use Cons.prems c b in \<open>auto simp: Let_def\<close>)
qed simp

lemma RevisionList_export_backend:
  assumes "RevisionList_MarshalJSONWithContent enc pre indent revs s = (r, s')"
  shows "s_backend s' = s_backend s"
proof -
  obtain r1 s1 where l: "revs_with_content enc pre indent revs 0 (pre @ ''['') s = (r1, s1)" by fastforce
  then show ?thesis using assms revs_with_content_backend [OF l]
    by (cases r1) (auto simp: RevisionList_MarshalJSONWithContent_def)
qed

lemma state_with_content_backend:
  "state_with_content enc pre indent state i out s = (r, s') \<Longrightarrow> s_backend s' = s_backend s"
proof (induction state arbitrary: i out s)
  case (Cons p state)
  obtain k revs where p: "p = (k, revs)" by (cases p)
  obtain r1 s1 where l: "RevisionList_MarshalJSONWithContent enc (pre @ indent) indent revs s = (r1, s1)"
    by fastforce
  note b = RevisionList_export_backend [OF l]
  show ?case
  proof (cases r1)
    case (Ok e)
    let ?out = "(if i > 0 then out @ '','' else out) @ [newline] @ pre @ indent @ go_quote k @ '': ''"
    have "state_with_content enc pre indent state (i + 1) (?out @ e) s1 = (r, s')"
      using Cons.prems p l Ok by (simp add: Let_def)
    from Cons.IH [OF this] b show ?thesis by simp
  qed (use Cons.prems p l b in \<open>auto simp: Let_def\<close>)
qed simp

lemma State_export_backend:
  assumes "State_MarshalJSONWithContent enc pre indent state s = (r, s')"
  shows "s_backend s' = s_backend s"
proof -
  obtain r1 s1 where l: "state_with_content enc pre indent state 0 (pre @ ''{'') s = (r1, s1)" by fastforce
  then show ?thesis using assms state_with_content_backend [OF l]
    by (cases r1) (auto simp: State_MarshalJSONWithContent_def)
qed

lemma only_content_backend:
  "only_content enc pre indent revs i out s = (r, s') \<Longrightarrow> s_backend s' = s_backend s"
proof (induction revs arbitrary: i out s)
  case (Cons rv revs)
  obtain ru s1 rv1 where c: "Content rv s = (ru, (s1, rv1))" by (metis surj_pair)
  then have b: "s_backend s1 = s_backend s" using Content_backend [of rv s] by simp
  show ?case
  proof (cases ru)
    case (Ok u)
    show ?thesis
    proof (cases "enc pre indent (VMap u)")
      case e: (Ok e)
      let ?out = "if i > 0 then out @ [newline] else out"
      have "only_content enc pre indent revs (i + 1) (?out @ e) s1 = (r, s')"
        using Cons.prems c Ok e by (simp add: Let_def)
      from Cons.IH [OF this] b show ?thesis by simp
    qed (use Cons.prems c Ok b in \<open>auto simp: Let_def\<close>)
  qed (use Cons.prems c b in \<open>auto simp: Let_def\<close>)
qed simp

end
