(* ===== verification/Commands.thy ===== *)
theory Commands
  imports Export
begin

text \<open>
  The commands \<open>revisions\<close> and \<open>state\<close> of cmd/ and the dynamic client of pkg/discovery they apply
  revisions with.  A command maps the flags and arguments to what it prints and to the stores it
  leaves.  viper, the Kubernetes API, the encoders and the formatting of durations are parameters.
\<close>

section \<open>The environment of a command\<close>

text \<open>
  \<open>GetInt\<close> stands for viper's \<open>GetInt\<close>, \<open>GetInt64\<close> and \<open>GetDuration\<close> (in nanoseconds).  A flag that was
  not given has its default, and \<open>GetString\<close> of an integer flag is its decimal form.
\<close>

record viper =
  GetString :: "string \<Rightarrow> string"
  GetBool :: "string \<Rightarrow> bool"
  GetInt :: "string \<Rightarrow> int"

record cmd_env =
  ce_world :: store_world
  ce_lib :: crypto_lib
  ce_openers :: openers
  ce_config :: config_codec
  ce_now :: gotime
  ce_err :: "error \<Rightarrow> string"
  ce_human :: "int \<Rightarrow> string"
  ce_encode :: indent_encoder
  ce_yaml :: "string \<Rightarrow> string result"
  ce_selector :: "string \<Rightarrow> ((string, string) go_map \<Rightarrow> bool) result result"

text \<open>
  What a command shows: the help after a text, a text, or the rows it hands to the tab writer.
\<close>

datatype cmd_output =
    ShowHelp string
  | Printed string
  | Table "string list list"

text \<open>\<open>klog.Fatalf(errors.Wrap(err, what).Error())\<close>.\<close>

definition or_die :: "cmd_env \<Rightarrow> string \<Rightarrow> 'a result \<Rightarrow> 'a result" where
  "or_die env what r = (case r of Err e \<Rightarrow> Crash (Fatal (what @ '': '' @ ce_err env e)) | _ \<Rightarrow> r)"

text \<open>Both commands turn the cache off, open the store and read its configuration.\<close>

definition open_store :: "cmd_env \<Rightarrow> viper \<Rightarrow> (storer \<times> StoreConfig) result" where
  "open_store env v =
     result_bind (or_die env ''creating store''
       (Store_NewFromEnv (ce_world env) (ce_lib env) (ce_openers env) (GetString v)
         ((GetBool v)(''enable-cache'' := False)) (GetInt v))) (\<lambda>s.
     result_bind (or_die env ''reading config'' (ReadConfig (ce_config env) (s_backend (storer_base s))))
       (\<lambda>config. Ok (s, config)))"

section \<open>The dynamic client\<close>

text \<open>
  The API server as the client of one resource and namespace sees it; \<open>'c\<close> is the state of the
  cluster.  The methods of \<open>dynamicResourceClient\<close> add the options.
\<close>

datatype PatchType = JSONPatchType | MergePatchType | StrategicMergePatchType

record 'c cluster_api =
  ca_init :: "unit result"
  ca_Create :: "Dynamic \<Rightarrow> object \<Rightarrow> 'c \<Rightarrow> object result \<times> 'c"
  ca_Get :: "Dynamic \<Rightarrow> string \<Rightarrow> 'c \<Rightarrow> object result"
  ca_Patch :: "Dynamic \<Rightarrow> string \<Rightarrow> PatchType \<Rightarrow> string \<Rightarrow> 'c \<Rightarrow> object result \<times> 'c"
  ca_IsNotFound :: "error \<Rightarrow> bool"
  ca_CreateMergePatch :: "string \<Rightarrow> string \<Rightarrow> string result"

definition Dynamic_Create :: "'c cluster_api \<Rightarrow> Dynamic \<Rightarrow> object \<Rightarrow> 'c \<Rightarrow> object result \<times> 'c" where
  "Dynamic_Create api d obj c = ca_Create api d obj c"

definition Dynamic_Get :: "'c cluster_api \<Rightarrow> Dynamic \<Rightarrow> string \<Rightarrow> 'c \<Rightarrow> object result" where
  "Dynamic_Get api d nm c = ca_Get api d nm c"

definition Dynamic_Patch :: "'c cluster_api \<Rightarrow> Dynamic \<Rightarrow> string \<Rightarrow> string \<Rightarrow> 'c \<Rightarrow> object result \<times> 'c" where
  "Dynamic_Patch api d nm data c = ca_Patch api d nm MergePatchType data c"

section \<open>revisions: the guards and the selection\<close>

text \<open>The early returns, in the order of the code.\<close>

definition revisions_guard :: "viper \<Rightarrow> string \<Rightarrow> cmd_output option" where
  "revisions_guard v verb =
     (if verb \<noteq> ''get'' \<and> verb \<noteq> ''delete'' \<and> verb \<noteq> ''apply'' then Some (ShowHelp [])
      else if verb = ''delete'' \<and> \<not> GetBool v ''all'' \<and> GetInt v ''revision'' = 0
      then Some (Printed
        ''must specify a revision to apply (or pass --all to delete all revisions of an object)'')
      else if verb = ''apply'' \<and> GetInt v ''revision'' = 0 \<and> (GetInt v ''at'' = 0 \<and> GetInt v ''ago'' = 0)
      then Some (Printed ''must specify a revision to apply'')
      else if GetString v ''revision'' \<noteq> [] \<and> (GetInt v ''at'' \<noteq> 0 \<or> GetInt v ''ago'' \<noteq> 0)
      then Some (Printed ([dquote] @ ''revision'' @ [dquote] @ '' cannot be specified with '' @ [dquote] @ ''at''
        @ [dquote] @ '' or '' @ [dquote] @ ''ago'' @ [dquote] @ [newline]))
      else None)"

definition select_version :: "viper \<Rightarrow> Revision list \<Rightarrow> Revision list" where
  "select_version v revisions =
     (if GetString v ''revision'' \<noteq> []
      then fold (\<lambda>rv out. if ResourceVersion rv = GetInt v ''revision'' then [rv] else out) revisions revisions
      else revisions)"

definition select_time :: "viper \<Rightarrow> gotime \<Rightarrow> Revision list \<Rightarrow> Revision list" where
  "select_time v now out =
     (if GetInt v ''at'' \<noteq> 0 \<or> GetInt v ''ago'' \<noteq> 0 then
        let targetTime = (if GetInt v ''at'' \<noteq> 0 then time_unix (GetInt v ''at'') else now - GetInt v ''ago'');
            mtch = fold (\<lambda>rv m. if after targetTime (RevisionTimestamp rv)
                \<and> (case m of None \<Rightarrow> True | Some x \<Rightarrow> after (RevisionTimestamp rv) (RevisionTimestamp x))
              then Some rv else m) out None
        in (case mtch of Some rv \<Rightarrow> [rv] | None \<Rightarrow> [])
      else out)"

section \<open>revisions: the verbs\<close>

definition revision_row :: "cmd_env \<Rightarrow> Revision \<Rightarrow> string list" where
  "revision_row env rv = [APIVersion rv, Kind rv, Namespace rv, Name rv,
     ce_human env (ce_now env - RevisionTimestamp rv), itoa (ResourceVersion rv)]"

text \<open>The JSON of a list; one without elements was never allocated and is encoded as null.\<close>

definition revisions_json :: "Revision list \<Rightarrow> json" where
  "revisions_json out = (if out = [] then VNull else VList (map MarshalJSON out))"

definition revisions_get :: "viper \<Rightarrow> cmd_env \<Rightarrow> Revision list \<Rightarrow> store \<Rightarrow> cmd_output result \<times> store" where
  "revisions_get v env out s =
     (let o' = GetString v ''output'' in
      if o' = ''json'' \<or> o' = ''yaml'' then
        case (if GetBool v ''with-content''
              then RevisionList_MarshalJSONWithContent (ce_encode env) [] ''  '' out s
              else (ce_encode env [] ''  '' (revisions_json out), s)) of (b, s) \<Rightarrow>
        on_ok (or_die env ''marshalling revisions'' b, s) (\<lambda>b s.
        on_ok (or_die env ''marshalling revisions'' (if o' = ''yaml'' then ce_yaml env b else Ok b), s) (\<lambda>b s.
          (Ok (Printed b), s)))
      else (Ok (Table ([''GROUPVERSION'', ''KIND'', ''NAMESPACE'', ''NAME'', ''AGE'', ''REVISION'']
              # map (revision_row env) out)), s))"

definition revisions_delete :: "Revision list \<Rightarrow> storer \<Rightarrow> cmd_output result \<times> storer" where
  "revisions_delete out st =
     on_ok (storer_PurgeRevisions out st) (\<lambda>(revsDeleted, err) st.
       (Ok (Printed (concat (map (\<lambda>rv. ''deleted '' @ rev_string rv) revsDeleted))), st))"

text \<open>
  The patch of an existing object.  When the revision cannot be encoded the code prints the error
  and goes on with no bytes; after a failed patch it prints the error and that it was applied.
\<close>

definition revisions_patch :: "cmd_env \<Rightarrow> 'c cluster_api \<Rightarrow> Dynamic \<Rightarrow> Revision \<Rightarrow> object \<Rightarrow> object \<Rightarrow> store
    \<Rightarrow> 'c \<Rightarrow> cmd_output result \<times> 'c" where
  "revisions_patch env api dyn rv revContent current s c =
     on_ok (case json_marshal (s_codec s) revContent of
         Ok b \<Rightarrow> Ok (b, [])
       | Err e \<Rightarrow> Ok ([], ''error: marshaling revision content - '' @ ce_err env e)
       | Crash x \<Rightarrow> Crash x, c) (\<lambda>(revBytes, out) c.
     case json_marshal (s_codec s) current of
       Crash x \<Rightarrow> (Crash x, c)
     | Err e \<Rightarrow> (Ok (Printed (out @ ''error: marshaling current resource - '' @ ce_err env e)), c)
     | Ok curBytes \<Rightarrow>
         (case ca_CreateMergePatch api curBytes revBytes of
            Crash x \<Rightarrow> (Crash x, c)
          | Err e \<Rightarrow> (Ok (Printed (out @ ''error: building two way merge patch - '' @ ce_err env e)), c)
          | Ok patch \<Rightarrow>
              (case Dynamic_Patch api dyn (Name rv) patch c of
                 (Crash x, c) \<Rightarrow> (Crash x, c)
               | (Err e, c) \<Rightarrow> (Ok (Printed (out @ ''error: patching object - '' @ ce_err env e
                   @ rev_string rv @ '' applied'')), c)
               | (Ok _, c) \<Rightarrow> (Ok (Printed (out @ rev_string rv @ '' applied'')), c))))"

definition revisions_create :: "cmd_env \<Rightarrow> 'c cluster_api \<Rightarrow> Dynamic \<Rightarrow> Revision \<Rightarrow> object \<Rightarrow> 'c
    \<Rightarrow> cmd_output result \<times> 'c" where
  "revisions_create env api dyn rv revContent c =
     (case Dynamic_Create api dyn revContent c of
        (Crash x, c) \<Rightarrow> (Crash x, c)
      | (Err e, c) \<Rightarrow> (Ok (Printed (''error: creating object - '' @ ce_err env e)), c)
      | (Ok _, c) \<Rightarrow> (Ok (Printed (rev_string rv @ '' applied'')), c))"

text \<open>The cluster after the content is loaded and stripped.\<close>

definition revisions_to_cluster :: "viper \<Rightarrow> cmd_env \<Rightarrow> 'c cluster_api \<Rightarrow> Dynamic \<Rightarrow> Revision \<Rightarrow> object
    \<Rightarrow> store \<Rightarrow> 'c \<Rightarrow> cmd_output result \<times> 'c" where
  "revisions_to_cluster v env api dyn rv revContent s c =
     (if \<not> GetBool v ''overwrite'' then revisions_create env api dyn rv revContent c
      else case Dynamic_Get api dyn (Name rv) c of
        Crash x \<Rightarrow> (Crash x, c)
      | Err e \<Rightarrow>
          if ca_IsNotFound api e then revisions_create env api dyn rv revContent c
          else (Ok (Printed (''error: getting current status for resource - '' @ ce_err env e)), c)
      | Ok current \<Rightarrow> revisions_patch env api dyn rv revContent current s c)"

definition revisions_apply :: "viper \<Rightarrow> cmd_env \<Rightarrow> 'c cluster_api \<Rightarrow> string \<Rightarrow> APIResource \<Rightarrow> string \<Rightarrow> string
    \<Rightarrow> Revision list \<Rightarrow> storer \<Rightarrow> 'c \<Rightarrow> cmd_output result \<times> (storer \<times> 'c)" where
  "revisions_apply v env api apiVersion apiResource namespace nm out st c =
     (case out of
        [] \<Rightarrow> (Ok (Printed (''error: revision '' @ itoa (GetInt v ''revision'') @ '' not found for '' @ apiVersion
                 @ ''/'' @ ar_Kind apiResource @ '' '' @ go_quote nm)), (st, c))
      | rv # _ \<Rightarrow>
          (case storer_Content rv st of
             (Crash x, (st, rv)) \<Rightarrow> (Crash x, (st, c))
           | (Err e, (st, rv)) \<Rightarrow>
               (Ok (Printed (''error: getting revision '' @ rev_string rv @ '' content from store - ''
                  @ ce_err env e)), (st, c))
           | (Ok revContent, (st, rv)) \<Rightarrow>
               on_ok (ca_init api, (st, c)) (\<lambda>_ (st, c).
               case ParseGroupVersion apiVersion of
                 Crash x \<Rightarrow> (Crash x, (st, c))
               | Err e \<Rightarrow> (Ok (Printed (''error: parsing group version from api version: ''
                   @ go_quote apiVersion @ '' - '' @ ce_err env e)), (st, c))
               | Ok gv \<Rightarrow>
                   let dyn = ClientForGroupVersionResource gv (ar_Name apiResource) (ar_Kind apiResource) namespace;
                       (r, c) = revisions_to_cluster v env api dyn rv (StripMetadata revContent) (storer_base st) c
                   in (r, (st, c)))))"

section \<open>revisions\<close>

text \<open>The command on the opened store; \<open>a1\<close> and \<open>nm\<close> are the second and the third argument.\<close>

definition revisions_run :: "viper \<Rightarrow> cmd_env \<Rightarrow> 'c cluster_api \<Rightarrow> string \<Rightarrow> string \<Rightarrow> string \<Rightarrow> StoreConfig
    \<Rightarrow> storer \<Rightarrow> 'c \<Rightarrow> cmd_output result \<times> (storer \<times> 'c)" where
  "revisions_run v env api verb a1 nm config st c =
     (case BestResourceMappingFor config a1 of
        Crash x \<Rightarrow> (Crash x, (st, c))
      | Err e \<Rightarrow> (Ok (Printed (''error: '' @ ce_err env e)), (st, c))
      | Ok (apiVersion, apiResource) \<Rightarrow>
          let namespace = (if ar_Namespaced apiResource then GetString v ''namespace'' else []) in
          (case storer_List namespace apiVersion (ar_Kind apiResource) nm st of
             Crash x \<Rightarrow> (Crash x, (st, c))
           | Err e \<Rightarrow>
               if e = ErrNotFound
               then (Ok (Printed (''error: '' @ apiVersion @ ''/'' @ ar_Kind apiResource @ '' '' @ go_quote nm
                      @ '' not found'')), (st, c))
               else (or_die env ''listing revisions'' (Err e), (st, c))
           | Ok revisions \<Rightarrow>
               let out = select_time v (ce_now env) (select_version v revisions) in
               if verb = ''get'' then
                 let (r, s) = revisions_get v env out (storer_base st) in (r, (set_base s st, c))
               else if verb = ''delete'' then
                 let (r, st) = revisions_delete out st in (r, (st, c))
               else revisions_apply v env api apiVersion apiResource namespace nm out st c))"

text \<open>
  \<open>cobra.MinimumNArgs(3)\<close> rejects fewer arguments.  The result has the store that was opened, if
  the command got that far.
\<close>

definition revisionCmd :: "viper \<Rightarrow> cmd_env \<Rightarrow> 'c cluster_api \<Rightarrow> string list \<Rightarrow> 'c
    \<Rightarrow> cmd_output result \<times> (storer option \<times> 'c)" where
  "revisionCmd v env api args c = (case args of
     verb # a1 # nm # _ \<Rightarrow>
       (case revisions_guard v verb of
          Some shown \<Rightarrow> (Ok shown, (None, c))
        | None \<Rightarrow> on_ok (open_store env v, (None, c)) (\<lambda>(st, config) (_, c).
            let (r, (st, c)) = revisions_run v env api verb a1 nm config st c in (r, (Some st, c))))
   | _ \<Rightarrow> (Err (ErrMsg ''requires at least 3 arg(s)''), (None, c)))"

section \<open>state\<close>

definition state_time :: "viper \<Rightarrow> gotime \<Rightarrow> gotime" where
  "state_time v now =
     (if GetInt v ''at'' > 0 then time_unix (GetInt v ''at'')
      else if GetInt v ''ago'' > 0 then now - GetInt v ''ago''
      else now)"

text \<open>
  The options the flags and arguments ask for, with whether the resource is namespaced; \<open>Inl\<close> is
  what an early return shows.
\<close>

definition state_options :: "viper \<Rightarrow> cmd_env \<Rightarrow> StoreConfig \<Rightarrow> string list
    \<Rightarrow> (cmd_output + StateOptions \<times> bool) result" where
  "state_options v env config args =
     (let opt = \<lparr>so_APIVersion = [], so_Kind = [], so_LabelSelector = None, so_Time = state_time v (ce_now env),
            so_Namespace = [], so_AllNamespaces = False, so_Name = [], so_AllRevisions = False, so_OnlyDeleted = False\<rparr>;
          mapped = (if args \<noteq> [] \<and> hd args \<noteq> ''all''
            then (case BestResourceMappingFor config (hd args) of
                Ok (apiVersion, apiResource) \<Rightarrow>
                  Ok (Inr (opt\<lparr>so_APIVersion := apiVersion, so_Kind := ar_Kind apiResource\<rparr>, ar_Namespaced apiResource))
              | Err e \<Rightarrow> Ok (Inl (Printed (''error: '' @ ce_err env e)))
              | Crash x \<Rightarrow> Crash x)
            else Ok (Inr (opt, False)))
      in result_bind mapped (\<lambda>m. case m of
           Inl shown \<Rightarrow> Ok (Inl shown)
         | Inr (opt, namespaced) \<Rightarrow>
             let opt = (if length args > 1 then opt\<lparr>so_Name := args ! 1\<rparr> else opt);
                 opt = (if namespaced then opt\<lparr>so_Namespace := GetString v ''namespace''\<rparr> else opt)
             in if GetString v ''label-selector'' \<noteq> [] then
                  if \<not> GetBool v ''with-content''
                  then Ok (Inl (ShowHelp (''error: '' @ [dquote] @ ''with-content'' @ [dquote]
                    @ '' must be specified with a label selector'' @ [newline])))
                  else result_bind (or_die env ''parsing labelselector'' (ce_selector env (GetString v ''label-selector'')))
                    (\<lambda>sel. Ok (Inr (opt\<lparr>so_LabelSelector := Some sel, so_AllNamespaces := GetBool v ''all-namespaces''\<rparr>,
                       namespaced)))
                else Ok (Inr (opt\<lparr>so_AllNamespaces := GetBool v ''all-namespaces''\<rparr>, namespaced))))"

subsection \<open>Writing a directory\<close>

text \<open>The file system as the command uses it; \<open>'f\<close> is its state.\<close>

record 'f file_system =
  MkdirAll :: "string \<Rightarrow> 'f \<Rightarrow> unit result \<times> 'f"
  WriteFile :: "string \<Rightarrow> string \<Rightarrow> 'f \<Rightarrow> unit result \<times> 'f"

definition revision_file :: "string \<Rightarrow> Revision \<Rightarrow> string" where
  "revision_file root_dir rv =
     trim_suffix (path_join [root_dir, rev_Key rv]) (path_ext (rev_Key rv)) @ ''.yaml''"

fun write_revisions :: "cmd_env \<Rightarrow> 'f file_system \<Rightarrow> string \<Rightarrow> Revision list \<Rightarrow> string \<Rightarrow> store \<times> 'f
    \<Rightarrow> string result \<times> (store \<times> 'f)" where
  "write_revisions env fs root_dir [] out sf = (Ok out, sf)"
| "write_revisions env fs root_dir (rv # revs) out (s, f) =
     (case Content rv s of (ru, (s, rv)) \<Rightarrow>
      on_ok (or_die env ''getting rev contents'' ru, (s, f)) (\<lambda>content (s, f).
      on_ok (or_die env ''marshalling state'' (json_marshal (s_codec s) content), (s, f)) (\<lambda>b (s, f).
      on_ok (or_die env ''marshalling yaml'' (ce_yaml env b), (s, f)) (\<lambda>b (s, f).
        let file = revision_file root_dir rv;
            out = out @ ''Writing '' @ rev_string rv @ '' to '' @ file @ [newline];
            (r, f) = WriteFile fs file b f
        in on_ok (or_die env (''writing revision: '' @ rev_string rv) r, (s, f)) (\<lambda>_ sf.
             write_revisions env fs root_dir revs out sf)))))"

fun write_state :: "cmd_env \<Rightarrow> 'f file_system \<Rightarrow> string \<Rightarrow> State \<Rightarrow> string \<Rightarrow> store \<times> 'f
    \<Rightarrow> string result \<times> (store \<times> 'f)" where
  "write_state env fs root_dir [] out sf = (Ok out, sf)"
| "write_state env fs root_dir ((key, revs) # state) out (s, f) =
     (let (r, f) = MkdirAll fs (path_join [root_dir, key]) f in
      on_ok (or_die env ''creating rev directory'' r, (s, f)) (\<lambda>_ sf.
      on_ok (write_revisions env fs root_dir revs out sf) (\<lambda>out sf.
        write_state env fs root_dir state out sf)))"

subsection \<open>Showing a state\<close>

definition state_columns :: "StateOptions \<Rightarrow> bool \<Rightarrow> string list" where
  "state_columns opt showNamespaces =
     (if so_APIVersion opt = [] then [''APIVERSION''] else [])
     @ (if so_Kind opt = [] then [''KIND''] else [])
     @ (if showNamespaces then [''NAMESPACE''] else []) @ [''NAME'', ''AGE'']"

definition state_row :: "cmd_env \<Rightarrow> StateOptions \<Rightarrow> bool \<Rightarrow> Revision \<Rightarrow> string list" where
  "state_row env opt showNamespaces rv =
     (if so_APIVersion opt = [] then [APIVersion rv] else [])
     @ (if so_Kind opt = [] then [Kind rv] else [])
     @ (if showNamespaces then [Namespace rv] else [])
     @ [Name rv, ce_human env (ce_now env - RevisionTimestamp rv)]"

definition state_show :: "viper \<Rightarrow> cmd_env \<Rightarrow> StateOptions \<Rightarrow> bool \<Rightarrow> State \<Rightarrow> store
    \<Rightarrow> cmd_output result \<times> store" where
  "state_show v env opt showNamespaces state s =
     (let o' = GetString v ''output'' in
      if o' = ''json'' \<or> o' = ''yaml'' then
        case (if GetBool v ''with-content'' then State_MarshalJSONWithContent (ce_encode env) [] ''  '' state s
              else if GetBool v ''only-content'' then State_MarshalJSONOnlyContent (ce_encode env) [] ''  '' state s
              else (ce_encode env [] ''  '' (VMap (map (\<lambda>(k, revs). (k, revisions_json revs)) state)), s))
        of (b, s) \<Rightarrow>
        on_ok (or_die env ''marshalling state'' b, s) (\<lambda>b s.
        on_ok (or_die env ''marshalling state'' (if o' = ''yaml'' then ce_yaml env b else Ok b), s) (\<lambda>b s.
          (Ok (Printed b), s)))
      else (Ok (Table (state_columns opt showNamespaces
              # concat (map (\<lambda>(k, revs). map (state_row env opt showNamespaces) revs) state))), s))"

text \<open>The files of a directory, or the text or rows.\<close>

definition state_output :: "viper \<Rightarrow> cmd_env \<Rightarrow> 'f file_system \<Rightarrow> StateOptions \<Rightarrow> bool \<Rightarrow> State
    \<Rightarrow> storer \<Rightarrow> 'f \<Rightarrow> cmd_output result \<times> (storer \<times> 'f)" where
  "state_output v env fs opt showNamespaces state st f =
     (if GetString v ''directory'' \<noteq> [] then
        let (r, (s, f)) = write_state env fs (GetString v ''directory'') state [] (storer_base st, f)
        in on_ok (r, (set_base s st, f)) (\<lambda>out sf. (Ok (Printed out), sf))
      else
        let (r, s) = state_show v env opt showNamespaces state (storer_base st)
        in (r, (set_base s st, f)))"

text \<open>
  The command on the opened store.  \<open>State\<close> may find a state and fail: the error is fatal.  The
  message about \<open>at\<close> and \<open>ago\<close> is printed and the command goes on.
\<close>

definition state_run :: "viper \<Rightarrow> cmd_env \<Rightarrow> 'f file_system \<Rightarrow> string list \<Rightarrow> StoreConfig
    \<Rightarrow> storer \<Rightarrow> 'f \<Rightarrow> cmd_output result \<times> (storer \<times> 'f)" where
  "state_run v env fs args config st f =
     on_ok (state_options v env config args, (st, f)) (\<lambda>opts (st, f).
     case opts of
       Inl shown \<Rightarrow> (Ok shown, (st, f))
     | Inr (opt, namespaced) \<Rightarrow>
         let showNamespaces = namespaced \<and> (so_AllNamespaces opt \<or> so_Namespace opt = []);
             (r, st) = storer_State opt st
         in on_ok (or_die env ''state get'' (result_bind r (\<lambda>(state, err).
                case err of None \<Rightarrow> Ok state | Some e \<Rightarrow> Err e)), (st, f)) (\<lambda>state (st, f).
            state_output v env fs opt showNamespaces state st f))"

definition both_times :: string where
  "both_times = [dquote] @ ''at'' @ [dquote] @ '' and '' @ [dquote] @ ''ago'' @ [dquote]
     @ '' cannot both be set'' @ [newline]"

text \<open>The result comes with what was printed before it.\<close>

definition stateCmd :: "viper \<Rightarrow> cmd_env \<Rightarrow> 'f file_system \<Rightarrow> string list \<Rightarrow> 'f
    \<Rightarrow> (string \<times> cmd_output) result \<times> (storer option \<times> 'f)" where
  "stateCmd v env fs args f =
     (if length args > 2 then (Err (ErrMsg ''accepts at most 2 arg(s)''), (None, f))
      else
        let warned = (if GetInt v ''at'' > 0 \<and> GetInt v ''ago'' > 0 then both_times else []) in
        on_ok (open_store env v, (None, f)) (\<lambda>(st, config) (_, f).
          let (r, (st, f)) = state_run v env fs args config st f
          in (result_bind r (\<lambda>shown. Ok (warned, shown)), (Some st, f))))"

section \<open>version\<close>

text \<open>The strings the linker sets.\<close>

record build_info =
  bi_Version :: string
  bi_SHA :: string
  bi_BuildState :: string

definition GitVersion :: "build_info \<Rightarrow> string" where
  "GitVersion b = (if bi_BuildState b = ''dirty'' then bi_SHA b @ ''-'' @ bi_BuildState b else bi_SHA b)"

definition FullVersion :: "build_info \<Rightarrow> string" where
  "FullVersion b = ''saiki v'' @ bi_Version b @ '' '' @ GitVersion b"

definition versionCmd :: "build_info \<Rightarrow> string list \<Rightarrow> cmd_output result" where
  "versionCmd b args = (if args \<noteq> [] then Err (ErrMsg ''accepts 0 arg(s)'') else Ok (Printed (FullVersion b)))"

end
