(* ===== verification/Commands_Props.thy ===== *)
theory Commands_Props
  imports Commands Well_Formed Samples
begin

text \<open>
  The properties of the commands, with their witnesses on the sample store.
\<close>

section \<open>The selection\<close>

lemma fold_last_match:
  "fold (\<lambda>x out. if P x then [x] else out) xs acc = (if filter P xs = [] then acc else [last (filter P xs)])"
  by (induction xs arbitrary: acc) simp_all

text \<open>The revision the flag names, or all of them when none has its version.\<close>

lemma select_version_spec:
  fixes revs :: "Revision list"
  assumes "GetString v ''revision'' \<noteq> []"
  defines "named \<equiv> filter (\<lambda>rv. ResourceVersion rv = GetInt v ''revision'') revs"
  shows "select_version v (sort_revs revs) = (if named = [] then sort_revs revs else [last named])"
proof -
  have "filter (\<lambda>rv. ResourceVersion rv = GetInt v ''revision'') (sort_revs revs) = named"
    unfolding named_def sort_revs_def by (rule sort_key_stable)
  then show ?thesis using assms(1) by (simp add: select_version_def fold_last_match)
qed

lemma select_time_none: "GetInt v ''at'' = 0 \<Longrightarrow> GetInt v ''ago'' = 0 \<Longrightarrow> select_time v now out = out"
  by (simp add: select_time_def)


section \<open>revisions delete\<close>

text \<open>C22: on a well-formed plain store, \<open>revisions delete\<close> with a revision removes exactly the live
  revision of the object with that version; when there is none, it removes every live revision of
  the object.\<close>

theorem delete_command:
  fixes nm :: string
  assumes "BestResourceMappingFor config a1 = Ok (apiVersion, res)"
    and "backend_wf (s_backend s)" "fault_free (s_backend s)" "be_provider (s_backend s) \<noteq> S3Provider"
    and "GetString v ''revision'' \<noteq> []" "GetInt v ''at'' = 0" "GetInt v ''ago'' = 0"
  defines "rk \<equiv> ResourceKey apiVersion (ar_Kind res) (if ar_Namespaced res then GetString v ''namespace'' else []) nm"
  defines "live \<equiv> live_revs rk (s_backend s)"
  defines "named \<equiv> filter (\<lambda>rv. ResourceVersion rv = GetInt v ''revision'') live"
  shows "\<exists>out s'. revisions_run v env api ''delete'' a1 nm config (Plain s) c = (Ok (Printed out), (Plain s', c))
     \<and> (\<forall>k. backend_objs (s_backend s') k =
          (if k \<in> rev_Key ` set (if named = [] then live else [last named]) then None
           else backend_objs (s_backend s) k))"
proof -
  let ?out = "if named = [] then sort_revs live else [last named]"
  have sub: "set named \<subseteq> set live" by (auto simp: named_def)
  have stored: "set live \<subseteq> set (stored_revs (s_backend s))" by (auto simp: live_def live_revs_def)
  have set_out: "set ?out = set (if named = [] then live else [last named])" by simp
  have in_live: "set ?out \<subseteq> set live" using sub by (auto simp: last_in_set subset_iff)
  have valid: "\<forall>rv \<in> set ?out. valid_revision (meta rv)"
    and there: "\<forall>rv \<in> set ?out. backend_objs (s_backend s) (rev_Key rv) \<noteq> None"
    using in_live stored stored_revs_valid(1,2) [OF assms(2)] by blast+
  have "distinct (map rev_Key (sort_revs live))"
    using live_revs_distinct [OF assms(2), of rk] unfolding live_def
    by (simp add: distinct_map sort_revs_def)
  then have dist: "distinct (map rev_Key ?out)" by simp
  have rem: "removable (s_backend s) k \<longleftrightarrow> backend_objs (s_backend s) k \<noteq> None" for k
    using assms(3) by (simp add: removable_def fault_free_def)
  from PurgeRevisions_spec [OF valid dist assms(4)] obtain r err s' where p:
    "PurgeRevisions ?out s = (Ok (r, err), s')"
    "\<forall>k. backend_objs (s_backend s') k = (if k \<in> rev_Key ` set ?out \<and> removable (s_backend s) k then None
       else backend_objs (s_backend s) k)" by blast
  have objs: "backend_objs (s_backend s') k = (if k \<in> rev_Key ` set (if named = [] then live else [last named])
      then None else backend_objs (s_backend s) k)" for k
    using p(2) there rem unfolding set_out by auto
  have l: "storer_List (if ar_Namespaced res then GetString v ''namespace'' else []) apiVersion (ar_Kind res) nm (Plain s)
      = Ok (sort_revs live)"
    using ns_List_spec [OF assms(2,3)] by (simp add: storer_List_def live_def live_revs_def rk_def)
  have sel: "select_time v (ce_now env) (select_version v (sort_revs live)) = ?out"
    using select_version_spec [OF assms(5), of live] assms(6,7) by (simp add: select_time_none named_def)
  have "revisions_run v env api ''delete'' a1 nm config (Plain s) c
      = (Ok (Printed (concat (map (\<lambda>rv. ''deleted '' @ rev_string rv) r))), (Plain s', c))"
    using assms(1) l sel p(1)
    by (simp add: revisions_run_def Let_def revisions_delete_def storer_PurgeRevisions_def del: if_split)
  then show ?thesis using objs by blast
qed

text \<open>A configuration with the deployments, and the flags of \<open>-n default -r 7\<close>.\<close>

definition deployments :: APIResource where
  "deployments = \<lparr>ar_Name = ''deployments'', ar_SingularName = ''deployment'', ar_Namespaced = True,
     ar_Kind = ''Deployment'', ar_ShortNames = [''deploy''], ar_Verbs = []\<rparr>"

definition web_config :: StoreConfig where
  "web_config = \<lparr>cfg_Resources =
     [\<lparr>arl_GroupVersion = ''apps/v1'', arl_APIResources = [deployments]\<rparr>], cfg_Version = 1\<rparr>"

definition revision_flags :: "int \<Rightarrow> viper" where
  "revision_flags n = \<lparr>GetString = (\<lambda>flag. if flag = ''namespace'' then ''default''
       else if flag = ''revision'' then itoa n else []),
     GetBool = (\<lambda>_. False), GetInt = (\<lambda>flag. if flag = ''revision'' then n else 0)\<rparr>"

lemma web_mapping: "BestResourceMappingFor web_config ''deploy'' = Ok (''apps/v1'', deployments)"
proof -
  have "to_lower ''deploy'' = ''deploy''" by (simp add: to_lower_def lower_table_def)
  then show ?thesis
    by (simp add: BestResourceMappingFor_def web_config_def ParseGroupVersion_def full_name_match_def
        short_match_def deployments_def)
qed

lemma web_resource: "ResourceKey ''apps/v1'' (ar_Kind deployments)
    (if ar_Namespaced deployments then ''default'' else []) ''web'' = ''apps/v1/Deployment/default/web''"
  by (simp add: deployments_def ResourceKey_def path_eval)

theorem delete_command_witness:
  "\<forall>env (api :: unit cluster_api). \<exists>out s'. revisions_run (revision_flags 7) env api ''delete'' ''deploy'' ''web'' web_config (Plain sample_store) ()
       = (Ok (Printed out), (Plain s', ()))
     \<and> backend_objs (s_backend s') ''apps/v1/Deployment/default/web/9-1700000000.json'' = None
     \<and> backend_objs (s_backend s') ''apps/v1/Deployment/default/web/10-1700000060.json'' = None"
proof (intro allI)
  fix env and api :: "unit cluster_api"
  have flags: "GetString (revision_flags 7) ''revision'' \<noteq> []" "GetInt (revision_flags 7) ''at'' = 0"
    "GetInt (revision_flags 7) ''ago'' = 0" "GetString (revision_flags 7) ''namespace'' = ''default''"
    "GetInt (revision_flags 7) ''revision'' = 7"
    by (simp_all add: revision_flags_def number_eval)
  have b: "s_backend sample_store = sample_backend" by (simp add: sample_store_def)
  have p: "be_provider (s_backend sample_store) \<noteq> S3Provider" by (simp add: sample_eval S3Provider_def)
  have none: "filter (\<lambda>rv. ResourceVersion rv = 7) (live_revs ''apps/v1/Deployment/default/web'' sample_backend) = []"
    by (simp add: sample_live ResourceVersion_def) (simp add: web_rev_def)
  from delete_command [OF web_mapping sample_wf(1) sample_fault_free(1) p flags(1-3), of env api "''web''" "()"]
  obtain out s' where *:
    "revisions_run (revision_flags 7) env api ''delete'' ''deploy'' ''web'' web_config (Plain sample_store) ()
       = (Ok (Printed out), (Plain s', ()))"
    "\<forall>k. backend_objs (s_backend s') k =
          (if k \<in> rev_Key ` set (live_revs ''apps/v1/Deployment/default/web'' sample_backend) then None
           else backend_objs sample_backend k)"
    unfolding flags web_resource b none by auto
  then show "\<exists>out s'. revisions_run (revision_flags 7) env api ''delete'' ''deploy'' ''web'' web_config (Plain sample_store) ()
       = (Ok (Printed out), (Plain s', ()))
     \<and> backend_objs (s_backend s') ''apps/v1/Deployment/default/web/9-1700000000.json'' = None
     \<and> backend_objs (s_backend s') ''apps/v1/Deployment/default/web/10-1700000060.json'' = None"
    by (simp add: sample_live sample_keys)
qed

section \<open>The time flags\<close>

text \<open>The flags \<open>at\<close> and \<open>ago\<close> of \<open>revisions\<close> never select a revision.  The text of an integer flag
  is never empty, so each of the three verbs with either of them prints a message and ends before
  the store is opened.\<close>

theorem time_flags_rejected:
  assumes "GetString v ''revision'' = itoa (GetInt v ''revision'')"
    and "GetInt v ''at'' \<noteq> 0 \<or> GetInt v ''ago'' \<noteq> 0"
    and "verb = ''get'' \<or> verb = ''delete'' \<or> verb = ''apply''"
  shows "\<exists>shown. revisionCmd v env api (verb # a1 # nm # rest) c = (Ok (Printed shown), (None, c))"
proof -
  have "itoa (GetInt v ''revision'') \<noteq> []" by (auto simp: itoa_def)
  then have "GetString v ''revision'' \<noteq> []" using assms(1) by simp
  then have "\<exists>shown. revisions_guard v verb = Some (Printed shown)"
    using assms(2,3) by (auto simp: revisions_guard_def)
  then show ?thesis by (auto simp: revisionCmd_def)
qed

definition at_flags :: viper where
  "at_flags = \<lparr>GetString = (\<lambda>flag. if flag = ''revision'' then ''0'' else []), GetBool = (\<lambda>_. False),
     GetInt = (\<lambda>flag. if flag = ''at'' then 1700000000 else 0)\<rparr>"

theorem time_flags_rejected_witness:
  "\<forall>env (api :: unit cluster_api). \<exists>shown.
     revisionCmd at_flags env api [''get'', ''deploy'', ''web''] () = (Ok (Printed shown), (None, ()))"
proof -
  have "GetString at_flags ''revision'' = itoa (GetInt at_flags ''revision'')" "GetInt at_flags ''at'' \<noteq> 0"
    by (simp_all add: at_flags_def number_eval)
  then show ?thesis by (intro allI time_flags_rejected) simp_all
qed

section \<open>revisions apply\<close>

text \<open>The selection of an object with live revisions is never empty.\<close>

lemma select_version_live:
  assumes "GetString v ''revision'' \<noteq> []" "revs \<noteq> []"
  shows "\<exists>rv rest. select_version v (sort_revs revs) = rv # rest \<and> rv \<in> set revs"
proof -
  let ?named = "filter (\<lambda>rv. ResourceVersion rv = GetInt v ''revision'') revs"
  show ?thesis
  proof (cases "?named = []")
    case True
    obtain rv rest where r: "sort_revs revs = rv # rest"
      using assms(2) sort_revs_Nil by (metis neq_Nil_conv)
    then have "rv \<in> set revs" by (metis list.set_intros(1) sort_revs_set)
    then show ?thesis using r select_version_spec [OF assms(1), of revs] True by simp
  next
    case False
    then have "last ?named \<in> set ?named" by (rule last_in_set)
    then show ?thesis using select_version_spec [OF assms(1), of revs] False by simp
  qed
qed

text \<open>C23: \<open>revisions apply\<close> creates in the cluster the content of the latest live revision of the
  object, stripped of its metadata, whichever of its revisions the flag names.\<close>

theorem apply_creates_latest:
  fixes nm :: string
  assumes "BestResourceMappingFor config a1 = Ok (apiVersion, res)" "ParseGroupVersion apiVersion = Ok gv"
    and "backend_wf (s_backend s)" "fault_free (s_backend s)" "s_latestCache s = []"
    and "GetString v ''revision'' \<noteq> []" "GetInt v ''at'' = 0" "GetInt v ''ago'' = 0"
    and "\<not> GetBool v ''overwrite''" "ca_init api = Ok ()"
  defines "ns \<equiv> if ar_Namespaced res then GetString v ''namespace'' else []"
  defines "live \<equiv> live_revs (ResourceKey apiVersion (ar_Kind res) ns nm) (s_backend s)"
  assumes "live \<noteq> []"
    and "backend_objs (s_backend s) (rev_Key (last (sort_revs live))) = Some b"
    and "(case s_encrypter s of Some a \<Rightarrow> AES_Decrypt a (Ok b) | None \<Rightarrow> Ok b) = Ok d"
    and "json_unmarshal (s_codec s) d = Ok u"
  shows "\<exists>r st'. revisions_run v env api ''apply'' a1 nm config (Plain s) c
     = (r, (st', snd (Dynamic_Create api (ClientForGroupVersionResource gv (ar_Name res) (ar_Kind res) ns)
         (StripMetadata u) c)))"
proof -
  let ?rk = "ResourceKey apiVersion (ar_Kind res) ns nm"
  have l: "storer_List ns apiVersion (ar_Kind res) nm (Plain s) = Ok (sort_revs live)"
    using ns_List_spec [OF assms(3,4)] by (simp add: storer_List_def live_def live_revs_def)
  obtain rv rest where rv: "select_version v (sort_revs live) = rv # rest" "rv \<in> set live"
    using select_version_live [OF assms(6,13)] by blast
  then have "rv \<in> set (stored_revs (s_backend s))" and rk: "rev_ResourceKey rv = ?rk"
    by (auto simp: live_def live_revs_def)
  then obtain r where lazy: "rv = LazyLoadingRevision r None" using stored_revs_valid(3) [OF assms(3)] by blast
  have "fst (ns_Get rv s) = Ok (Some (RevisionFrom (s_clock s (s_ticks s)) u))"
    using ns_Get_latest [OF assms(3,4), of rv b d u] assms(5,13-16) rk by (simp add: live_def)
  then have "fst (Content rv s) = Ok u"
    by (cases "ns_Get rv s") (simp add: lazy RevisionFrom_def split_beta)
  then obtain s' rv' where "Content rv s = (Ok u, (s', rv'))" by (metis prod.exhaust fst_conv)
  then have cont: "storer_Content rv (Plain s) = (Ok u, (Plain s', rv'))" by (simp add: storer_Content_def)
  have sel: "select_time v (ce_now env) (select_version v (sort_revs live)) = rv # rest"
    using rv(1) assms(7,8) by (simp add: select_time_none)
  let ?dyn = "ClientForGroupVersionResource gv (ar_Name res) (ar_Kind res) ns"
  obtain r1 c1 where cr: "Dynamic_Create api ?dyn (StripMetadata u) c = (r1, c1)" by fastforce
  show ?thesis
    using assms(1,2,9,10) l sel cont cr
    by (cases r1)
      (simp_all add: revisions_run_def revisions_apply_def revisions_to_cluster_def revisions_create_def
        Let_def ns_def)
qed

text \<open>
  A store whose objects differ: each holds its own key, and the codec decodes version 10 to
  \<open>web_obj\<close> and every other to an empty object.  The cluster collects what is created.
\<close>

definition keyed_store :: store where
  "keyed_store = sample_store\<lparr>
     s_backend := sample_backend\<lparr>be_bucket := sample_bucket\<lparr>blobs := map (\<lambda>(k, d). (k, k)) (blobs sample_bucket)\<rparr>\<rparr>,
     s_codec := \<lparr>json_marshal = (\<lambda>_. Ok ''{}''), json_unmarshal = (\<lambda>d.
       Ok (if d = ''apps/v1/Deployment/default/web/10-1700000060.json'' then web_obj else []))\<rparr>\<rparr>"

definition collecting_api :: "object list cluster_api" where
  "collecting_api = \<lparr>ca_init = Ok (), ca_Create = (\<lambda>d obj c. (Ok obj, c @ [obj])),
     ca_Get = (\<lambda>d nm c. Err ErrNotFound), ca_Patch = (\<lambda>d nm p data c. (Ok [], c)),
     ca_IsNotFound = (\<lambda>e. e = ErrNotFound), ca_CreateMergePatch = (\<lambda>a b. Ok [])\<rparr>"

lemma keyed_keys: "map fst (blobs (be_bucket (s_backend keyed_store))) = map fst (blobs (be_bucket sample_backend))"
  by (simp add: keyed_store_def sample_eval)

lemma keyed_live: "live_revs rk (s_backend keyed_store) = live_revs rk sample_backend"
  unfolding live_revs_def stored_revs_def keyed_keys ..

lemma keyed_wf: "backend_wf (s_backend keyed_store)" "fault_free (s_backend keyed_store)"
proof -
  have "go_wf (blobs (be_bucket (s_backend keyed_store)))"
    using sample_wf(2) keyed_keys by (simp add: backend_wf_def go_wf_def)
  moreover have "fst ` set (blobs (be_bucket (s_backend keyed_store))) = fst ` set (blobs (be_bucket sample_backend))"
    by (simp flip: set_map add: keyed_keys)
  ultimately show "backend_wf (s_backend keyed_store)"
    using sample_wf(2) by (fastforce simp: backend_wf_def image_iff)
  show "fault_free (s_backend keyed_store)" by (simp add: keyed_store_def fault_free_def sample_bucket_def)
qed

text \<open>Asked for version 9 the command creates version 10.\<close>

theorem apply_creates_latest_witness:
  "\<forall>env. \<exists>r st'. revisions_run (revision_flags 9) env collecting_api ''apply'' ''deploy'' ''web'' web_config
       (Plain keyed_store) [] = (r, (st', [StripMetadata web_obj]))"
proof
  fix env
  let ?v = "revision_flags 9" and ?rk = "''apps/v1/Deployment/default/web''"
  have flags: "GetString ?v ''revision'' \<noteq> []" "GetInt ?v ''at'' = 0" "GetInt ?v ''ago'' = 0"
    "GetString ?v ''namespace'' = ''default''" "\<not> GetBool ?v ''overwrite''"
    by (simp_all add: revision_flags_def number_eval)
  have gv: "ParseGroupVersion ''apps/v1'' = Ok \<lparr>gv_group = ''apps'', gv_version = ''v1''\<rparr>"
    by (simp add: ParseGroupVersion_def)
  have last: "last (sort_revs (live_revs ?rk sample_backend)) = LazyLoadingRevision (web_rev 10 1700000060 False) None"
    by (simp add: sample_live sort_revs_def ResourceVersion_def) (simp add: web_rev_def)
  have store: "s_latestCache keyed_store = []" "s_encrypter keyed_store = None"
    "json_unmarshal (s_codec keyed_store) ''apps/v1/Deployment/default/web/10-1700000060.json'' = Ok web_obj"
    "backend_objs (s_backend keyed_store) ''apps/v1/Deployment/default/web/10-1700000060.json''
       = Some ''apps/v1/Deployment/default/web/10-1700000060.json''"
    by (simp_all add: keyed_store_def backend_objs_def sample_eval)
  have api: "ca_init collecting_api = Ok ()" by (simp add: collecting_api_def)
  have live: "live_revs ?rk (s_backend keyed_store) \<noteq> []" by (simp add: keyed_live sample_live)
  have blob: "backend_objs (s_backend keyed_store) (rev_Key (last (sort_revs (live_revs ?rk (s_backend keyed_store)))))
      = Some ''apps/v1/Deployment/default/web/10-1700000060.json''"
    by (simp add: keyed_live last sample_keys store)
  from apply_creates_latest [where nm = "''web''", OF web_mapping gv keyed_wf store(1) flags(1-3,5) api,
      unfolded flags web_resource, OF live blob _ store(3), of env "[]"]
  show "\<exists>r st'. revisions_run ?v env collecting_api ''apply'' ''deploy'' ''web'' web_config
       (Plain keyed_store) [] = (r, (st', [StripMetadata web_obj]))"
    by (simp add: store(2) Dynamic_Create_def collecting_api_def)
qed

section \<open>Reading leaves the store alone\<close>

lemma or_die_cases:
  obtains x where "r = Ok x" "or_die env what r = Ok x" | e where "or_die env what r = Crash e"
  by (cases r) (auto simp: or_die_def)

lemma revisions_get_backend:
  assumes "revisions_get v env out s = (r, s')"
  shows "s_backend s' = s_backend s"
proof -
  let ?enc = "if GetBool v ''with-content'' then RevisionList_MarshalJSONWithContent (ce_encode env) [] ''  '' out s
      else (ce_encode env [] ''  '' (revisions_json out), s)"
  obtain b s1 where e: "?enc = (b, s1)" by fastforce
  then have "s_backend s1 = s_backend s"
    using RevisionList_export_backend by (auto split: if_splits)
  moreover have "s' = s \<or> s' = s1"
    using assms e unfolding revisions_get_def Let_def on_ok_def
    by (auto split: if_splits prod.splits result.splits)
  ultimately show ?thesis by auto
qed

lemma state_show_backend:
  assumes "state_show v env opt sn state s = (r, s')"
  shows "s_backend s' = s_backend s"
proof -
  let ?enc = "if GetBool v ''with-content'' then State_MarshalJSONWithContent (ce_encode env) [] ''  '' state s
      else if GetBool v ''only-content'' then State_MarshalJSONOnlyContent (ce_encode env) [] ''  '' state s
      else (ce_encode env [] ''  '' (VMap (map (\<lambda>(k, revs). (k, revisions_json revs)) state)), s)"
  obtain b s1 where e: "?enc = (b, s1)" by fastforce
  then have "s_backend s1 = s_backend s"
    using State_export_backend only_content_backend
    by (auto simp: State_MarshalJSONOnlyContent_def split: if_splits)
  moreover have "s' = s \<or> s' = s1"
    using assms e unfolding state_show_def Let_def on_ok_def
    by (auto split: if_splits prod.splits result.splits)
  ultimately show ?thesis by auto
qed

lemma write_revisions_backend:
  "s_backend (fst (snd (write_revisions env fs root_dir revs out sf))) = s_backend (fst sf)"
proof (induction revs arbitrary: out sf)
  case (Cons rv revs)
  obtain s f where sf: "sf = (s, f)" by fastforce
  obtain ru s1 rv1 where c: "Content rv s = (ru, (s1, rv1))" by (metis surj_pair)
  then have b: "s_backend s1 = s_backend s" using Content_backend [of rv s] by simp
  let ?P = "\<lambda>t. s_backend (fst t) = s_backend s"
  show ?case
    unfolding sf write_revisions.simps c prod.case fst_conv
    by (intro on_ok_keeps [where P = ?P]) (auto simp: b Let_def Cons.IH split: prod.split intro!: on_ok_keeps [where P = ?P])
qed simp

lemma write_state_backend:
  "s_backend (fst (snd (write_state env fs root_dir state out sf))) = s_backend (fst sf)"
proof (induction state arbitrary: out sf)
  case (Cons p state)
  obtain s f where sf: "sf = (s, f)" by fastforce
  obtain key revs where p: "p = (key, revs)" by fastforce
  obtain r1 f1 where m: "MkdirAll fs (path_join [root_dir, key]) f = (r1, f1)" by fastforce
  obtain r2 t where w: "write_revisions env fs root_dir revs out (s, f1) = (r2, t)" by (metis surj_pair)
  then have b: "s_backend (fst t) = s_backend s"
    using write_revisions_backend [of env fs root_dir revs out "(s, f1)"] by simp
  let ?P = "\<lambda>t. s_backend (fst t) = s_backend s"
  show ?case
    unfolding sf p write_state.simps m Let_def prod.case fst_conv
    by (intro on_ok_keeps [where P = ?P])
      (auto simp: b w Cons.IH intro!: on_ok_keeps [where P = ?P])
qed simp

lemma state_output_backend:
  "s_backend (storer_base (fst (snd (state_output v env fs opt sn state st f)))) = s_backend (storer_base st)"
proof (cases "GetString v ''directory'' = []")
  case True
  obtain r s where "state_show v env opt sn state (storer_base st) = (r, s)" by fastforce
  then show ?thesis using True state_show_backend by (simp add: state_output_def)
next
  case False
  obtain r s f' where "write_state env fs (GetString v ''directory'') state [] (storer_base st, f) = (r, (s, f'))"
    by (metis surj_pair)
  then show ?thesis
    using False write_state_backend [of env fs "GetString v ''directory''" state "[]" "(storer_base st, f)"]
    by (cases r) (simp_all add: state_output_def)
qed

lemma state_run_backend:
  "s_backend (storer_base (fst (snd (state_run v env fs args config (Plain s) f)))) = s_backend s"
proof (cases "state_options v env config args")
  case (Ok opts)
  show ?thesis
  proof (cases opts)
    case (Inr o')
    obtain opt namespaced where o: "o' = (opt, namespaced)" by fastforce
    obtain r s1 where st: "store_State opt s = (r, s1)" by fastforce
    then have "s_backend s1 = s_backend s" using store_State_backend [of opt s] by simp
    then show ?thesis
      using Ok Inr o st
      by (auto simp: state_run_def storer_State_def Let_def state_output_backend
          intro!: on_ok_keeps [where P = "\<lambda>t. s_backend (storer_base (fst t)) = s_backend s"])
  qed (simp add: Ok state_run_def)
qed (simp_all add: state_run_def)

text \<open>C25: \<open>revisions get\<close> and \<open>state\<close> leave every object of the store as it was, and \<open>revisions get\<close> also
  the cluster, whatever they show and however they end.\<close>

theorem read_commands_keep_backend:
  "s_backend (storer_base (fst (snd (revisions_run v env api ''get'' a1 nm config st c)))) = s_backend (storer_base st)
   \<and> snd (snd (revisions_run v env api ''get'' a1 nm config st c)) = c
   \<and> s_backend (storer_base (fst (snd (state_run v env fs args config (Plain s) f)))) = s_backend s"
proof -
  have "s_backend (storer_base (fst (snd (revisions_run v env api ''get'' a1 nm config st c)))) = s_backend (storer_base st)
      \<and> snd (snd (revisions_run v env api ''get'' a1 nm config st c)) = c"
    by (auto simp: revisions_run_def Let_def dest: revisions_get_backend split: result.split prod.split)
  then show ?thesis using state_run_backend by simp
qed

section \<open>The files of state --directory\<close>

definition key_stem :: "revision \<Rightarrow> string" where
  "key_stem r = itoa (resourceVersion_of r) @ ''-'' @ itoa (unix_of (timestamp_of r))"

lemma path_join_root:
  assumes "plain_elem dir" "valid_revision r"
  shows "path_join [dir, revision_Key r] = dir @ CHR ''/'' # revision_Key r"
proof -
  let ?es = "key_elems r @ [revision_RevisionKey r]"
  have key: "revision_Key r = join_with CHR ''/'' ?es" by (rule Key_valid [OF assms(2)])
  have plain: "\<forall>e \<in> set ?es. plain_elem e" using key_elems_plain [OF assms(2)] RevisionKey_plain by simp
  have el: "path_elems (revision_Key r) = ?es" unfolding key by (rule plain_elems_join [OF plain])
  obtain e es where es: "?es = e # es" by (cases ?es) auto
  then have "plain_elem e" using plain by auto
  then have hd: "hd (revision_Key r) \<noteq> CHR ''/''"
    using join_hd [of e "CHR ''/''" es] plain_hd [of e] unfolding key es by auto
  have "path_join [dir, revision_Key r] = join_with CHR ''/'' (concat (map path_elems [dir, revision_Key r]))"
    using assms(1) hd plain el by (intro path_join_plain) (auto dest: plain_hd)
  also have "\<dots> = dir @ CHR ''/'' # join_with CHR ''/'' ?es"
    using assms(1) unfolding list.map el concat.simps es by simp
  finally show ?thesis by (simp add: key)
qed

lemma Key_ext:
  assumes "valid_revision r"
  shows "revision_Key r = revision_ResourceKey r @ CHR ''/'' # key_stem r
      @ (if deleted_of r then ''.json'' else []) @ path_ext (revision_Key r)"
    "path_ext (revision_Key r) = (if deleted_of r then ''.deleted'' else ''.json'')"
proof -
  have k: "revision_Key r = revision_ResourceKey r @ CHR ''/'' # revision_RevisionKey r"
    by (rule Key_split [OF assms])
  have f: "revision_RevisionKey r = key_stem r @ (if deleted_of r then ''.json.deleted'' else ''.json'')"
    by (simp add: revision_RevisionKey_def key_stem_def)
  have "takeWhile (\<lambda>c. c \<noteq> CHR ''/'') (rev (revision_Key r)) = rev (revision_RevisionKey r)"
    unfolding k using RevisionKey_no_slash [of r] by (simp add: takeWhile_append)
  then show "path_ext (revision_Key r) = (if deleted_of r then ''.deleted'' else ''.json'')"
    by (simp add: path_ext_def f takeWhile_append)
  then show "revision_Key r = revision_ResourceKey r @ CHR ''/'' # key_stem r
      @ (if deleted_of r then ''.json'' else []) @ path_ext (revision_Key r)"
    using k f by simp
qed

lemma revision_file_eq:
  assumes "plain_elem dir" "valid_revision (meta rv)"
  shows "revision_file dir rv = dir @ CHR ''/'' # rev_ResourceKey rv @ CHR ''/'' # key_stem (meta rv)
     @ (if Deleted rv then ''.json'' else []) @ ''.yaml''"
proof -
  let ?e = "path_ext (rev_Key rv)" and ?s = "rev_ResourceKey rv @ CHR ''/'' # key_stem (meta rv)
     @ (if deleted_of (meta rv) then ''.json'' else [])"
  have "path_join [dir, rev_Key rv] = (dir @ CHR ''/'' # ?s) @ ?e"
    using path_join_root [OF assms] Key_ext(1) [OF assms(2)] by simp
  then have "trim_suffix (path_join [dir, rev_Key rv]) ?e = dir @ CHR ''/'' # ?s"
    by (simp add: trim_suffix_def has_suffix_def)
  then show ?thesis by (simp add: revision_file_def Deleted_def)
qed

lemma key_stem_chars: "CHR ''.'' \<notin> set (key_stem r)" "CHR ''/'' \<notin> set (key_stem r)"
  by (auto simp: key_stem_def)

lemma key_stem_split:
  assumes "key_stem r @ (if d then ''.json'' else []) = key_stem r' @ (if d' then ''.json'' else [])"
  shows "key_stem r = key_stem r' \<and> (d \<longleftrightarrow> d')"
proof -
  have "takeWhile (\<lambda>c. c \<noteq> CHR ''.'') (key_stem r @ (if d then ''.json'' else [])) = key_stem r" for r and d :: bool
    using key_stem_chars(1) [of r] by (simp add: takeWhile_append)
  from this [of r d] this [of r' d'] have "key_stem r = key_stem r'" using assms by simp
  then show ?thesis using assms by (simp split: if_splits)
qed

text \<open>The files that \<open>state --directory\<close> writes revisions to lie in the directory of their resource
  and differ for different revisions, deleted ones included.\<close>

theorem export_files_distinct:
  assumes "plain_elem dir" "valid_revision (meta rv)" "valid_revision (meta rv')"
  shows "(revision_file dir rv = revision_file dir rv' \<longleftrightarrow> rev_Key rv = rev_Key rv')
    \<and> (\<exists>f. revision_file dir rv = dir @ CHR ''/'' # rev_ResourceKey rv @ CHR ''/'' # f \<and> CHR ''/'' \<notin> set f)"
proof (intro conjI iffI)
  let ?t = "\<lambda>rv. key_stem (meta rv) @ (if Deleted rv then ''.json'' else [])"
  have no_slash: "CHR ''/'' \<notin> set (?t rv)" for rv using key_stem_chars(2) by simp
  assume "revision_file dir rv = revision_file dir rv'"
  then have eq: "rev_ResourceKey rv @ CHR ''/'' # ?t rv = rev_ResourceKey rv' @ CHR ''/'' # ?t rv'"
    using revision_file_eq [OF assms(1,2)] revision_file_eq [OF assms(1,3)] by simp
  then have rk: "rev_ResourceKey rv = rev_ResourceKey rv'"
    using last_slash_unique no_slash by blast
  with eq have "?t rv = ?t rv'" by simp
  from key_stem_split [OF this] show "rev_Key rv = rev_Key rv'"
    using rk Key_ext [OF assms(2)] Key_ext [OF assms(3)] by (simp add: Deleted_def)
next
  show "\<exists>f. revision_file dir rv = dir @ CHR ''/'' # rev_ResourceKey rv @ CHR ''/'' # f \<and> CHR ''/'' \<notin> set f"
    using revision_file_eq [OF assms(1,2)] key_stem_chars(2) by auto
qed (simp add: revision_file_def)

theorem export_files_distinct_witness:
  "revision_file ''out'' (LazyLoadingRevision (web_rev 9 1700000000 False) None)
     \<noteq> revision_file ''out'' (LazyLoadingRevision (web_rev 10 1700000060 False) None)"
  using export_files_distinct [of "''out''" "LazyLoadingRevision (web_rev 9 1700000000 False) None"
      "LazyLoadingRevision (web_rev 10 1700000060 False) None"]
  by (simp add: plain_elem_def sample_keys)

section \<open>Exports with content\<close>

text \<open>The export of a list of loaded revisions is the JSON list of one encoded revision for each,
  in their order; each has the content of its revision, but the time of the export, and is never
  marked deleted, whatever the revision is.\<close>

theorem export_with_content:
  assumes "encodes enc f" "\<forall>rv \<in> set revs. loaded rv \<noteq> None" "s_clock s = (\<lambda>_. now)"
  shows "\<exists>n vs. RevisionList_MarshalJSONWithContent enc pre indent revs s
      = (Ok (pre @ ''['' @ str_join '','' (map (\<lambda>v. [newline] @ pre @ indent @ f (pre @ indent) indent v) vs)
           @ [newline] @ pre @ '']''), s\<lparr>s_ticks := n\<rparr>)
    \<and> list_all2 (\<lambda>rv v. \<exists>m u. v = VMap m \<and> loaded rv = Some u \<and> go_get m ''content'' = Some (VMap u)
        \<and> go_get m ''revisionTimestamp'' = Some (VInt (unix_of now))
        \<and> go_get m ''deleted'' = Some (VBool False)) revs vs"
proof -
  let ?vs = "map (\<lambda>rv. exported now (the (loaded rv))) revs"
  obtain n where "RevisionList_MarshalJSONWithContent enc pre indent revs s
      = (Ok (pre @ ''['' @ str_join '','' (map (export_entry f now pre indent) revs) @ [newline] @ pre @ '']''),
         s\<lparr>s_ticks := n\<rparr>)" using RevisionList_export [OF assms] by blast
  then have out: "RevisionList_MarshalJSONWithContent enc pre indent revs s
      = (Ok (pre @ ''['' @ str_join '','' (map (\<lambda>v. [newline] @ pre @ indent @ f (pre @ indent) indent v) ?vs)
           @ [newline] @ pre @ '']''), s\<lparr>s_ticks := n\<rparr>)"
    by (simp add: export_entry_def [abs_def] o_def)
  have "list_all2 (\<lambda>rv v. \<exists>m u. v = VMap m \<and> loaded rv = Some u \<and> go_get m ''content'' = Some (VMap u)
        \<and> go_get m ''revisionTimestamp'' = Some (VInt (unix_of now))
        \<and> go_get m ''deleted'' = Some (VBool False)) revs ?vs"
    unfolding list_all2_map2 list_all2_same using assms(2) exported_fields [of now] by fastforce
  then show ?thesis using out by blast
qed

text \<open>An encoder that shows whether a revision is deleted: a deleted one is exported as one that is not.\<close>

definition shows_deleted :: "json \<Rightarrow> string" where
  "shows_deleted v = (case v of
     VMap m \<Rightarrow> if go_get m ''deleted'' = Some (VBool False) then ''alive'' else ''deleted''
   | _ \<Rightarrow> [])"

theorem export_with_content_witness:
  "\<exists>n. RevisionList_MarshalJSONWithContent (\<lambda>pre indent v. Ok (shows_deleted v)) [] []
       [LazyLoadingRevision (web_rev 9 1700000000 True) (Some web_obj)] sample_store
     = (Ok (''['' @ [newline] @ ''alive'' @ [newline] @ '']''), sample_store\<lparr>s_ticks := n\<rparr>)"
proof -
  let ?rv = "LazyLoadingRevision (web_rev 9 1700000000 True) (Some web_obj)"
  have a: "encodes (\<lambda>pre indent v. Ok (shows_deleted v)) (\<lambda>_ _. shows_deleted)"
    "\<forall>rv \<in> set [?rv]. loaded rv \<noteq> None" "s_clock sample_store = (\<lambda>_. 0)"
    by (simp_all add: encodes_def sample_store_def)
  from export_with_content [OF a, of "[]" "[]"] obtain n vs where
    "RevisionList_MarshalJSONWithContent (\<lambda>pre indent v. Ok (shows_deleted v)) [] [] [?rv] sample_store
      = (Ok (''['' @ str_join '','' (map (\<lambda>v. [newline] @ shows_deleted v) vs) @ [newline] @ '']''),
         sample_store\<lparr>s_ticks := n\<rparr>)"
    "list_all2 (\<lambda>rv v. \<exists>m u. v = VMap m \<and> loaded rv = Some u \<and> go_get m ''content'' = Some (VMap u)
        \<and> go_get m ''revisionTimestamp'' = Some (VInt (unix_of 0))
        \<and> go_get m ''deleted'' = Some (VBool False)) [?rv] vs" by auto
  then show ?thesis by (auto simp: list_all2_Cons1 shows_deleted_def)
qed

end
