(* ===== verification/Durations.thy ===== *)
theory Durations
  imports Policy
begin

text \<open>
  The durations of a policy (pkg/rpo/rpo.go): their JSON form is the text that \<open>Duration.String\<close>
  of Go's time package prints and \<open>ParseDuration\<close> reads, as of Go 1.12.  A duration is a number
  of nanoseconds of 64 bits.
\<close>

section \<open>Printing\<close>

text \<open>
  \<open>fmtFrac\<close>: \<open>prec\<close> digits from the end of the value, without trailing zeros, and what is left of
  it.  \<open>pr\<close> says whether a digit other than zero has been seen.
\<close>

fun fmtFrac_loop :: "nat \<Rightarrow> nat \<Rightarrow> bool \<Rightarrow> string \<Rightarrow> bool \<times> string \<times> nat" where
  "fmtFrac_loop 0 v pr out = (pr, out, v)"
| "fmtFrac_loop (Suc i) v pr out =
     (let digit = v mod 10; pr = (pr \<or> digit \<noteq> 0)
      in fmtFrac_loop i (v div 10) pr (if pr then digit_char digit # out else out))"

definition fmtFrac :: "nat \<Rightarrow> nat \<Rightarrow> string \<times> nat" where
  "fmtFrac v prec = (case fmtFrac_loop prec v False [] of (pr, out, v) \<Rightarrow> (if pr then CHR ''.'' # out else out, v))"

definition micro_sign :: string where "micro_sign = [CHR 0xC2, CHR 0xB5]"

definition Duration_String :: "int \<Rightarrow> string" where
  "Duration_String d =
     (let u = nat \<bar>d\<bar>; sign = (if d < 0 then ''-'' else []) in
      if u < 1000000000 then
        if u = 0 then ''0s''
        else
          let (prec, unit) = (if u < 1000 then (0, ''ns'') else if u < 1000000 then (3, micro_sign @ ''s'')
                else (6, ''ms''));
              (frac, v) = fmtFrac u prec
          in sign @ nat_digits v @ frac @ unit
      else
        let (frac, v) = fmtFrac u 9;
            out = nat_digits (v mod 60) @ frac @ ''s'';
            v = v div 60
        in if v = 0 then sign @ out
           else
             let out = nat_digits (v mod 60) @ ''m'' @ out; v = v div 60
             in if v = 0 then sign @ out else sign @ nat_digits v @ ''h'' @ out)"

section \<open>Parsing\<close>

abbreviation is_digit :: "char \<Rightarrow> bool" where
  "is_digit c \<equiv> digit_val c \<noteq> None"

definition int63 :: nat where "int63 = 9223372036854775807"

text \<open>\<open>None\<close> is the overflow.\<close>

fun leadingInt :: "nat \<Rightarrow> string \<Rightarrow> (nat \<times> string) option" where
  "leadingInt x [] = Some (x, [])"
| "leadingInt x (c # s) = (case digit_val c of
     None \<Rightarrow> Some (x, c # s)
   | Some d \<Rightarrow>
       if x > int63 div 10 then None
       else if x * 10 + d > int63 then None else leadingInt (x * 10 + d) s)"

text \<open>After an overflow the digits are skipped.  \<open>scale\<close> is the power of ten.\<close>

fun leadingFraction :: "nat \<Rightarrow> nat \<Rightarrow> bool \<Rightarrow> string \<Rightarrow> nat \<times> nat \<times> string" where
  "leadingFraction x scale overflow [] = (x, scale, [])"
| "leadingFraction x scale overflow (c # s) = (case digit_val c of
     None \<Rightarrow> (x, scale, c # s)
   | Some d \<Rightarrow>
       if overflow then leadingFraction x scale True s
       else if x > int63 div 10 \<or> x * 10 + d > int63 then leadingFraction x scale True s
       else leadingFraction (x * 10 + d) (scale * 10) False s)"

definition unitMap :: "(string \<times> nat) list" where
  "unitMap = [(''ns'', 1), (''us'', 1000), (micro_sign @ ''s'', 1000), ([CHR 0xCE, CHR 0xBC] @ ''s'', 1000),
     (''ms'', 1000000), (''s'', 1000000000), (''m'', 60000000000), (''h'', 3600000000000)]"

text \<open>
  \<open>scaled f unit scale\<close> is \<open>int64(float64(f) * (float64(unit) / scale))\<close>, a parameter: it is exact when the
  scale divides the unit, as the quotient and the product are then integers below 2 to the 53.
\<close>

type_synonym float_scale = "nat \<Rightarrow> nat \<Rightarrow> nat \<Rightarrow> nat"

definition float_exact :: "float_scale \<Rightarrow> bool" where
  "float_exact scaled \<longleftrightarrow> (\<forall>f unit scale. scale dvd unit \<and> unit \<le> 3600000000000 \<and> f < scale \<longrightarrow>
     scaled f unit scale = f * (unit div scale))"

definition invalid_duration :: "string \<Rightarrow> 'a result" where
  "invalid_duration orig = Err (ErrMsg (''time: invalid duration '' @ orig))"

text \<open>The digits before and after the dot, whether there are any, and the text after them.\<close>

definition parse_number :: "string \<Rightarrow> (nat \<times> nat \<times> nat \<times> bool \<times> string) option" where
  "parse_number s = (case leadingInt 0 s of
     None \<Rightarrow> None
   | Some (v, s1) \<Rightarrow>
       let pre = (length s \<noteq> length s1) in
       (case s1 of
          c # s2 \<Rightarrow>
            if c = CHR ''.'' then
              (case leadingFraction 0 1 False s2 of (f, scale, s3) \<Rightarrow>
                 Some (v, f, scale, pre \<or> length s2 \<noteq> length s3, s3))
            else Some (v, 0, 1, pre, s1)
        | [] \<Rightarrow> Some (v, 0, 1, pre, s1)))"

definition unit_chars :: "string \<Rightarrow> string" where
  "unit_chars s = takeWhile (\<lambda>c. \<not> (c = CHR ''.'' \<or> is_digit c)) s"

definition apply_unit :: "float_scale \<Rightarrow> string \<Rightarrow> nat \<Rightarrow> nat \<Rightarrow> nat \<Rightarrow> string \<Rightarrow> (nat \<times> string) result" where
  "apply_unit scaled orig v f scale s =
     (let u = unit_chars s in
      if u = [] then Err (ErrMsg (''time: missing unit in duration '' @ orig))
      else case map_of unitMap u of
          None \<Rightarrow> Err (ErrMsg (''time: unknown unit '' @ u @ '' in duration '' @ orig))
        | Some unit \<Rightarrow>
            if v > int63 div unit then invalid_duration orig
            else
              let v = v * unit + (if f > 0 then scaled f unit scale else 0)
              in if f > 0 \<and> v > int63 then invalid_duration orig else Ok (v, drop (length u) s))"

text \<open>One number with its unit: its value and the text after it.\<close>

definition parse_component :: "float_scale \<Rightarrow> string \<Rightarrow> string \<Rightarrow> (nat \<times> string) result" where
  "parse_component scaled orig s =
     (if \<not> (hd s = CHR ''.'' \<or> is_digit (hd s)) then invalid_duration orig
      else case parse_number s of
        None \<Rightarrow> invalid_duration orig
      | Some (v, f, scale, some, s') \<Rightarrow>
          if \<not> some then invalid_duration orig else apply_unit scaled orig v f scale s')"

lemma leadingInt_length: "leadingInt x s = Some (v, s') \<Longrightarrow> length s' \<le> length s"
  by (induction x s rule: leadingInt.induct) (auto split: option.splits if_splits)

lemma leadingFraction_length: "leadingFraction x scale ov s = (f, sc, s') \<Longrightarrow> length s' \<le> length s"
  by (induction x scale ov s rule: leadingFraction.induct) (auto split: option.splits if_splits)

lemma parse_number_length: "parse_number s = Some (v, f, scale, some, s') \<Longrightarrow> length s' \<le> length s"
  by (auto simp: parse_number_def Let_def split: option.splits list.splits if_splits prod.splits
      dest!: leadingInt_length leadingFraction_length)

lemma apply_unit_length: "apply_unit scaled orig v f scale s = Ok (v', rest) \<Longrightarrow> length rest < length s"
  using length_takeWhile_le [of "\<lambda>c. \<not> (c = CHR ''.'' \<or> is_digit c)" s]
  by (cases s) (auto simp: apply_unit_def unit_chars_def Let_def invalid_duration_def split: if_splits option.splits)

lemma parse_component_length: "parse_component scaled orig s = Ok (v, rest) \<Longrightarrow> length rest < length s"
  by (auto simp: parse_component_def invalid_duration_def split: if_splits option.splits
      dest!: parse_number_length apply_unit_length)

function parse_loop :: "float_scale \<Rightarrow> string \<Rightarrow> string \<Rightarrow> nat \<Rightarrow> nat result" where
  "parse_loop scaled orig s d =
     (if s = [] then Ok d
      else case parse_component scaled orig s of
        Err e \<Rightarrow> Err e
      | Crash c \<Rightarrow> Crash c
      | Ok (v, rest) \<Rightarrow>
          if d + v > int63 then invalid_duration orig else parse_loop scaled orig rest (d + v))"
  by auto
termination
  by (relation "measure (\<lambda>(scaled, orig, s, d). length s)") (auto dest: parse_component_length)

declare parse_loop.simps [simp del]

definition ParseDuration :: "float_scale \<Rightarrow> string \<Rightarrow> int result" where
  "ParseDuration scaled orig =
     (let signed = (orig \<noteq> [] \<and> (hd orig = CHR ''-'' \<or> hd orig = CHR ''+''));
          neg = (signed \<and> hd orig = CHR ''-'');
          s = (if signed then tl orig else orig)
      in if s = ''0'' then Ok 0
         else if s = [] then invalid_duration orig
         else result_bind (parse_loop scaled orig s 0) (\<lambda>d. Ok (if neg then - int d else int d)))"

section \<open>The JSON form\<close>

text \<open>
  \<open>enc\<close> and \<open>dec\<close> are the codec of package json on single values; \<open>number\<close> converts a number to
  \<open>float64\<close> and then to an integer.
\<close>

definition Duration_MarshalJSON :: "(json \<Rightarrow> string result) \<Rightarrow> int \<Rightarrow> string result" where
  "Duration_MarshalJSON enc d = enc (VString (Duration_String d))"

definition Duration_UnmarshalJSON :: "(string \<Rightarrow> json result) \<Rightarrow> (json \<Rightarrow> int) \<Rightarrow> float_scale \<Rightarrow> string \<Rightarrow> int result" where
  "Duration_UnmarshalJSON dec number scaled b = result_bind (dec b) (\<lambda>v. case v of
     VInt i \<Rightarrow> Ok (number v)
   | VFloat q \<Rightarrow> Ok (number v)
   | VString value \<Rightarrow> ParseDuration scaled value
   | _ \<Rightarrow> Err (ErrMsg ''invalid duration''))"

section \<open>Numbers read back\<close>

fun digits_value :: "nat \<Rightarrow> string \<Rightarrow> nat" where
  "digits_value x [] = x"
| "digits_value x (c # s) = digits_value (x * 10 + the (digit_val c)) s"

definition ends_number :: "string \<Rightarrow> bool" where
  "ends_number s \<longleftrightarrow> (case s of [] \<Rightarrow> True | c # _ \<Rightarrow> \<not> is_digit c)"

lemma digits_value_append: "digits_value x (s @ t) = digits_value (digits_value x s) t"
  by (induction s arbitrary: x) simp_all

lemma digits_value_ge: "x \<le> digits_value x s"
proof (induction s arbitrary: x)
  case (Cons c s)
  from Cons.IH [of "x * 10 + the (digit_val c)"] show ?case by simp
qed simp

lemma digits_value_shift: "digits_value x s = x * 10 ^ length s + digits_value 0 s"
proof (induction s arbitrary: x)
  case (Cons c s)
  from Cons.IH [of "x * 10 + the (digit_val c)"] Cons.IH [of "the (digit_val c)"] show ?case
    by (simp add: algebra_simps)
qed simp

lemma leadingInt_digits:
  "\<forall>c \<in> set ds. is_digit c \<Longrightarrow> ends_number rest \<Longrightarrow> digits_value x ds \<le> int63 \<Longrightarrow>
     leadingInt x (ds @ rest) = Some (digits_value x ds, rest)"
proof (induction ds arbitrary: x)
  case Nil
  then show ?case by (cases rest) (auto simp: ends_number_def split: option.split)
next
  case (Cons c ds)
  obtain d where d: "digit_val c = Some d" using Cons.prems(1) by auto
  have "x * 10 + d \<le> int63" using Cons.prems(3) digits_value_ge [of "x * 10 + d" ds] d by simp
  moreover from this have "\<not> x > int63 div 10" by (simp add: int63_def)
  ultimately show ?case using Cons d by simp
qed

lemma leadingFraction_digits:
  "\<forall>c \<in> set ds. is_digit c \<Longrightarrow> ends_number rest \<Longrightarrow> digits_value x ds \<le> int63 \<Longrightarrow>
     leadingFraction x scale False (ds @ rest) = (digits_value x ds, scale * 10 ^ length ds, rest)"
proof (induction ds arbitrary: x scale)
  case Nil
  then show ?case by (cases rest) (auto simp: ends_number_def split: option.split)
next
  case (Cons c ds)
  obtain d where d: "digit_val c = Some d" using Cons.prems(1) by auto
  have "x * 10 + d \<le> int63" using Cons.prems(3) digits_value_ge [of "x * 10 + d" ds] d by simp
  moreover from this have "\<not> x > int63 div 10" by (simp add: int63_def)
  ultimately show ?case using Cons d by (simp add: algebra_simps)
qed

lemma nat_digits_value:
  "digits_value 0 (nat_digits n) = n \<and> (\<forall>c \<in> set (nat_digits n). is_digit c)"
proof (induction n rule: nat_digits.induct)
  case (1 n)
  show ?case
  proof (cases "n < 10")
    case True
    then show ?thesis by (subst (1 2) nat_digits.simps) simp
  next
    case False
    with 1 show ?thesis by (subst (1 2) nat_digits.simps) (simp add: digits_value_append)
  qed
qed

text \<open>The fraction that is printed has the value of the digits it stands for.\<close>

lemma fmtFrac_loop_spec:
  assumes "\<forall>c \<in> set out. is_digit c" "pr \<longleftrightarrow> out \<noteq> []"
  shows "\<exists>ds. fmtFrac_loop i v pr out = (ds @ out \<noteq> [], ds @ out, v div 10 ^ i)
     \<and> (\<forall>c \<in> set ds. is_digit c) \<and> length ds \<le> i
     \<and> (if out = [] then digits_value 0 ds * 10 ^ (i - length ds) = v mod 10 ^ i
        else length ds = i \<and> digits_value 0 ds = v mod 10 ^ i)"
  using assms
proof (induction i arbitrary: v pr out)
  case (Suc i)
  define dg where "dg = v mod 10"
  have dg: "dg < 10" by (simp add: dg_def)
  have mod: "v mod 10 ^ Suc i = (v div 10 mod 10 ^ i) * 10 + dg"
    by (simp add: dg_def mod_mult2_eq)
  have div: "v div 10 div 10 ^ i = v div 10 ^ Suc i" by (simp add: div_mult2_eq)
  show ?case
  proof (cases "pr \<or> dg \<noteq> 0")
    case True
    let ?out = "digit_char dg # out"
    have "\<forall>c \<in> set ?out. is_digit c" using Suc.prems(1) dg by simp
    from Suc.IH [OF this, of True "v div 10"] obtain ds where ds:
      "fmtFrac_loop i (v div 10) True ?out = (True, ds @ ?out, v div 10 ^ Suc i)"
      "\<forall>c \<in> set ds. is_digit c" "length ds = i" "digits_value 0 ds = v div 10 mod 10 ^ i"
      unfolding div by auto
    have step: "fmtFrac_loop (Suc i) v pr out = fmtFrac_loop i (v div 10) True ?out"
      using True unfolding fmtFrac_loop.simps Let_def dg_def [symmetric] by simp
    have "digits_value 0 (ds @ [digit_char dg]) = v mod 10 ^ Suc i"
      unfolding mod using dg by (simp add: digits_value_append ds(4))
    then show ?thesis
      unfolding step ds(1) using ds(2,3) dg by (intro exI [of _ "ds @ [digit_char dg]"]) simp
  next
    case False
    then have o: "out = []" "dg = 0" "\<not> pr" using Suc.prems(2) by auto
    from Suc.IH [of "[]" False "v div 10"] obtain ds where ds:
      "fmtFrac_loop i (v div 10) False [] = (ds \<noteq> [], ds, v div 10 ^ Suc i)"
      "\<forall>c \<in> set ds. is_digit c" "length ds \<le> i" "digits_value 0 ds * 10 ^ (i - length ds) = v div 10 mod 10 ^ i"
      unfolding div by auto
    have step: "fmtFrac_loop (Suc i) v pr out = fmtFrac_loop i (v div 10) False []"
      using o unfolding fmtFrac_loop.simps Let_def dg_def [symmetric] by simp
    have "digits_value 0 ds * 10 ^ (Suc i - length ds) = v mod 10 ^ Suc i"
      unfolding mod o(2) ds(4) [symmetric] using ds(3) by (simp add: Suc_diff_le)
    then show ?thesis unfolding step ds(1) using ds(2,3) o(1) by (intro exI [of _ ds]) simp
  qed
qed simp

lemma fmtFrac_spec:
  obtains ds where "fmtFrac v prec = (if ds = [] then [] else CHR ''.'' # ds, v div 10 ^ prec)"
    "\<forall>c \<in> set ds. is_digit c" "length ds \<le> prec" "digits_value 0 ds * 10 ^ (prec - length ds) = v mod 10 ^ prec"
proof -
  from fmtFrac_loop_spec [of "[]" False prec v] obtain ds where
    "fmtFrac_loop prec v False [] = (ds \<noteq> [], ds, v div 10 ^ prec)" "\<forall>c \<in> set ds. is_digit c"
    "length ds \<le> prec" "digits_value 0 ds * 10 ^ (prec - length ds) = v mod 10 ^ prec" by auto
  then show ?thesis using that [of ds] by (simp add: fmtFrac_def)
qed

section \<open>Components read back\<close>

lemma digit_val_less: "digit_val c = Some d \<Longrightarrow> d < 10"
  by (auto simp: digit_val_def digit_table_def split: if_splits)

lemma digits_value_less: "\<forall>c \<in> set ds. is_digit c \<Longrightarrow> digits_value 0 ds < 10 ^ length ds"
proof (induction ds rule: rev_induct)
  case (snoc c ds)
  then obtain d where "digit_val c = Some d" by auto
  then have "the (digit_val c) < 10" using digit_val_less by simp
  moreover have "digits_value 0 ds < 10 ^ length ds" using snoc by simp
  ultimately show ?case by (simp add: digits_value_append)
qed simp

definition unit_name :: "string \<Rightarrow> bool" where
  "unit_name un \<longleftrightarrow> un \<noteq> [] \<and> (\<forall>c \<in> set un. c \<noteq> CHR ''.'' \<and> \<not> is_digit c)"

definition starts_number :: "string \<Rightarrow> bool" where
  "starts_number s \<longleftrightarrow> (case s of [] \<Rightarrow> True | c # _ \<Rightarrow> is_digit c)"

lemma unit_chars_name: "unit_name un \<Longrightarrow> starts_number rest \<Longrightarrow> unit_chars (un @ rest) = un"
  by (cases rest) (auto simp: unit_chars_def unit_name_def starts_number_def takeWhile_append)

lemma unit_name_ends: "unit_name un \<Longrightarrow> ends_number (un @ rest)"
  by (cases un) (auto simp: unit_name_def ends_number_def)

lemma dot_no_digit [simp]: "digit_val CHR ''.'' = None"
  by (simp add: digit_val_def digit_table_def)

lemma nat_digits_start: "\<exists>c s. nat_digits n = c # s \<and> is_digit c"
  using nat_digits_value [of n] nat_digits_not_Nil [of n] by (cases "nat_digits n") auto

lemma starts_digits [simp]: "starts_number (nat_digits n @ s)" "starts_number []"
  using nat_digits_start [of n] by (auto simp: starts_number_def)

lemma parse_number_printed:
  assumes "w \<le> int63" "\<forall>c \<in> set ds. is_digit c" "digits_value 0 ds \<le> int63" "unit_name un"
  shows "parse_number (nat_digits w @ (if ds = [] then [] else CHR ''.'' # ds) @ un @ rest)
    = Some (w, digits_value 0 ds, 10 ^ length ds, True, un @ rest)"
proof -
  let ?t = "(if ds = [] then [] else CHR ''.'' # ds) @ un @ rest"
  have "ends_number ?t" using unit_name_ends [OF assms(4), of rest] by (simp add: ends_number_def)
  then have i: "leadingInt 0 (nat_digits w @ ?t) = Some (w, ?t)"
    using leadingInt_digits [of "nat_digits w" ?t 0] nat_digits_value [of w] assms(1) by simp
  show ?thesis
  proof (cases "ds = []")
    case True
    obtain c s where "un = c # s" "c \<noteq> CHR ''.''" using assms(4) by (cases un) (auto simp: unit_name_def)
    then show ?thesis using i True by (simp add: parse_number_def)
  next
    case False
    then show ?thesis
      using i leadingFraction_digits [OF assms(2) unit_name_ends [OF assms(4)] assms(3), of 1 rest]
      by (simp add: parse_number_def)
  qed
qed

lemma parse_component_printed:
  fixes w :: nat
  assumes "float_exact scaled" "\<forall>c \<in> set ds. is_digit c" "unit_name un" "starts_number rest"
    "map_of unitMap un = Some unit" "10 ^ length ds dvd unit" "0 < unit" "unit \<le> 3600000000000"
  defines "value' \<equiv> w * unit + digits_value 0 ds * (unit div 10 ^ length ds)"
  assumes "value' \<le> int63"
  shows "parse_component scaled orig (nat_digits w @ (if ds = [] then [] else CHR ''.'' # ds) @ un @ rest)
    = Ok (value', rest)"
proof -
  let ?f = "digits_value 0 ds"
  have f: "?f < 10 ^ length ds" by (rule digits_value_less [OF assms(2)])
  also have "\<dots> \<le> unit" using assms(6,7) by (rule dvd_imp_le)
  finally have f63: "?f \<le> int63" using assms(8) by (simp add: int63_def)
  have "w * unit \<le> int63" using assms(10) by (simp add: value'_def)
  then have wu: "w \<le> int63 div unit" using assms(7) by (simp add: less_eq_div_iff_mult_less_eq)
  then have w: "w \<le> int63" using div_le_dividend order_trans by blast
  obtain c s where start: "nat_digits w = c # s" "is_digit c" using nat_digits_start by blast
  have sc: "scaled ?f unit (10 ^ length ds) = ?f * (unit div 10 ^ length ds)"
    using assms(1,6,8) f by (simp add: float_exact_def)
  have "apply_unit scaled orig w ?f (10 ^ length ds) (un @ rest) = Ok (value', rest)"
    using assms(3,5,10) wu sc unit_chars_name [OF assms(3,4)]
    by (auto simp: apply_unit_def unit_name_def value'_def Let_def)
  then show ?thesis
    using parse_number_printed [OF w assms(2) f63 assms(3), of rest] start by (simp add: parse_component_def)
qed

lemma parse_loop_printed:
  fixes w :: nat
  assumes "float_exact scaled" "\<forall>c \<in> set ds. is_digit c" "unit_name un" "starts_number rest"
    "map_of unitMap un = Some unit" "10 ^ length ds dvd unit" "0 < unit" "unit \<le> 3600000000000"
    "w * unit + digits_value 0 ds * (unit div 10 ^ length ds) = v" "v \<le> int63"
  shows "parse_loop scaled orig (nat_digits w @ (if ds = [] then [] else CHR ''.'' # ds) @ un @ rest) d
    = (if d + v > int63 then invalid_duration orig else parse_loop scaled orig rest (d + v))"
  by (subst parse_loop.simps)
    (use parse_component_printed [OF assms(1-8), of w orig] assms(9,10) nat_digits_not_Nil [of w] in simp)

lemma parse_loop_Nil [simp]: "parse_loop scaled orig [] d = Ok d"
  by (simp add: parse_loop.simps)

lemma unit_names [simp]:
  "unit_name ''ns''" "unit_name (micro_sign @ ''s'')" "unit_name ''ms''" "unit_name ''s''" "unit_name ''m''"
  "unit_name ''h''"
  by (simp_all add: unit_name_def micro_sign_def digit_val_def digit_table_def)

lemma unit_values [simp]:
  "map_of unitMap ''ns'' = Some 1" "map_of unitMap (micro_sign @ ''s'') = Some 1000"
  "map_of unitMap ''ms'' = Some 1000000" "map_of unitMap ''s'' = Some 1000000000"
  "map_of unitMap ''m'' = Some 60000000000" "map_of unitMap ''h'' = Some 3600000000000"
  by (simp_all add: unitMap_def micro_sign_def)

text \<open>A number with the fraction of \<open>u\<close>, and a number without one.\<close>

lemma parse_loop_frac:
  assumes "float_exact scaled" "fmtFrac u prec = (fr, v)" "unit_name un" "map_of unitMap un = Some (10 ^ prec)"
    "prec \<le> 12" "starts_number rest" "w * 10 ^ prec + u mod 10 ^ prec \<le> int63"
  shows "parse_loop scaled orig (nat_digits w @ fr @ un @ rest) d
    = (if d + (w * 10 ^ prec + u mod 10 ^ prec) > int63 then invalid_duration orig
       else parse_loop scaled orig rest (d + (w * 10 ^ prec + u mod 10 ^ prec)))"
proof -
  obtain ds where ds: "fr = (if ds = [] then [] else CHR ''.'' # ds)" "\<forall>c \<in> set ds. is_digit c"
    "length ds \<le> prec" "digits_value 0 ds * 10 ^ (prec - length ds) = u mod 10 ^ prec"
    by (rule fmtFrac_spec [of u prec]) (use assms(2) in simp)
  have "(10::nat) ^ prec \<le> 10 ^ 12" using assms(5) by (rule power_increasing) (rule one_le_numeral)
  also have "(10::nat) ^ 12 \<le> 3600000000000" by (simp only: power_numeral) simp
  finally have le: "(10::nat) ^ prec \<le> 3600000000000" .
  have dvd: "(10::nat) ^ length ds dvd 10 ^ prec" using ds(3) by (rule le_imp_power_dvd)
  have pos: "(0::nat) < 10 ^ prec" by (simp only: zero_less_power zero_less_numeral)
  have "(10::nat) ^ prec div 10 ^ length ds = 10 ^ (prec - length ds)"
    by (rule power_diff [symmetric]) (use ds(3) in simp_all)
  then have "w * 10 ^ prec + digits_value 0 ds * (10 ^ prec div 10 ^ length ds) = w * 10 ^ prec + u mod 10 ^ prec"
    by (simp only: ds(4))
  from parse_loop_printed [OF assms(1) ds(2) assms(3,6,4) dvd pos le this assms(7)] show ?thesis
    unfolding ds(1) .
qed

lemma parse_loop_whole:
  assumes "float_exact scaled" "unit_name un" "map_of unitMap un = Some unit" "0 < unit" "unit \<le> 3600000000000"
    "starts_number rest" "w * unit \<le> int63"
  shows "parse_loop scaled orig (nat_digits w @ un @ rest) d
    = (if d + w * unit > int63 then invalid_duration orig else parse_loop scaled orig rest (d + w * unit))"
  using parse_loop_printed [OF assms(1) _ assms(2,6,3) _ assms(4,5) _ assms(7), of "[]"] by simp

lemma fmtFrac_rest: "snd (fmtFrac u prec) = u div 10 ^ prec"
  by (rule fmtFrac_spec [of u prec]) simp

text \<open>The text without its sign.\<close>

definition magnitude :: "nat \<Rightarrow> string" where
  "magnitude u = Duration_String (int u)"

lemma Duration_String_magnitude:
  "Duration_String d = (if d < 0 then ''-'' else []) @ magnitude (nat \<bar>d\<bar>)"
  unfolding magnitude_def Duration_String_def by (simp add: Let_def split: prod.split)

lemma magnitude_parts:
  "0 < u \<Longrightarrow> u < 1000 \<Longrightarrow> magnitude u = nat_digits (u div 10 ^ 0) @ fst (fmtFrac u 0) @ ''ns''"
  "1000 \<le> u \<Longrightarrow> u < 1000000 \<Longrightarrow> magnitude u = nat_digits (u div 10 ^ 3) @ fst (fmtFrac u 3) @ micro_sign @ ''s''"
  "1000000 \<le> u \<Longrightarrow> u < 1000000000 \<Longrightarrow> magnitude u = nat_digits (u div 10 ^ 6) @ fst (fmtFrac u 6) @ ''ms''"
  "1000000000 \<le> u \<Longrightarrow> magnitude u =
     (let seconds = u div 10 ^ 9; minutes = seconds div 60; hours = minutes div 60;
          s = nat_digits (seconds mod 60) @ fst (fmtFrac u 9) @ ''s''; m = nat_digits (minutes mod 60) @ ''m'' @ s
      in if minutes = 0 then s else if hours = 0 then m else nat_digits hours @ ''h'' @ m)"
  unfolding magnitude_def Duration_String_def fmtFrac_rest [symmetric]
  by (simp_all add: Let_def case_prod_beta)

lemma parse_loop_seconds:
  assumes "float_exact scaled" "un = ''s''"
  shows "parse_loop scaled orig (nat_digits (u div 10 ^ 9 mod 60) @ fst (fmtFrac u 9) @ un) d
    = (let v = d + (u div 10 ^ 9 mod 60 * 10 ^ 9 + u mod 10 ^ 9)
       in if v > int63 then invalid_duration orig else Ok v)"
proof -
  have le: "u div 10 ^ 9 mod 60 * 10 ^ 9 + u mod 10 ^ 9 \<le> int63"
    unfolding int63_def by simp
  show ?thesis
    using parse_loop_frac [OF assms(1) surjective_pairing, of un 9 "[]"] le by (simp add: Let_def assms(2))
qed

lemma parse_magnitude:
  assumes "float_exact scaled" "u \<le> 9223372036854775808"
  shows "parse_loop scaled orig (magnitude u) 0 = (if u > int63 then invalid_duration orig else Ok u)"
proof -
  have small: "parse_loop scaled orig (nat_digits (u div 10 ^ prec) @ fst (fmtFrac u prec) @ un) 0 = Ok u"
    if "unit_name un" "map_of unitMap un = Some (10 ^ prec)" "prec \<le> 12" "u < 1000000000" for un prec
    using parse_loop_frac [OF assms(1) surjective_pairing that(1-3), of "[]" "u div 10 ^ prec" u orig 0] that(4)
    by (simp add: int63_def div_mult_mod_eq del: parse_loop.simps)
  define s where "s = u div 10 ^ 9"
  define m where "m = s div 60"
  define h where "h = m div 60"
  have split: "u = s * 1000000000 + u mod 1000000000" "s = m * 60 + s mod 60" "m = h * 60 + m mod 60"
    "u mod 1000000000 < 1000000000" "s mod 60 < 60" "m mod 60 < 60"
    by (simp_all add: s_def m_def h_def)
  show ?thesis
  proof (cases "1000000000 \<le> u")
    case True
    let ?sec = "nat_digits (s mod 60) @ fst (fmtFrac u 9) @ ''s''"
    have sec: "parse_loop scaled orig ?sec d = (if u > int63 then invalid_duration orig else Ok u)"
      if "d = m * 60000000000" for d
    proof -
      have "d + (s mod 60 * 10 ^ 9 + u mod 10 ^ 9) = u" using split that by simp
      then show ?thesis using parse_loop_seconds [OF assms(1) refl, of orig u d] by (simp add: s_def)
    qed
    have mins: "parse_loop scaled orig (nat_digits (m mod 60) @ ''m'' @ ?sec) d
        = (if u > int63 then invalid_duration orig else Ok u)" if "d = h * 3600000000000" for d
    proof -
      have "m \<le> 153722867" using split assms(2) by linarith
      then have "d + m mod 60 * 60000000000 = m * 60000000000" "m * 60000000000 \<le> int63"
        using split that unfolding int63_def by linarith+
      then show ?thesis
        using parse_loop_whole [OF assms(1), of "''m''" 60000000000 ?sec "m mod 60" orig d] sec by simp
    qed
    have "h \<le> 2562047" using split assms(2) by linarith
    then have "h * 3600000000000 \<le> int63" unfolding int63_def by linarith
    then have hours: "parse_loop scaled orig (nat_digits h @ ''h'' @ nat_digits (m mod 60) @ ''m'' @ ?sec) 0
        = (if u > int63 then invalid_duration orig else Ok u)"
      using parse_loop_whole [OF assms(1), of "''h''" 3600000000000 _ h orig 0] mins by simp
    have "magnitude u = (if m = 0 then ?sec else if h = 0 then nat_digits (m mod 60) @ ''m'' @ ?sec
        else nat_digits h @ ''h'' @ nat_digits (m mod 60) @ ''m'' @ ?sec)"
      unfolding magnitude_parts(4) [OF True] Let_def s_def m_def h_def ..
    then show ?thesis using sec mins hours by (cases "m = 0"; cases "h = 0") simp_all
  next
    case False
    consider "u = 0" | "0 < u" "u < 1000" | "1000 \<le> u" "u < 1000000" | "1000000 \<le> u" "u < 1000000000"
      using False by linarith
    then show ?thesis
    proof cases
      case 1
      have "parse_loop scaled orig (nat_digits 0 @ ''s'') 0 = Ok 0"
        using parse_loop_whole [OF assms(1), of "''s''" 1000000000 "[]" 0 orig 0] by simp
      then show ?thesis using 1
        by (simp add: magnitude_def Duration_String_def int63_def nat_digits.simps digit_char_def digit_table_def)
    qed (use False small [of "''ns''" 0] small [of "micro_sign @ ''s''" 3] small [of "''ms''" 6]
        in \<open>simp_all add: magnitude_parts int63_def\<close>)
  qed
qed

text \<open>Every duration is read back, the least of 64 bits excepted: its magnitude does not fit.\<close>

lemma magnitude_start: "\<exists>n t. magnitude u = nat_digits n @ t \<and> t \<noteq> []"
proof -
  consider "u = 0" | "0 < u" "u < 1000" | "1000 \<le> u" "u < 1000000" | "1000000 \<le> u" "u < 1000000000"
    | "1000000000 \<le> u" by linarith
  then show ?thesis
  proof cases
    case 1
    then have "magnitude u = nat_digits 0 @ ''s''"
      by (simp add: magnitude_def Duration_String_def nat_digits.simps digit_char_def digit_table_def)
    then show ?thesis by blast
  next
    case 5
    show ?thesis unfolding magnitude_parts(4) [OF 5] Let_def
      by (simp split: if_split) (metis append_is_Nil_conv list.distinct(1))
  qed (simp only: magnitude_parts; blast)+
qed

lemma parse_printed_duration:
  assumes "float_exact scaled" "- 9223372036854775808 \<le> d" "d \<le> 9223372036854775807"
  shows "ParseDuration scaled (Duration_String d)
    = (if d = - 9223372036854775808 then invalid_duration (Duration_String d) else Ok d)"
proof -
  let ?m = "magnitude (nat \<bar>d\<bar>)"
  obtain n t where n: "?m = nat_digits n @ t" "t \<noteq> []" using magnitude_start by blast
  obtain c r where "nat_digits n = c # r" "is_digit c" using nat_digits_start by blast
  with n obtain s where start: "?m = c # s" "is_digit c" "s \<noteq> []" by simp
  have "c \<noteq> CHR ''-''" "c \<noteq> CHR ''+''"
    using start(2) by (auto simp: digit_val_def digit_table_def)
  moreover have "nat \<bar>d\<bar> \<le> 9223372036854775808" using assms(2,3) by linarith
  note parse_magnitude [OF assms(1) this, of "Duration_String d"]
  moreover have "nat \<bar>d\<bar> > int63 \<longleftrightarrow> d = - 9223372036854775808" using assms(2,3) unfolding int63_def by linarith
  ultimately show ?thesis
    using start Duration_String_magnitude [of d] by (auto simp: ParseDuration_def Let_def invalid_duration_def)
qed

text \<open>C36: the JSON form of a duration is read back as the same number of nanoseconds, for every
  value of 64 bits but the least one: its text is written, and reading it is the error of an
  invalid duration, as its magnitude does not fit into 63 bits.\<close>

theorem duration_roundtrip:
  assumes "float_exact scaled" "- 9223372036854775808 \<le> d" "d \<le> 9223372036854775807"
    and "enc (VString (Duration_String d)) = Ok b" "dec b = Ok (VString (Duration_String d))"
  shows "result_bind (Duration_MarshalJSON enc d) (Duration_UnmarshalJSON dec number scaled)
    = (if d = - 9223372036854775808 then invalid_duration (Duration_String d) else Ok d)"
  using parse_printed_duration [OF assms(1-3)] assms(4,5)
  by (simp add: Duration_MarshalJSON_def Duration_UnmarshalJSON_def)

theorem duration_roundtrip_witness:
  "result_bind (Duration_MarshalJSON (\<lambda>v. case v of VString s \<Rightarrow> Ok s | _ \<Rightarrow> Err ErrNotFound) 5400000000001)
      (Duration_UnmarshalJSON (\<lambda>s. Ok (VString s)) (\<lambda>v. 0) (\<lambda>f unit scale. f * (unit div scale)))
    = Ok 5400000000001"
  using duration_roundtrip [of "\<lambda>f unit scale. f * (unit div scale)" 5400000000001
      "\<lambda>v. case v of VString s \<Rightarrow> Ok s | _ \<Rightarrow> Err ErrNotFound" "Duration_String 5400000000001"
      "\<lambda>s. Ok (VString s)" "\<lambda>v. 0"]
  by (simp add: float_exact_def)

end
