(* ===== verification/Selectors.thy ===== *)
theory Selectors
  imports Policy
begin

text \<open>
  The label selector of a rule as the policy file has it (pkg/controller/policy): a JSON string
  that \<open>strconv.Unquote\<close> reads, as of Go 1.12, and whose text the third-party \<open>labels.Parse\<close>, a
  parameter, turns into the predicate of theory Policy.  A string is the list of its bytes.
\<close>

section \<open>UTF-8\<close>

definition RuneError :: nat where "RuneError = 0xFFFD"
definition MaxRune :: nat where "MaxRune = 0x10FFFF"

definition cont_byte :: "nat \<Rightarrow> nat \<Rightarrow> nat \<Rightarrow> bool" where "cont_byte lo hi c \<longleftrightarrow> lo \<le> c \<and> c \<le> hi"

text \<open>The bounds of the second byte of a sequence of three or four bytes, by the first one.\<close>

definition second_bounds :: "nat \<Rightarrow> nat \<times> nat" where
  "second_bounds c0 = (if c0 = 0xE0 then (0xA0, 0xBF) else if c0 = 0xED then (0x80, 0x9F)
     else if c0 = 0xF0 then (0x90, 0xBF) else if c0 = 0xF4 then (0x80, 0x8F) else (0x80, 0xBF))"

text \<open>\<open>utf8.DecodeRuneInString\<close>: the rune and its width; what is no sequence is \<open>RuneError\<close> of width 1.\<close>

definition DecodeRune :: "string \<Rightarrow> nat \<times> nat" where
  "DecodeRune s =
     (case map of_char s of
        [] \<Rightarrow> (RuneError, 0)
      | c0 # t \<Rightarrow>
          let lo_hi = second_bounds c0 in
          if c0 < 0x80 then (c0, 1)
          else if 0xC2 \<le> c0 \<and> c0 \<le> 0xDF \<and> 1 \<le> length t \<and> cont_byte 0x80 0xBF (t ! 0)
          then ((c0 mod 0x20) * 0x40 + t ! 0 mod 0x40, 2)
          else if 0xE0 \<le> c0 \<and> c0 \<le> 0xEF \<and> 2 \<le> length t \<and> cont_byte (fst lo_hi) (snd lo_hi) (t ! 0)
            \<and> cont_byte 0x80 0xBF (t ! 1)
          then ((c0 mod 0x10) * 0x1000 + (t ! 0 mod 0x40) * 0x40 + t ! 1 mod 0x40, 3)
          else if 0xF0 \<le> c0 \<and> c0 \<le> 0xF4 \<and> 3 \<le> length t \<and> cont_byte (fst lo_hi) (snd lo_hi) (t ! 0)
            \<and> cont_byte 0x80 0xBF (t ! 1) \<and> cont_byte 0x80 0xBF (t ! 2)
          then ((c0 mod 8) * 0x40000 + (t ! 0 mod 0x40) * 0x1000 + (t ! 1 mod 0x40) * 0x40 + t ! 2 mod 0x40, 4)
          else (RuneError, 1))"

text \<open>\<open>utf8.EncodeRune\<close>; a surrogate or a number out of range is encoded as \<open>RuneError\<close>.\<close>

definition EncodeRune :: "nat \<Rightarrow> string" where
  "EncodeRune r =
     (let r = (if r > MaxRune \<or> 0xD800 \<le> r \<and> r \<le> 0xDFFF then RuneError else r) in
      map char_of
        (if r < 0x80 then [r]
         else if r < 0x800 then [0xC0 + r div 0x40, 0x80 + r mod 0x40]
         else if r < 0x10000 then [0xE0 + r div 0x1000, 0x80 + r div 0x40 mod 0x40, 0x80 + r mod 0x40]
         else [0xF0 + r div 0x40000, 0x80 + r div 0x1000 mod 0x40, 0x80 + r div 0x40 mod 0x40, 0x80 + r mod 0x40]))"

section \<open>strconv.Unquote\<close>

definition unhex :: "char \<Rightarrow> nat option" where
  "unhex c =
     (let n = of_char c :: nat in
      if 48 \<le> n \<and> n \<le> 57 then Some (n - 48)
      else if 97 \<le> n \<and> n \<le> 102 then Some (n - 87)
      else if 65 \<le> n \<and> n \<le> 70 then Some (n - 55) else None)"

fun hex_digits :: "nat \<Rightarrow> nat \<Rightarrow> string \<Rightarrow> (nat \<times> string) option" where
  "hex_digits 0 v s = Some (v, s)"
| "hex_digits (Suc n) v [] = None"
| "hex_digits (Suc n) v (c # s) = (case unhex c of None \<Rightarrow> None | Some x \<Rightarrow> hex_digits n (v * 16 + x) s)"

fun oct_digits :: "nat \<Rightarrow> nat \<Rightarrow> string \<Rightarrow> (nat \<times> string) option" where
  "oct_digits 0 v s = Some (v, s)"
| "oct_digits (Suc n) v [] = None"
| "oct_digits (Suc n) v (c # s) =
     (let x = of_char c in if 48 \<le> x \<and> x \<le> (55 :: nat) then oct_digits n (v * 8 + (x - 48)) s else None)"

text \<open>The escapes of one letter.\<close>

definition escape_table :: "(char \<times> char) list" where
  "escape_table = [(CHR ''a'', CHR 0x07), (CHR ''b'', CHR 0x08), (CHR ''f'', CHR 0x0C), (CHR ''n'', CHR 0x0A),
     (CHR ''r'', CHR 0x0D), (CHR ''t'', CHR 0x09), (CHR ''v'', CHR 0x0B), (CHR 0x5C, CHR 0x5C), (CHR 0x22, CHR 0x22)]"

definition hex_widths :: "(char \<times> nat) list" where
  "hex_widths = [(CHR ''x'', 2), (CHR ''u'', 4), (CHR ''U'', 8)]"

text \<open>
  \<open>UnquoteChar\<close> inside double quotes, with what \<open>Unquote\<close> appends for the character; \<open>None\<close> is the
  syntax error.  A rune is a 32-bit integer: eight digits can make it negative, and then its last
  byte is appended.
\<close>

definition hex_rune :: "char \<Rightarrow> nat \<Rightarrow> string option" where
  "hex_rune c v =
     (if c = CHR ''x'' then Some [char_of v]
      else if v \<ge> 0x80000000 then Some [char_of (v mod 0x100)]
      else if v > MaxRune then None else Some (EncodeRune v))"

definition unquote_escape :: "char \<Rightarrow> string \<Rightarrow> (string \<times> string) option" where
  "unquote_escape c s =
     (case map_of hex_widths c of
        Some n \<Rightarrow> (case hex_digits n 0 s of
            None \<Rightarrow> None
          | Some (v, tail) \<Rightarrow> map_option (\<lambda>out. (out, tail)) (hex_rune c v))
      | None \<Rightarrow>
          if 48 \<le> (of_char c :: nat) \<and> of_char c \<le> (55 :: nat) then
            (case oct_digits 2 (of_char c - 48) s of
               None \<Rightarrow> None
             | Some (v, tail) \<Rightarrow> if v > 255 then None else Some ([char_of v], tail))
          else map_option (\<lambda>v. ([v], s)) (map_of escape_table c))"

definition unquote_char :: "string \<Rightarrow> (string \<times> string) option" where
  "unquote_char s = (case s of
     [] \<Rightarrow> None
   | c # t \<Rightarrow>
       if c = CHR 0x22 then None
       else if of_char c \<ge> (0x80 :: nat) then
         (case DecodeRune s of (r, width) \<Rightarrow> Some (EncodeRune r, drop width s))
       else if c \<noteq> CHR 0x5C then Some ([c], t)
       else case t of [] \<Rightarrow> None | c # t \<Rightarrow> unquote_escape c t)"

lemma hex_digits_length: "hex_digits n v s = Some (v', tail) \<Longrightarrow> length tail \<le> length s"
  by (induction n v s rule: hex_digits.induct) (auto split: option.splits)

lemma oct_digits_length: "oct_digits n v s = Some (v', tail) \<Longrightarrow> length tail \<le> length s"
  by (induction n v s rule: oct_digits.induct) (auto simp: Let_def split: if_splits)

lemma unquote_escape_length: "unquote_escape c s = Some (out, tail) \<Longrightarrow> length tail \<le> length s"
  by (auto simp: unquote_escape_def dest: hex_digits_length oct_digits_length split: option.splits if_splits)

lemma DecodeRune_width: "s \<noteq> [] \<Longrightarrow> 1 \<le> snd (DecodeRune s)"
  by (cases s) (simp_all add: DecodeRune_def Let_def)

lemma unquote_char_shorter: "unquote_char s = Some (out, tail) \<Longrightarrow> length tail < length s"
  using DecodeRune_width [of s]
  by (auto simp: unquote_char_def dest!: unquote_escape_length split: list.splits if_splits prod.splits)

function unquote_loop :: "string \<Rightarrow> string option" where
  "unquote_loop s =
     (if s = [] then Some []
      else case unquote_char s of
          None \<Rightarrow> None
        | Some (out, tail) \<Rightarrow> map_option (\<lambda>r. out @ r) (unquote_loop tail))"
  by pat_completeness auto
termination by (relation "measure length") (auto dest: unquote_char_shorter)

declare unquote_loop.simps [simp del]

text \<open>
  \<open>Unquote\<close> of the text of a JSON value, which begins with none of Go's other two quotes.
\<close>

definition Unquote :: "string \<Rightarrow> string option" where
  "Unquote s =
     (if length s < 2 then None
      else if hd s \<noteq> last s \<or> hd s \<noteq> CHR 0x22 then None
      else let s = butlast (tl s) in if CHR 0x0A \<in> set s then None else unquote_loop s)"

section \<open>The selector\<close>

type_synonym selector = "(string, string) go_map \<Rightarrow> bool"

definition PolicyLabelSelector_UnmarshalJSON ::
    "(string \<Rightarrow> selector result) \<Rightarrow> string \<Rightarrow> selector option result" where
  "PolicyLabelSelector_UnmarshalJSON labels_Parse b =
     (if length b = 0 then Ok None
      else case Unquote b of
          None \<Rightarrow> Err (ErrMsg ''invalid syntax'')
        | Some unquoted \<Rightarrow> result_bind (labels_Parse unquoted) (\<lambda>sel. Ok (Some sel)))"

text \<open>How \<open>encoding/json\<close> writes a string of ASCII characters.\<close>

definition hex_digit :: "nat \<Rightarrow> char" where "hex_digit d = ''0123456789abcdef'' ! d"

definition json_escape :: "char \<Rightarrow> string" where
  "json_escape c =
     (if c = CHR 0x22 \<or> c = CHR 0x5C then [CHR 0x5C, c]
      else if c = CHR 0x0A then [CHR 0x5C, CHR ''n'']
      else if c = CHR 0x0D then [CHR 0x5C, CHR ''r'']
      else if c = CHR 0x09 then [CHR 0x5C, CHR ''t'']
      else if of_char c < (0x20 :: nat) \<or> c \<in> {CHR ''<'', CHR ''>'', CHR ''&''}
      then [CHR 0x5C, CHR ''u'', CHR ''0'', CHR ''0'', hex_digit (of_char c div 16), hex_digit (of_char c mod 16)]
      else [c])"

definition json_string :: "string \<Rightarrow> string" where
  "json_string s = CHR 0x22 # concat (map json_escape s) @ [CHR 0x22]"

definition ascii :: "string \<Rightarrow> bool" where
  "ascii s \<longleftrightarrow> (\<forall>c \<in> set s. of_char c < (0x80 :: nat))"

lemma less_16_cases:
  "(d::nat) < 16 \<Longrightarrow> d \<in> {0, 1, 2, 3, 4, 5, 6, 7, 8, 9, 10, 11, 12, 13, 14, 15}"
  by simp presburger

lemma unhex_digit: "d < 16 \<Longrightarrow> unhex (hex_digit d) = Some d"
  by (drule less_16_cases) (auto simp: unhex_def hex_digit_def)

lemma unquote_char_escaped:
  assumes "of_char c < (0x80 :: nat)"
  shows "unquote_char (json_escape c @ t) = Some ([c], t)"
proof -
  consider (quote) "c = CHR 0x22 \<or> c = CHR 0x5C" | (letter) "c \<in> {CHR 0x0A, CHR 0x0D, CHR 0x09}"
    | (hex) "c \<notin> {CHR 0x22, CHR 0x5C, CHR 0x0A, CHR 0x0D, CHR 0x09}"
        "of_char c < (0x20 :: nat) \<or> c \<in> {CHR ''<'', CHR ''>'', CHR ''&''}"
    | (plain) "c \<notin> {CHR 0x22, CHR 0x5C, CHR 0x0A, CHR 0x0D, CHR 0x09}"
        "\<not> (of_char c < (0x20 :: nat) \<or> c \<in> {CHR ''<'', CHR ''>'', CHR ''&''})" by blast
  then show ?thesis
  proof cases
    case hex
    let ?n = "of_char c :: nat"
    have d: "unhex (hex_digit (?n div 16)) = Some (?n div 16)" "unhex (hex_digit (?n mod 16)) = Some (?n mod 16)"
      using assms by (simp_all add: unhex_digit)
    have z: "unhex CHR ''0'' = Some 0" by (simp add: unhex_def)
    have four: "(4 :: nat) = Suc (Suc (Suc (Suc 0)))" by simp
    have "hex_digits 4 0 (CHR ''0'' # CHR ''0'' # hex_digit (?n div 16) # hex_digit (?n mod 16) # t) = Some (?n, t)"
      unfolding four by (simp add: z d)
    moreover have "hex_rune CHR ''u'' ?n = Some [c]"
      using assms by (simp add: hex_rune_def EncodeRune_def MaxRune_def)
    moreover have "json_escape c = [CHR 0x5C, CHR ''u'', CHR ''0'', CHR ''0'', hex_digit (?n div 16), hex_digit (?n mod 16)]"
      using hex by (simp add: json_escape_def)
    ultimately show ?thesis by (simp add: unquote_char_def unquote_escape_def hex_widths_def)
  next
    case quote
    then show ?thesis
      by (elim disjE; simp add: json_escape_def unquote_char_def unquote_escape_def hex_widths_def escape_table_def)
  next
    case letter
    then show ?thesis
      by (elim insertE emptyE; simp add: json_escape_def unquote_char_def unquote_escape_def hex_widths_def escape_table_def)
  next
    case plain
    then have "json_escape c = [c]" by (simp add: json_escape_def)
    then show ?thesis using plain(1) assms by (simp add: unquote_char_def)
  qed
qed

lemma unquote_loop_escaped:
  "ascii s \<Longrightarrow> unquote_loop (concat (map json_escape s) @ t) = map_option ((@) s) (unquote_loop t)"
proof (induction s)
  case (Cons c s)
  have "json_escape c \<noteq> []" by (simp add: json_escape_def)
  then show ?case
    using Cons unquote_char_escaped [of c "concat (map json_escape s) @ t"]
    by (subst unquote_loop.simps) (cases "unquote_loop t"; simp add: ascii_def)
qed (cases "unquote_loop t"; simp)

lemma json_escape_no_newline:
  assumes "of_char c < (0x80 :: nat)"
  shows "CHR 0x0A \<notin> set (json_escape c)"
proof -
  have h: "hex_digit d \<noteq> CHR 0x0A" if "d < 16" for d
    using less_16_cases [OF that] by (auto simp: hex_digit_def)
  have "hex_digit (of_char c div 16) \<noteq> CHR 0x0A" "hex_digit (of_char c mod 16) \<noteq> CHR 0x0A"
    using assms by (intro h; simp)+
  then show ?thesis by (auto simp: json_escape_def)
qed

text \<open>Reading inverts writing, for every string of ASCII characters.\<close>

theorem Unquote_json_string: "ascii s \<Longrightarrow> Unquote (json_string s) = Some s"
proof -
  assume a: "ascii s"
  let ?t = "concat (map json_escape s)"
  have "CHR 0x0A \<notin> set ?t" using a json_escape_no_newline by (auto simp: ascii_def)
  moreover have "butlast (tl (json_string s)) = ?t" by (simp add: json_string_def)
  moreover have "unquote_loop ?t = Some s"
    using unquote_loop_escaped [OF a, of "[]"] by (simp add: unquote_loop.simps [of "[]"])
  ultimately show ?thesis by (simp add: Unquote_def json_string_def)
qed

text \<open>
  What \<open>encoding/json\<close> writes for a selector is read as that selector; JSON's escape of a slash, which
  other encoders write, is refused.
\<close>

theorem selector_json:
  "ascii s \<Longrightarrow> PolicyLabelSelector_UnmarshalJSON labels_Parse (json_string s)
     = result_bind (labels_Parse s) (\<lambda>sel. Ok (Some sel))"
  by (simp add: PolicyLabelSelector_UnmarshalJSON_def Unquote_json_string) (simp add: json_string_def)

theorem escaped_slash_refused:
  assumes "ascii s"
  shows "PolicyLabelSelector_UnmarshalJSON labels_Parse
      (CHR 0x22 # concat (map json_escape s) @ [CHR 0x5C, CHR ''/''] @ t @ [CHR 0x22]) = Err (ErrMsg ''invalid syntax'')"
proof -
  have "unquote_loop ([CHR 0x5C, CHR ''/''] @ t) = None"
    by (simp add: unquote_loop.simps [of "CHR 0x5C # _"] unquote_char_def unquote_escape_def hex_widths_def escape_table_def)
  then have "unquote_loop (concat (map json_escape s) @ [CHR 0x5C, CHR ''/''] @ t) = None"
    by (simp only: unquote_loop_escaped [OF assms]) simp
  then have "Unquote (CHR 0x22 # concat (map json_escape s) @ [CHR 0x5C, CHR ''/''] @ t @ [CHR 0x22]) = None"
    by (simp add: Unquote_def butlast_append)
  then show ?thesis by (simp add: PolicyLabelSelector_UnmarshalJSON_def)
qed
end
