(* ===== verification/Fakes.thy ===== *)
theory Fakes
  imports Loops
begin

text \<open>
  The test doubles: pkg/fake's revisions and the fakes of the flusher and the purger, which do at
  once what the real ones queue.  The lemmas say that they agree with the real ones.
\<close>

section \<open>Revisions\<close>

definition newUnstructured :: "string \<Rightarrow> string \<Rightarrow> string \<Rightarrow> string \<Rightarrow> int \<Rightarrow> object" where
  "newUnstructured apiVersion kind namespace nm resourceVersion =
     [(''apiVersion'', VString apiVersion), (''kind'', VString kind),
      (''metadata'', VMap [(''namespace'', VString namespace), (''name'', VString nm),
         (''resourceVersion'', VString (itoa resourceVersion))]),
      (''spec'', VString nm)]"

definition NewFakeRevision :: "gotime \<Rightarrow> string \<Rightarrow> string \<Rightarrow> string \<Rightarrow> string \<Rightarrow> int \<Rightarrow> Revision" where
  "NewFakeRevision now apiVersion kind namespace nm resourceVersion =
     RevisionFrom now (newUnstructured apiVersion kind namespace nm resourceVersion)"

lemma NewFakeRevision_meta:
  assumes "int64 n"
  shows "meta (NewFakeRevision now apiVersion kind namespace nm n) =
    \<lparr>apiVersion_of = apiVersion, kind_of = kind, namespace_of = namespace, name_of = nm,
     resourceVersion_of = n, timestamp_of = now, deleted_of = False\<rparr>"
  using assms
  by (simp add: NewFakeRevision_def newUnstructured_def RevisionFrom_def GetAPIVersion_def GetKind_def GetNamespace_def
      GetName_def GetResourceVersion_def getNestedString_def NestedString_def NestedFieldNoCopy_def)

section \<open>The flusher and the purger\<close>

definition FakeFlush_Queue :: "Revision \<Rightarrow> storer \<Rightarrow> unit result \<times> (storer \<times> Revision)" where
  "FakeFlush_Queue rv st = (case storer_Update rv st of
     (Ok _, s) \<Rightarrow> (Ok (), s)
   | (Err e, s) \<Rightarrow> (Crash (Fatal ''fake flush queue failed''), s)
   | (Crash c, s) \<Rightarrow> (Crash c, s))"

definition FakePurge_Queue :: "Revision \<Rightarrow> storer \<Rightarrow> unit result \<times> storer" where
  "FakePurge_Queue rv st = (case storer_PurgeRevision rv st of
     (Ok _, st) \<Rightarrow> (Ok (), st)
   | (Err e, st) \<Rightarrow> (Crash (Fatal ''fake purge queue failed''), st)
   | (Crash c, st) \<Rightarrow> (Crash c, st))"

text \<open>The real flusher stores a live revision as the fake does, with its next tick.\<close>

theorem fake_flush_agrees:
  assumes "FakeFlush_Queue rv st = (Ok (), (st', rv'))" "\<not> Deleted rv"
  shows "flusher_tick False (flusher_Queue rv \<lparr>fl_c = Cache_New, fl_retryCache = Cache_New\<rparr>) st
    = (Ok (), (\<lparr>fl_c = Cache_New, fl_retryCache = Cache_New\<rparr>, st'))"
proof -
  have w: "write_rev rv st = (Ok (), (st', rv'))"
    using assms by (auto simp: FakeFlush_Queue_def write_rev_def on_ok_def split: prod.splits result.splits)
  then have "meta rv' = meta rv" using write_rev_save by blast
  then have "rev_ResourceKey rv' = rev_ResourceKey rv" "ResourceVersion rv' = ResourceVersion rv"
    by (simp_all add: ResourceVersion_def)
  with w show ?thesis
    by (simp add: flusher_tick_def flusher_Queue_def Cache_SafeCopy_def Cache_Cache_def Cache_Delete_def Cache_New_def
        flushKeyFunc_def go_put_def flusher_retry_all_def go_del_def)
qed

text \<open>So does the real purger with a valid revision that the fake can remove.\<close>

theorem fake_purge_agrees:
  assumes "FakePurge_Queue rv st = (Ok (), fake)" "valid_revision (meta rv)"
    "be_provider (s_backend (storer_base st)) \<noteq> S3Provider"
  shows "\<exists>p real. purger_purge (purger_Queue rv \<lparr>pu_c = Cache_New\<rparr>) st = (Ok (), (p, real))
    \<and> (\<forall>k. go_get (pu_c p) k = None)
    \<and> backend_objs (s_backend (storer_base real)) = backend_objs (s_backend (storer_base fake))"
proof -
  let ?b = "s_backend (storer_base st)" and ?k = "rev_Key rv" and ?p = "purger_Queue rv \<lparr>pu_c = Cache_New\<rparr>"
  obtain r b' where rm: "Backend_Remove ?b ?k = (r, b')" by fastforce
  have fake: "r = Ok () \<and> s_backend (storer_base fake) = b'"
    using assms(1) rm
    by (cases st; cases r;
        auto simp: FakePurge_Queue_def storer_PurgeRevision_def PurgeRevision_def rw_PurgeRevision_def mem_PurgeRevision_def)
  then have gone: "backend_objs b' = (backend_objs ?b)(?k := None)" using blob_be.remove_ok rm by blast
  have ok: "removable ?b ?k" using Backend_Remove_result(1) [of ?b ?k] rm fake by simp
  have q: "pu_c ?p = [(?k, rv)]"
    by (simp add: purger_Queue_def Cache_Cache_def Cache_New_def purgeKeyFunc_def go_put_def)
  have "queue_wf purgeKeyFunc (pu_c ?p)" "\<forall>x \<in> set (Cache_SafeCopy (pu_c ?p)). valid_revision (meta x)"
    unfolding q using assms(2) by (simp_all add: queue_wf_def purgeKeyFunc_def Cache_SafeCopy_def)
  from purger_purge_spec [OF this assms(3)] obtain p real where
    t: "purger_purge ?p st = (Ok (), (p, real))"
      "\<forall>k. go_get (pu_c p) k = (if removable ?b k then None else go_get (pu_c ?p) k)"
      "\<forall>k. backend_objs (s_backend (storer_base real)) k =
        (if go_get (pu_c ?p) k \<noteq> None \<and> removable ?b k then None else backend_objs ?b k)" by blast
  have "backend_objs (s_backend (storer_base real)) = backend_objs (s_backend (storer_base fake))"
    using t(3) fake gone ok by (auto simp: q fun_eq_iff)
  moreover have "\<forall>k. go_get (pu_c p) k = None" using t(2) ok by (auto simp: q)
  ultimately show ?thesis using t(1) by blast
qed

end
