(* ===== verification/Lifecycle.thy ===== *)
theory Lifecycle
  imports System
begin

text \<open>
  The life of the controller process: the HTTP server of pkg/controller/controller.go, \<open>Run\<close> with
  its deferred calls, the \<open>Close\<close> of the store and of the bucket, and the watch command
  (cmd/watch.go).
\<close>

section \<open>The HTTP server\<close>

text \<open>
  \<open>http.Handle\<close> registers a pattern on the server's multiplexer: the empty pattern and one that is
  taken panic.
\<close>

datatype http_handler = PrometheusHandler | ReadinessHandler

type_synonym mux = "(string, http_handler) go_map"

definition http_Handle :: "string \<Rightarrow> http_handler \<Rightarrow> mux \<Rightarrow> mux result" where
  "http_Handle pattern h m =
     (if pattern = [] then Crash (Panic ''http: invalid pattern'')
      else if go_get m pattern \<noteq> None then Crash (Panic (''http: multiple registrations for '' @ pattern))
      else Ok (go_put pattern h m))"

definition registerMetricsHandler :: "operator \<Rightarrow> mux \<Rightarrow> mux result" where
  "registerMetricsHandler opr m =
     (if op_metricsHandler opr \<noteq> [] then http_Handle (op_metricsHandler opr) PrometheusHandler m else Ok m)"

definition registerReadinessHandler :: "operator \<Rightarrow> mux \<Rightarrow> mux result" where
  "registerReadinessHandler opr m =
     (if op_readinessHandler opr \<noteq> [] then http_Handle (op_readinessHandler opr) ReadinessHandler m else Ok m)"

text \<open>
  The multiplexer that is served and the address it listens at, if any; that listening fails is
  only logged.
\<close>

definition startHTTPServer :: "operator \<Rightarrow> (mux \<times> string option) result" where
  "startHTTPServer opr =
     result_bind (registerMetricsHandler opr []) (\<lambda>m.
     result_bind (registerReadinessHandler opr m) (\<lambda>m.
       Ok (m, if op_httpServerPort opr \<noteq> 0 then Some (CHR '':'' # itoa (op_httpServerPort opr)) else None)))"

text \<open>
  The handler of a clean path: the pattern itself, or else the longest one that ends in a slash
  and is a prefix of it.
\<close>

definition subtree_patterns :: "mux \<Rightarrow> string \<Rightarrow> string list" where
  "subtree_patterns m path = sort_key (\<lambda>p. - int (length p))
     (filter (\<lambda>p. p \<noteq> [] \<and> last p = CHR ''/'' \<and> has_prefix path p) (map fst m))"

definition mux_match :: "mux \<Rightarrow> string \<Rightarrow> http_handler option" where
  "mux_match m path = (case go_get m path of
     Some h \<Rightarrow> Some h
   | None \<Rightarrow> (case subtree_patterns m path of [] \<Rightarrow> None | p # _ \<Rightarrow> go_get m p))"

text \<open>The status and body of an answer; \<open>metrics_page\<close> is what promhttp serves.\<close>

definition http_get :: "int \<times> string \<Rightarrow> operator \<Rightarrow> mux \<Rightarrow> string \<Rightarrow> int \<times> string" where
  "http_get metrics_page opr m path = (case mux_match m path of
     None \<Rightarrow> (404, ''404 page not found'')
   | Some PrometheusHandler \<Rightarrow> metrics_page
   | Some ReadinessHandler \<Rightarrow> readiness opr)"

section \<open>Closing the store\<close>

text \<open>
  A closed bucket refuses to list, read, create and remove (gocloud's \<open>errClosed\<close>); the drivers'
  own \<open>Close\<close> returns nil.  A bucket is closed once.  The S3 client that bulk removal converts
  the bucket to does not look at it.
\<close>

definition err_closed :: error where "err_closed = ErrExternal ''blob: Bucket has been closed''"

definition bucket_Close :: "bucket \<Rightarrow> unit result \<times> bucket" where
  "bucket_Close b = (Ok (), b\<lparr>faults := \<lambda>operation key.
     if operation \<in> {OpNewWriter, OpNewReader, OpDelete, OpNext} then Some err_closed else faults b operation key\<rparr>)"

definition Backend_Close :: "Backend \<Rightarrow> unit result \<times> Backend" where
  "Backend_Close b = (let (r, bu) = bucket_Close (be_bucket b) in (r, b\<lparr>be_bucket := bu\<rparr>))"

definition store_Close :: "store \<Rightarrow> unit result \<times> store" where
  "store_Close s = (let (r, b) = Backend_Close (s_backend s) in (r, s\<lparr>s_backend := b\<rparr>))"

definition storer_Close :: "storer \<Rightarrow> unit result \<times> storer" where
  "storer_Close st = (let (r, s) = store_Close (storer_base st) in (r, set_base s st))"

section \<open>Run\<close>

text \<open>
  The calls that \<open>Run\<close> defers.  Stopping a ticker lets no further round of its loop begin, once a
  tick that has already been sent is taken; shutting a queue down ends its workers.  Neither
  waits for a goroutine, and neither touches a queue of revisions or the store.
\<close>

datatype closing = ShutDownQueue string | StopReaper | StopPurger | StopFlusher | CloseStore

text \<open>
  In the order they are deferred; \<open>handlers\<close> are those \<open>Run\<close> starts the informers of.
\<close>

definition deferred :: "'q ResourceHandlers \<Rightarrow> closing list" where
  "deferred handlers = [CloseStore, StopFlusher, StopPurger, StopReaper] @ map (\<lambda>(k, h). ShutDownQueue k) handlers"

primrec run_closing :: "closing \<Rightarrow> operator \<Rightarrow> operator" where
  "run_closing (ShutDownQueue k) opr = opr"
| "run_closing StopReaper opr = opr"
| "run_closing StopPurger opr = opr"
| "run_closing StopFlusher opr = opr"
| "run_closing CloseStore opr = opr\<lparr>op_store := snd (storer_Close (op_store opr))\<rparr>"

definition run_closings :: "closing list \<Rightarrow> operator \<Rightarrow> operator" where
  "run_closings = fold run_closing"

text \<open>
  How \<open>Run\<close> ends, with the closings it made and the state it leaves: a start that fails, the end
  of the context after any number of steps, or the end of the process, at the start or as the
  HTTP server's goroutine panics, where nothing is closed.
\<close>

definition idle :: "operator \<Rightarrow> system" where
  "idle opr = \<lparr>sy_op = opr, sy_flush = None, sy_retry = None\<rparr>"

definition close_system :: "closing list \<Rightarrow> system \<Rightarrow> system" where
  "close_system cs s = s\<lparr>sy_op := run_closings cs (sy_op s)\<rparr>"

inductive operator_Run :: "bool \<Rightarrow> operator \<Rightarrow> unit result \<Rightarrow> closing list \<Rightarrow> system \<Rightarrow> bool"
  for synced :: bool and opr :: operator where
  start_fails: "run_start synced opr = (Err e, opr') \<Longrightarrow> cs = rev (deferred (op_handlers opr))
    \<Longrightarrow> operator_Run synced opr (Err e) cs (close_system cs (idle opr'))"
| start_ends: "run_start synced opr = (Crash c, opr')
    \<Longrightarrow> operator_Run synced opr (Crash c) [] (idle opr')"
| context_done: "run_start synced opr = (Ok (), opr') \<Longrightarrow> cs = rev (deferred (op_handlers opr))
    \<Longrightarrow> (system_step (storer_semaphore (op_store opr)))\<^sup>*\<^sup>* (idle opr') s
    \<Longrightarrow> operator_Run synced opr (Ok ()) cs (close_system cs s)"
| server_panics: "startHTTPServer opr = Crash c \<Longrightarrow> run_start synced opr = (Ok (), opr')
    \<Longrightarrow> (system_step (storer_semaphore (op_store opr)))\<^sup>*\<^sup>* (idle opr') s
    \<Longrightarrow> operator_Run synced opr (Crash c) [] s"

inductive_cases operator_RunE: "operator_Run synced opr r cs s"

section \<open>A closed store keeps its objects\<close>

text \<open>
  A closed bucket: nothing is created or removed.  The provider whose bulk removal goes past the
  bucket is left out.
\<close>

definition closed_backend :: "Backend \<Rightarrow> bool" where
  "closed_backend b \<longleftrightarrow> be_provider b \<noteq> S3Provider
     \<and> (\<forall>k. faults (be_bucket b) OpNewWriter k \<noteq> None \<and> faults (be_bucket b) OpDelete k \<noteq> None)"

lemma closed_Create: "closed_backend b \<Longrightarrow> \<exists>e. Backend_Create b k = Err e"
  by (auto simp: closed_backend_def blob_defs split: option.split)

lemma closed_Remove: "closed_backend b \<Longrightarrow> \<exists>e. Backend_Remove b k = (Err e, b)"
  by (auto simp: closed_backend_def blob_defs Let_def split: option.split)

lemma storer_Close_closed:
  assumes "be_provider (store_backend st) \<noteq> S3Provider"
  shows "closed_backend (store_backend (snd (storer_Close st)))"
    and "backend_objs (store_backend (snd (storer_Close st))) = backend_objs (store_backend st)"
  using assms
  by (simp_all add: storer_Close_def store_Close_def Backend_Close_def bucket_Close_def closed_backend_def backend_objs_def)

lemma closed_write_rev:
  assumes "write_rev rv st = (r, (st', rv'))" "closed_backend (store_backend st)"
  shows "store_backend st' = store_backend st" "r \<noteq> Ok ()"
proof -
  from write_rev_save [OF assms(1)] obtain r0 s0 rv0 where s: "store_save rv (storer_base st) = (r0, (s0, rv0))"
    "store_backend st' = s_backend s0" "r = Ok () \<longrightarrow> r0 = Ok ()" by blast
  obtain e where "Backend_Create (store_backend st) (rev_Key rv) = Err e" using closed_Create [OF assms(2)] by blast
  then have "s_backend s0 = store_backend st" "r0 = Err e" using s(1) by (auto simp: store_save_def)
  then show "store_backend st' = store_backend st" "r \<noteq> Ok ()" using s(2,3) by auto
qed

lemma closed_flush_loop:
  "flush_loop rvs failed c st = (r, (c', st')) \<Longrightarrow> closed_backend (store_backend st) \<Longrightarrow>
     store_backend st' = store_backend st"
proof (induction rvs arbitrary: failed c st)
  case (Cons rv rvs)
  obtain r1 st1 rv1 where w: "write_rev rv st = (r1, (st1, rv1))" by (metis surj_pair)
  from closed_write_rev(1) [OF w Cons.prems(2)] Cons w show ?case by (cases r1) auto
qed simp

lemma closed_flush_step:
  assumes "flush_step n s s'" "closed_backend (store_backend (fs_storer s))"
  shows "store_backend (fs_storer s') = store_backend (fs_storer s)"
  using assms(1)
proof cases
  case (wrote rv resp st rv')
  from wrote(3) obtain r where w: "write_rev rv (fs_storer s) = (r, (st, rv'))" by (rule async_write_ok)
  then show ?thesis using wrote(1) closed_write_rev(1) [OF w assms(2)] by simp
qed simp_all

lemma closed_remove_each: "closed_backend b \<Longrightarrow> snd (remove_each b ks acc err) = b"
proof (induction ks arbitrary: acc err)
  case (Cons k ks)
  then show ?case using closed_Remove [OF Cons.prems, of k] by auto
qed simp

lemma closed_purge_each: "closed_backend (s_backend s) \<Longrightarrow> snd (purge_each ks acc s) = s"
proof (induction ks arbitrary: acc)
  case (Cons k ks)
  then show ?case using closed_Remove [OF Cons.prems, of k] by auto
qed simp

lemma closed_PurgeRevisions:
  assumes "PurgeRevisions revs s = (r, s')" "closed_backend (s_backend s)"
  shows "s_backend s' = s_backend s"
proof -
  let ?keys = "map rev_Key revs"
  have p: "be_provider (s_backend s) \<noteq> S3Provider" using assms(2) by (simp add: closed_backend_def)
  consider "revs = []" | "revs \<noteq> []" "s_bulk s" | "revs \<noteq> []" "\<not> s_bulk s" by blast
  then show ?thesis
  proof cases
    case 2
    obtain ks err b where b: "remove_each (s_backend s) ?keys [] None = ((ks, err), b)" by (metis surj_pair)
    then have "s' = s\<lparr>s_backend := b\<rparr>" using assms(1) 2 p
      by (cases "parse_deleted ks []") (simp_all add: PurgeRevisions_def Backend_RemoveAll_def)
    then show ?thesis using closed_remove_each [OF assms(2), of ?keys "[]" None] b by simp
  next
    case 3
    obtain r1 s1 where each: "purge_each ?keys [] s = (r1, s1)" by fastforce
    then have "s' = s1" using assms(1) 3 by (cases r1) (simp_all add: PurgeRevisions_def)
    then show ?thesis using closed_purge_each [OF assms(2), of ?keys "[]"] each by simp
  qed (use assms in \<open>simp add: PurgeRevisions_def\<close>)
qed

lemma closed_purge:
  assumes "purger_purge p st = (r, (p', st'))" "closed_backend (store_backend st)"
  shows "store_backend st' = store_backend st"
proof -
  let ?revs = "Cache_SafeCopy (pu_c p)"
  obtain r1 s1 where pr: "PurgeRevisions ?revs (storer_base st) = (r1, s1)" by fastforce
  have "store_backend (snd (storer_PurgeRevisions ?revs st)) = s_backend s1"
    using pr by (cases st; cases r1)
      (auto simp: storer_PurgeRevisions_def rw_PurgeRevisions_def on_ok_def split: prod.splits result.splits)
  then show ?thesis using assms(1) closed_PurgeRevisions [OF pr assms(2)]
    by (auto simp: purger_purge_def Let_def split: if_splits prod.splits result.splits)
qed

text \<open>Reaping and work items only read the store, closed or not.\<close>

lemma reap_backend:
  assumes "reap pol clock p st = (r, (p', st'))"
  shows "store_backend st' = store_backend st"
proof -
  obtain r1 st1 where s: "storer_State reap_options st = (r1, st1)" by fastforce
  have b: "store_backend st1 = store_backend st" using storer_State_backend [of reap_options st] s by simp
  show ?thesis
  proof (cases "\<exists>state. r1 = Ok (state, None)")
    case True
    then obtain state where state: "r1 = Ok (state, None)" by blast
    obtain r2 st2 where l: "reap_loop pol clock state 0 [] st1 = (r2, st2)" by fastforce
    have "st' = st2" using assms s l state by (cases r2) (auto simp: reap_def)
    then show ?thesis using reap_loop_frame [OF l] b by simp
  next
    case False
    then show ?thesis using assms s b by (cases r1) (auto simp: reap_def split: option.splits)
  qed
qed

lemma processUnstructured_backend:
  "store_backend (op_store (snd (processUnstructured now item opr))) = store_backend (op_store opr)"
proof -
  define P where "P o' \<longleftrightarrow> store_backend (op_store o') = store_backend (op_store opr)" for o' :: operator
  have same: "P (o'\<lparr>op_flusher := f\<rparr>)" if "P o'" for o' :: operator and f using that by (simp add: P_def)
  have setstore: "P (o'\<lparr>op_store := st\<rparr>)" if "store_backend st = store_backend (op_store opr)" for o' :: operator and st
    using that by (simp add: P_def)
  have "P (snd (processUnstructured now item opr))"
    unfolding processUnstructured_def handleDeletion_cases
    by (auto simp: handleRotation_nothing split: prod.split option.split result.split
        intro!: on_ok_keeps [where P = P] same setstore
        dest!: storer_RuleFor_frame(3) handleResourceFilter_frame(3) storer_Get_frame(2) different_frame(2))
  then show ?thesis by (simp add: P_def)
qed

lemma closed_system_step:
  assumes "system_step sem s s'" "closed_backend (store_backend (op_store (sy_op s)))"
  shows "store_backend (op_store (sy_op s')) = store_backend (op_store (sy_op s))"
  using assms(1)
proof cases
  case (work now item cont opr)
  then show ?thesis using processUnstructured_backend [of now item "sy_op s"] by simp
next
  case (flush_write fs n fs')
  then show ?thesis using closed_flush_step [OF flush_write(4)] assms(2) by (simp add: flush_view_def flush_back_def)
next
  case (retry_write fs n fs')
  then show ?thesis using closed_flush_step [OF retry_write(4)] assms(2) by (simp add: flush_view_def flush_back_def)
next
  case (tick retry f st)
  obtain r c st1 where l: "flush_loop (Cache_SafeCopy (if retry then fl_retryCache (op_flusher (sy_op s)) else fl_c (op_flusher (sy_op s))))
      [] (fl_c (op_flusher (sy_op s))) (op_store (sy_op s)) = (r, (c, st1))" by (metis surj_pair)
  then have "st1 = st" using tick(3) by (cases r) (auto simp: flusher_tick_def Let_def)
  then show ?thesis using closed_flush_loop [OF l assms(2)] tick(1) by simp
next
  case (purge p st)
  then show ?thesis using closed_purge [OF purge(2) assms(2)] by simp
next
  case (reap clock r p st)
  then show ?thesis using reap_backend [OF reap(2)] by simp
qed (simp_all add: retry_failed_def)

lemma closed_system_steps:
  "(system_step sem)\<^sup>*\<^sup>* s s' \<Longrightarrow> closed_backend (store_backend (op_store (sy_op s))) \<Longrightarrow>
     store_backend (op_store (sy_op s')) = store_backend (op_store (sy_op s))"
  by (induction rule: rtranclp_induct) (auto dest: closed_system_step)

section \<open>What Run leaves behind\<close>

lemma run_closings_order:
  fixes handlers :: "'q ResourceHandlers"
  shows "run_closings (rev (deferred handlers)) opr = opr\<lparr>op_store := snd (storer_Close (op_store opr))\<rparr>"
proof -
  have "fold run_closing (rev (map (\<lambda>(k, h). ShutDownQueue k) hs)) o' = o'" for hs :: "'q ResourceHandlers" and o'
    by (induction hs arbitrary: o') auto
  then show ?thesis by (simp add: run_closings_def deferred_def)
qed

lemma syncStore_ready: "syncStore opr = (r, opr') \<Longrightarrow> op_ready opr' = op_ready opr
     \<and> op_readinessHandler opr' = op_readinessHandler opr"
  by (auto simp: syncStore_def Let_def on_ok_def split: prod.splits result.splits)

lemma run_start_ready:
  assumes "run_start synced opr = (r, opr')"
  shows "op_ready opr' \<longleftrightarrow> op_ready opr \<or> r = Ok ()"
proof -
  obtain r1 opr1 where s: "syncStore opr = (r1, opr1)" by fastforce
  then show ?thesis using assms syncStore_ready [OF s]
    by (cases r1) (auto simp: run_start_def split: if_splits)
qed

lemma startHTTPServer_paths:
  "startHTTPServer opr =
     (let m = op_metricsHandler opr; r = op_readinessHandler opr in
      if m \<noteq> [] \<and> m = r then Crash (Panic (''http: multiple registrations for '' @ m))
      else Ok ((if r \<noteq> [] then go_put r ReadinessHandler else id) ((if m \<noteq> [] then go_put m PrometheusHandler else id) []),
        if op_httpServerPort opr \<noteq> 0 then Some (CHR '':'' # itoa (op_httpServerPort opr)) else None))"
  by (auto simp: startHTTPServer_def registerMetricsHandler_def registerReadinessHandler_def http_Handle_def Let_def)

lemma mux_match_readiness:
  assumes "startHTTPServer opr = Ok (m, addr)" "op_readinessHandler opr \<noteq> []"
  shows "mux_match m (op_readinessHandler opr) = Some ReadinessHandler"
  using assms by (auto simp: startHTTPServer_paths mux_match_def Let_def split: if_splits)

lemma run_start_wf:
  assumes "run_start synced opr = (r, opr')" "operator_wf opr"
  shows "operator_wf opr'"
proof -
  obtain r1 opr1 where s: "syncStore opr = (r1, opr1)" by fastforce
  then have "operator_wf opr1" using syncStore_wf assms(2) by blast
  then show ?thesis using assms s
    by (cases r1) (auto simp: run_start_def operator_wf_def split: if_splits)
qed

lemma steps_wf:
  assumes "(system_step sem)\<^sup>*\<^sup>* (idle opr) s" "operator_wf opr" "\<forall>n. sem = Some n \<longrightarrow> 0 \<le> n"
  shows "operator_wf (sy_op s)"
proof -
  have "system_inv sem s"
    using assms(1)
  proof (induction rule: rtranclp_induct)
    case base
    then show ?case using assms(2,3) by (simp add: system_inv_def idle_def flushing_valid_def)
  qed (rule system_step_inv)
  then show ?thesis by (simp add: system_inv_def)
qed

end
