(* ===== verification/Cli.thy ===== *)
theory Cli
  imports Lifecycle Commands Durations
begin

text \<open>
  The command line around the commands: the flags that cmd/ declares with their defaults, what
  runs before every command (cmd/root.go, cmd/watch.go) and the watch command.  cobra's parser and
  viper's casts of strings are not modelled: a flag or environment variable that is given comes as
  the value it stands for.
\<close>

section \<open>Flags\<close>

datatype flag_value = FlagString string | FlagBool bool | FlagInt int | FlagDuration int

type_synonym flags = "(string \<times> flag_value) list"

definition root_flags :: flags where
  "root_flags =
    [(''encryption-key'', FlagString []), (''encryption-algorithm'', FlagString ''AES''),
     (''backend'', FlagString ''blob''), (''blob-provider'', FlagString ''filesystem''),
     (''aws-bucket'', FlagString []), (''aws-endpoint'', FlagString []), (''aws-default-region'', FlagString []),
     (''aws-access-key-id'', FlagString []), (''aws-secret-access-key'', FlagString []),
     (''aws-session-token'', FlagString []), (''root'', FlagString []), (''enable-cache'', FlagBool True)]"

definition watch_flags :: flags where
  "watch_flags =
    [(''metrics-handler'', FlagString ''/metrics''), (''readiness-handler'', FlagString ''/healthz''),
     (''port'', FlagInt 3800), (''config'', FlagString ''config.yml''), (''concurrent-writes'', FlagInt 25),
     (''threadiness'', FlagInt 4), (''reap-interval'', FlagDuration (3600 * second)),
     (''delete-untracked'', FlagBool False)]"

definition state_flags :: flags where
  "state_flags =
    [(''output'', FlagString []), (''directory'', FlagString []), (''at'', FlagInt 0), (''ago'', FlagDuration 0),
     (''label-selector'', FlagString []), (''namespace'', FlagString []), (''with-content'', FlagBool False),
     (''only-content'', FlagBool False), (''all-namespaces'', FlagBool False)]"

definition revision_flags :: flags where
  "revision_flags =
    [(''namespace'', FlagString []), (''output'', FlagString []), (''with-content'', FlagBool False),
     (''overwrite'', FlagBool False), (''revision'', FlagInt 0), (''at'', FlagInt 0), (''ago'', FlagDuration 0),
     (''all'', FlagBool False)]"

text \<open>
  viper over a list of flags: what was given stands before the defaults.  A name that is no flag has
  the zero value.
\<close>

definition flag_text :: "flag_value \<Rightarrow> string" where
  "flag_text f = (case f of FlagString s \<Rightarrow> s | FlagBool b \<Rightarrow> if b then ''true'' else ''false''
     | FlagInt i \<Rightarrow> itoa i | FlagDuration d \<Rightarrow> Duration_String d)"

definition viper_of :: "flags \<Rightarrow> viper" where
  "viper_of flags =
    \<lparr>GetString = (\<lambda>name. case map_of flags name of None \<Rightarrow> [] | Some f \<Rightarrow> flag_text f),
     GetBool = (\<lambda>name. map_of flags name = Some (FlagBool True)),
     GetInt = (\<lambda>name. case map_of flags name of Some (FlagInt i) \<Rightarrow> i | Some (FlagDuration d) \<Rightarrow> d | _ \<Rightarrow> 0)\<rparr>"

section \<open>Before a command\<close>

text \<open>
  \<open>initConfig\<close> is registered with cobra for every command; its arguments are the outcomes of the
  client libraries.
\<close>

definition initConfig :: "unit result \<Rightarrow> unit result \<Rightarrow> unit result \<Rightarrow> unit result" where
  "initConfig rest_config dynamic_client kube_client =
     result_bind (or_fatal ''creating kubernetes rest config'' rest_config) (\<lambda>_.
     result_bind (or_fatal ''creating dynamic kubernetes client'' dynamic_client) (\<lambda>_.
       or_fatal ''creating default kubernetes client'' kube_client))"

definition PersistentPreRun :: "unit result \<Rightarrow> unit result" where
  "PersistentPreRun bind_flags = or_fatal ''error binding flags to viper'' bind_flags"

text \<open>The order in which cobra runs them, and then the command.\<close>

definition run_command :: "unit result \<Rightarrow> unit result \<Rightarrow> 'a result \<Rightarrow> 'a result" where
  "run_command initialized bind_flags command =
     result_bind initialized (\<lambda>_. result_bind (PersistentPreRun bind_flags) (\<lambda>_. command))"

text \<open>Without a cluster no command runs, not even the one that prints the version.\<close>

lemma no_cluster_no_command:
  "run_command (initConfig (Err e) dyn kube) bind command = Crash (Fatal ''creating kubernetes rest config'')"
  by (simp add: run_command_def initConfig_def or_fatal_def)

section \<open>watch\<close>

text \<open>
  The watch command: an operator that cannot be built and a \<open>Run\<close> that returns an error end the
  process.  \<open>cs\<close> are the closings that \<open>Run\<close> made.
\<close>

inductive watchCmd :: "bool \<Rightarrow> operator result \<Rightarrow> unit result \<Rightarrow> closing list \<Rightarrow> bool"
  for synced :: bool and new_operator :: "operator result" where
  setup_fails: "new_operator = Err e \<Longrightarrow> watchCmd synced new_operator (Crash (Fatal ''error setting up controller'')) []"
| setup_ends: "new_operator = Crash c \<Longrightarrow> watchCmd synced new_operator (Crash c) []"
| run_returns: "new_operator = Ok opr \<Longrightarrow> operator_Run synced opr r cs s
    \<Longrightarrow> watchCmd synced new_operator (or_fatal ''running controller'' r) cs"

inductive_cases watchCmdE: "watchCmd synced new_operator r cs"

end
