(* ===== verification/Restarts.thy ===== *)
theory Restarts
  imports Lifecycle
begin

text \<open>
  The life of a deployment: the controller process runs, is killed between two steps of theory
  System or ends in a step that panics, and starts again on the objects it has left.  A process
  keeps nothing else: its queues and caches begin empty.  A start that fails is not a step of it.
\<close>

section \<open>A process\<close>

text \<open>
  A start on a bucket that holds \<open>objs\<close>: the store and the operator are built from the flags, the
  operator writes the configuration, and \<open>Run\<close> synchronises the store.  \<open>opr\<close> is the operator as
  its workers start and \<open>sem\<close> the semaphore of its store.
\<close>

inductive process_start :: "(string, string) go_map \<Rightarrow> int option \<Rightarrow> operator \<Rightarrow> bool"
  for objs :: "(string, string) go_map" and sem :: "int option" and opr :: operator where
  "Store_NewFromEnv world lib op getString getBool getInt = Ok st
    \<Longrightarrow> blobs (be_bucket (store_backend st)) = objs \<Longrightarrow> be_provider (store_backend st) \<noteq> S3Provider
    \<Longrightarrow> operator_NewFromEnv codec apiResources (Ok st) policy_file getString getInt = Ok opr0
    \<Longrightarrow> run_start True opr0 = (Ok (), opr)
    \<Longrightarrow> sem = storer_semaphore st \<Longrightarrow> \<forall>n. sem = Some n \<longrightarrow> 0 \<le> n
    \<Longrightarrow> process_start objs sem opr"

inductive_cases process_startE: "process_start objs sem opr"

text \<open>
  What a process in state \<open>s\<close> can leave: the objects of its store, when it is killed there, or
  those of a step that ends it with some of its writes done.
\<close>

abbreviation objects_of :: "storer \<Rightarrow> (string, string) go_map" where
  "objects_of st \<equiv> blobs (be_bucket (store_backend st))"

inductive leaves :: "int option \<Rightarrow> system \<Rightarrow> (string, string) go_map \<Rightarrow> bool"
  for sem :: "int option" and s :: system where
  killed: "leaves sem s (objects_of (op_store (sy_op s)))"
| tick_ends: "sem = None
    \<Longrightarrow> flusher_tick retry (op_flusher (sy_op s)) (op_store (sy_op s)) = (Crash c, (f, st))
    \<Longrightarrow> leaves sem s (objects_of st)"
| write_ends: "sy_flush s = Some fs \<or> sy_retry s = Some fs \<Longrightarrow> rv \<in> set (fs_running fs)
    \<Longrightarrow> async_write rv (op_store (sy_op s)) = (Crash c, (st, rv')) \<Longrightarrow> leaves sem s (objects_of st)"
| purge_ends: "purger_purge (op_purger (sy_op s)) (op_store (sy_op s)) = (Crash c, (p, st))
    \<Longrightarrow> leaves sem s (objects_of st)"

inductive lifetime :: "int option \<Rightarrow> system \<Rightarrow> bool" where
  installed: "process_start [] sem opr \<Longrightarrow> lifetime sem (idle opr)"
| runs: "lifetime sem s \<Longrightarrow> system_step sem s s' \<Longrightarrow> lifetime sem s'"
| restarts: "lifetime sem s \<Longrightarrow> leaves sem s objs \<Longrightarrow> process_start objs sem' opr
    \<Longrightarrow> lifetime sem' (idle opr)"

section \<open>A start\<close>

definition objects_wf :: "(string, string) go_map \<Rightarrow> bool" where
  "objects_wf m \<longleftrightarrow> go_wf m \<and> (\<forall>(k, d) \<in> set m. k = DefaultConfig \<or> stored_key k)"

lemma backend_wf_objects: "backend_wf b \<longleftrightarrow> objects_wf (blobs (be_bucket b))"
  by (simp add: backend_wf_def objects_wf_def)

lemma CloseWriter_objects:
  "blobs (be_bucket (snd (Backend_CloseWriter b w))) = blobs (be_bucket b)
   \<or> blobs (be_bucket (snd (Backend_CloseWriter b w))) = go_put (w_key w) (w_buf w) (blobs (be_bucket b))"
  by (auto simp: blob_defs Let_def split: option.split)

text \<open>The configuration is the only object that writing it can change.\<close>

lemma WriteConfig_closes:
  assumes "WriteConfig codec config b = (r, b')"
  obtains "b' = b" | w where "w_key w = DefaultConfig" "b' = snd (Backend_CloseWriter b w)"
proof (cases "Backend_Create b DefaultConfig")
  case (Ok w)
  then have w: "w_key w = DefaultConfig" using blob_be.create_ok by blast
  let ?cfg = "if cfg_Version config = 0 then config\<lparr>cfg_Version := DefaultVersion\<rparr> else config"
  let ?wr = "result_bind (cfg_encode codec ?cfg) (\<lambda>d. Backend_Write b w d)"
  have "b' = snd (Backend_CloseWriter b (case ?wr of Ok f' \<Rightarrow> f' | _ \<Rightarrow> w))"
    using assms Ok by (cases ?wr) (simp_all add: WriteConfig_def Let_def)
  moreover have "w_key (case ?wr of Ok f' \<Rightarrow> f' | _ \<Rightarrow> w) = DefaultConfig"
    using w blob_be.write_ok [of b w] by (auto simp: result_bind_eq_Ok split: result.split)
  ultimately show ?thesis using that(2) by blast
qed (use assms that(1) in \<open>simp_all add: WriteConfig_def\<close>)

lemma WriteConfig_objects:
  assumes "WriteConfig codec config b = (r, b')"
  shows "be_provider b' = be_provider b" "backend_wf b \<Longrightarrow> backend_wf b'"
    "k \<noteq> DefaultConfig \<Longrightarrow> backend_objs b' k = backend_objs b k"
  using assms
proof (atomize (full), elim WriteConfig_closes, goal_cases)
  case (2 w)
  then show ?case
    using CloseWriter_objects [of b w]
    by (auto simp: backend_objs_def backend_wf_objects objects_wf_def set_go_put)
qed simp

lemma fold_watchDynamic [simp]:
  "op_store (fold watchDynamic ds opr) = op_store opr" "op_threadiness (fold watchDynamic ds opr) = op_threadiness opr"
  "op_reapInterval (fold watchDynamic ds opr) = op_reapInterval opr"
  "op_metricsHandler (fold watchDynamic ds opr) = op_metricsHandler opr"
  "op_readinessHandler (fold watchDynamic ds opr) = op_readinessHandler opr"
  "op_httpServerPort (fold watchDynamic ds opr) = op_httpServerPort opr"
  "op_ready (fold watchDynamic ds opr) = op_ready opr"
  "op_flusher (fold watchDynamic ds opr) = op_flusher opr" "op_purger (fold watchDynamic ds opr) = op_purger opr"
  "op_policy (fold watchDynamic ds opr) = op_policy opr"
  by (induction ds arbitrary: opr) (simp_all add: watchDynamic_def)

lemma operator_NewFromEnv_new:
  assumes "operator_NewFromEnv codec apiResources (Ok st) policy_file getString getInt = Ok opr"
  obtains api b where "WriteConfig codec \<lparr>cfg_Resources = api, cfg_Version = 0\<rparr> (store_backend st) = (Ok (), b)"
    "op_store opr = set_base ((storer_base st)\<lparr>s_backend := b\<rparr>) st"
    "op_flusher opr = \<lparr>fl_c = Cache_New, fl_retryCache = Cache_New\<rparr>" "pu_c (op_purger opr) = Cache_New"
  using assms
  by (auto simp: operator_NewFromEnv_def operator_New_def Let_def result_bind_eq_Ok or_fatal_def flusher_New_def
      purger_New_def split: option.splits result.splits prod.splits)

lemma Store_NewFromEnv_new:
  assumes "Store_NewFromEnv world lib op getString getBool getInt = Ok st"
  shows "st = ReadWrite rw \<Longrightarrow> rw_reader rw = NewInMemoryGetter"
  using assms
  by (cases world) (auto simp: Store_NewFromEnv_def result_bind_eq_Ok Store_New_def NewReadWriteStorer_def Let_def
      split: option.splits prod.splits if_splits)

lemma rw_Sync_store: "rw_storer (snd (rw_Sync handlers s)) = rw_storer s"
  by (auto simp: rw_Sync_def on_ok_def Let_def split: result.split option.split prod.split)

lemma syncStore_backend: "store_backend (op_store (snd (syncStore opr))) = store_backend (op_store opr)"
proof -
  have "store_backend (snd (storer_Sync (op_handlers opr) (op_store opr))) = store_backend (op_store opr)"
    using rw_Sync_store [of "op_handlers opr"]
    by (cases "op_store opr") (simp_all add: storer_Sync_def split_beta)
  then show ?thesis by (auto simp: syncStore_def on_ok_def Let_def split: prod.split result.split)
qed

lemma run_start_backend:
  assumes "run_start synced opr = (r, opr')"
  shows "store_backend (op_store opr') = store_backend (op_store opr)"
proof -
  obtain r1 opr1 where s: "syncStore opr = (r1, opr1)" by fastforce
  then show ?thesis using assms syncStore_backend [of opr]
    by (cases r1) (auto simp: run_start_def split: if_splits)
qed

text \<open>
  A start keeps every object but the configuration, and it is a start of the transition system when
  the objects it finds are well formed.
\<close>

lemma start_keeps:
  assumes "process_start objs sem opr" "k \<noteq> DefaultConfig"
  shows "backend_objs (store_backend (op_store opr)) k = go_get objs k"
  using assms(1)
proof cases
  case (1 world lib op getString getBool getInt st codec api pol opr0)
  from 1(4) obtain a b where new: "WriteConfig codec \<lparr>cfg_Resources = a, cfg_Version = 0\<rparr> (store_backend st) = (Ok (), b)"
    "op_store opr0 = set_base ((storer_base st)\<lparr>s_backend := b\<rparr>) st" by (rule operator_NewFromEnv_new)
  have "backend_objs b k = backend_objs (store_backend st) k" by (rule WriteConfig_objects(3) [OF new(1) assms(2)])
  moreover have "store_backend (op_store opr) = b" using run_start_backend [OF 1(5)] new(2) by simp
  ultimately show ?thesis using 1(2) by (simp add: backend_objs_def)
qed

lemma start_init:
  assumes "process_start objs sem opr" "objects_wf objs"
  shows "system_init sem (idle opr)"
  using assms(1)
proof cases
  case (1 world lib op getString getBool getInt st codec api pol opr0)
  from 1(4) obtain a b where new: "WriteConfig codec \<lparr>cfg_Resources = a, cfg_Version = 0\<rparr> (store_backend st) = (Ok (), b)"
    "op_store opr0 = set_base ((storer_base st)\<lparr>s_backend := b\<rparr>) st"
    "op_flusher opr0 = \<lparr>fl_c = Cache_New, fl_retryCache = Cache_New\<rparr>" "pu_c (op_purger opr0) = Cache_New"
    by (rule operator_NewFromEnv_new)
  have "backend_wf b" using WriteConfig_objects(2) [OF new(1)] assms(2) 1(2) by (simp add: backend_wf_objects)
  moreover have "be_provider b \<noteq> S3Provider" using WriteConfig_objects(1) [OF new(1)] 1(3) by simp
  moreover have "case st of Plain s \<Rightarrow> True | ReadWrite rw \<Rightarrow> cache_valid (rw_reader rw)"
    using Store_NewFromEnv_new [OF 1(1)] by (cases st) simp_all
  ultimately have "fresh_operator opr0"
    using new(2-4) by (cases st) (simp_all add: fresh_operator_def store_wf_def)
  moreover have "storer_semaphore (op_store opr0) = storer_semaphore st" using new(2) by (cases st) simp_all
  ultimately show ?thesis using system_init.intros [of opr0 opr sem] 1(5-7) by (simp add: idle_def)
qed

section \<open>Lifetimes\<close>

lemma system_inv_store: "system_inv sem s \<Longrightarrow> store_wf (op_store (sy_op s))"
  by (simp add: system_inv_def operator_wf_def)

lemma store_wf_objects: "store_wf st \<Longrightarrow> objects_wf (objects_of st)"
  by (simp add: store_wf_def backend_wf_objects)

lemma async_write_ends:
  assumes "async_write rv st = (Crash c, (st', rv'))"
  obtains r where "write_rev rv st = (r, (st', rv'))"
  using assms
  by (auto simp: async_write_def AsyncDelete_def AsyncUpdate_def write_rev_def on_ok_def
      split: if_splits result.splits prod.splits)

lemma leaves_wf:
  assumes "leaves sem s objs" "system_inv sem s"
  shows "objects_wf objs"
  using assms(1)
proof cases
  case (tick_ends retry c f st)
  have "store_wf st"
    using flusher_tick_wf [OF tick_ends(3)] assms(2) by (simp add: system_inv_def operator_wf_def)
  then show ?thesis using tick_ends(1) store_wf_objects by simp
next
  case (write_ends fs rv c st rv')
  from write_ends(4) obtain r where w: "write_rev rv (op_store (sy_op s)) = (r, (st, rv'))" by (rule async_write_ends)
  have "flush_valid fs" using assms(2) write_ends(2) by (auto simp: system_inv_def flushing_valid_def)
  then have "valid_revision (meta rv)" using write_ends(3) by (simp add: flush_valid_def valid_revs_def)
  from write_rev_wf(1) [OF w this system_inv_store [OF assms(2)]] show ?thesis
    using write_ends(1) store_wf_objects by simp
next
  case (purge_ends c p st)
  have "store_wf st"
    using purger_purge_wf(1) [OF purge_ends(2)] assms(2) by (simp add: system_inv_def operator_wf_def)
  then show ?thesis using purge_ends(1) store_wf_objects by simp
qed (use assms(2) system_inv_store store_wf_objects in simp)

lemma lifetime_reachable: "lifetime sem s \<Longrightarrow> reachable sem s"
proof (induction rule: lifetime.induct)
  case (installed sem opr)
  then show ?case by (intro reachable.start start_init) (auto simp: objects_wf_def)
next
  case (restarts sem s objs sem' opr)
  then show ?case using leaves_wf reachable_inv start_init reachable.start by blast
qed (rule reachable.step)

end
