(* ===== verification/Lifecycle_Props.thy ===== *)
theory Lifecycle_Props
  imports Cli Restarts System_Props
begin

text \<open>
  Properties of the life of the controller: what the default flags build, what the HTTP server
  answers, and what \<open>Run\<close> leaves behind.
\<close>

section \<open>The default configuration\<close>

lemmas flag_tables = root_flags_def watch_flags_def state_flags_def revision_flags_def

lemma default_watch_flags:
  defines "v \<equiv> viper_of (watch_flags @ root_flags)"
  shows "GetString v ''encryption-key'' = []" "GetString v ''backend'' = ''blob''"
    "GetString v ''blob-provider'' = FSProvider" "GetString v ''root'' = []" "GetBool v ''enable-cache''"
    "GetInt v ''concurrent-writes'' = 25" "\<not> GetBool v ''delete-untracked''" "GetInt v ''reap-interval'' = 3600 * second"
    "GetInt v ''threadiness'' = 4" "GetString v ''readiness-handler'' = ''/healthz''"
    "GetString v ''metrics-handler'' = ''/metrics''" "GetInt v ''port'' = 3800"
  by (simp_all add: v_def viper_of_def flag_tables flag_text_def FSProvider_def)

lemma default_store:
  defines "v \<equiv> viper_of (watch_flags @ root_flags)"
  assumes "open_fs op (ConfigFromEnv (GetString v) FSProvider) = Ok b"
  shows "\<exists>rw. Store_NewFromEnv world lib op (GetString v) (GetBool v) (GetInt v) = Ok (ReadWrite rw)
    \<and> rw_reader rw = NewInMemoryGetter \<and> rw_writeSemaphore rw = Some 25 \<and> s_encrypter (rw_storer rw) = None
    \<and> s_backend (rw_storer rw) = \<lparr>be_provider = FSProvider, be_config = ConfigFromEnv (GetString v) FSProvider,
        be_bucket = b, be_s3 = None\<rparr> \<and> \<not> s_deleteUntracked (rw_storer rw)"
  using default_watch_flags [folded v_def] assms(2)
  by (auto simp: Store_NewFromEnv_def Crypt_NewFromEnv_def backend_NewFromEnv_def Backend_NewFromEnv_def
      ProviderMap_def S3Provider_def MemProvider_def FSProvider_def Backend_New_def Store_New_def
      NewReadWriteStorer_def Let_def split: prod.split)

lemma watchDynamic_handlers:
  "fst ` set (op_handlers (fold watchDynamic ds opr)) = fst ` set (op_handlers opr)
     \<union> (\<lambda>d. handler_key (gv_string (dyn_gv d)) (dyn_kind d) (dyn_namespace d)) ` set ds"
  by (induction ds arbitrary: opr) (auto simp: watchDynamic_def handlers_Set_def)


definition empty_openers :: openers where
  "empty_openers = \<lparr>open_s3 = (\<lambda>_. Err ErrNotFound), open_mem = (\<lambda>_. \<lparr>blobs = [], faults = \<lambda>_ _. None\<rparr>),
     open_fs = (\<lambda>_. Ok \<lparr>blobs = [], faults = \<lambda>_ _. None\<rparr>)\<rparr>"

definition plain_config :: config_codec where
  "plain_config = \<lparr>cfg_encode = (\<lambda>_. Ok ''{}''), cfg_decode = (\<lambda>_. Ok \<lparr>cfg_Resources = [], cfg_Version = 1\<rparr>)\<rparr>"

lemma spec_dynamics: "getDynamics spec_policy deployment_groups = Ok [deployments]"
  by (simp add: getDynamics_def spec_policy_def deployments_def spec_rule_def deployment_groups_def ParseGroupVersion_def
      supports_all_verbs_def required_verbs_def rule_selects_def all_namespaces_def ClientForGroupVersionResource_def
      Let_def go_put_def)


section \<open>The end\<close>


lemma closed_sample:
  "backend_objs (store_backend (snd (storer_Close (Plain sample_store)))) (rev_Key (RevisionFrom 0 web_obj2)) = None"
proof -
  have p: "be_provider (store_backend (Plain sample_store)) \<noteq> S3Provider"
    by (simp add: sample_store_def) (simp add: sample_backend_def S3Provider_def)
  have k: "rev_Key (RevisionFrom 0 web_obj2) = ''apps/v1/Deployment/default/web/11-0.json''"
    by (simp add: web_from) (simp add: key_eval path_eval number_eval unix_of_def second_def)
  show ?thesis unfolding storer_Close_closed(2) [OF p] k by (simp add: backend_objs_def sample_eval)
qed


section \<open>Restarts\<close>

text \<open>C3: a deployment that starts on an empty bucket, and whose process ends and starts again any number
  of times, also by a crash in the middle of a flush or a purge, is always in a reachable state of the
  transition system, so everything that is proved of those holds of it; and each start finds every
  object that the last process left, the configuration apart, which it writes anew.\<close>

theorem restarts_keep_objects:
  assumes "lifetime sem s" "leaves sem s objs" "process_start objs sem' opr"
  shows "reachable sem s \<and> reachable sem' (idle opr) \<and> objects_wf objs
    \<and> (\<forall>k. k \<noteq> DefaultConfig \<longrightarrow> backend_objs (store_backend (op_store opr)) k = go_get objs k)"
  using lifetime_reachable [OF assms(1)] lifetime_reachable [OF lifetime.restarts [OF assms]]
    leaves_wf [OF assms(2) reachable_inv] start_keeps [OF assms(3)] by simp

text \<open>A healthy bucket with well-formed objects can always be started on.\<close>

definition bucket_openers :: "(string, string) go_map \<Rightarrow> openers" where
  "bucket_openers objs = empty_openers\<lparr>open_fs := (\<lambda>_. Ok \<lparr>blobs = objs, faults = \<lambda>_ _. None\<rparr>)\<rparr>"

lemma start_exists:
  assumes "objects_wf objs"
  shows "\<exists>opr. process_start objs (Some 25) opr"
proof -
  define v where "v = viper_of (watch_flags @ root_flags)"
  note flags = default_watch_flags [folded v_def]
  let ?be = "\<lambda>objs. \<lparr>be_provider = FSProvider, be_config = ConfigFromEnv (GetString v) FSProvider,
      be_bucket = \<lparr>blobs = objs, faults = \<lambda>_ _. None\<rparr>, be_s3 = None\<rparr>"
  let ?world = "(sample_codec, \<lambda>_. 0, \<lambda>_. Ok [])"
  obtain s where st: "Store_NewFromEnv ?world undefined (bucket_openers objs) (GetString v) (\<lambda>_. False) (GetInt v)
      = Ok (Plain s)" "s_backend s = ?be objs" "s_writeSemaphore s = Some 25"
    using flags
    by (simp add: Store_NewFromEnv_def Crypt_NewFromEnv_def backend_NewFromEnv_def Backend_NewFromEnv_def
        ProviderMap_def S3Provider_def MemProvider_def FSProvider_def Backend_New_def Store_New_def
        bucket_openers_def empty_openers_def Let_def)
  let ?objs = "go_put DefaultConfig ''{}'' objs"
  have wr: "WriteConfig plain_config \<lparr>cfg_Resources = deployment_groups, cfg_Version = 0\<rparr> (?be objs) = (Ok (), ?be ?objs)"
    by (simp add: WriteConfig_def blob_defs plain_config_def Let_def) (simp add: DefaultConfig_def)
  let ?s = "s\<lparr>s_backend := ?be ?objs\<rparr>"
  have wf: "backend_wf (s_backend ?s)" "fault_free (s_backend ?s)"
    using assms by (auto simp: backend_wf_objects objects_wf_def set_go_put fault_free_def)
  have p: "bp_RPOPolicy spec_policy = Some \<lparr>PurgeOlderThan = second, RPO = second\<rparr>"
    "0 < RPO \<lparr>PurgeOlderThan = second, RPO = second\<rparr>"
    by (simp_all add: spec_policy_def second_def)
  obtain opr0 where new: "operator_NewFromEnv plain_config (Ok deployment_groups) (Ok (Plain s)) (Ok spec_policy)
      (GetString v) (GetInt v) = Ok opr0" "op_store opr0 = Plain ?s" "\<forall>(k, h) \<in> set (op_handlers opr0). rh_keyErr h = (\<lambda>_. None)"
    using wr spec_dynamics st(2) flags p
    by (simp add: operator_NewFromEnv_def operator_New_def flusher_New_def purger_New_def NewTicker_def or_fatal_def
        second_def watchDynamic_def handlers_Set_def go_put_def)
  obtain gone where "storer_Sync (op_handlers opr0) (Plain ?s) = (Ok gone, Plain ?s)"
    using store_Sync_spec [OF wf new(3)] by (simp add: storer_Sync_def)
  then have "\<exists>opr. run_start True opr0 = (Ok (), opr)"
    using new(2) by (cases gone) (simp add: run_start_def syncStore_def)
  then obtain opr where "run_start True opr0 = (Ok (), opr)" ..
  with st new(1) have "process_start objs (Some 25) opr"
    by (intro process_start.intros [where st = "Plain s" and getBool = "\<lambda>_. False"])
      (simp_all add: FSProvider_def S3Provider_def)
  then show ?thesis ..
qed

text \<open>A deployment is installed, killed, and started again on what it left.\<close>

theorem restarts_keep_objects_witness:
  "\<exists>s objs opr. lifetime (Some 25) s \<and> leaves (Some 25) s objs \<and> process_start objs (Some 25) opr
    \<and> reachable (Some 25) (idle opr)"
proof -
  have "objects_wf []" by (simp add: objects_wf_def)
  from start_exists [OF this] obtain opr1 where "process_start [] (Some 25) opr1" ..
  then have l: "lifetime (Some 25) (idle opr1)" by (rule lifetime.installed)
  let ?objs = "objects_of (op_store (sy_op (idle opr1)))"
  have k: "leaves (Some 25) (idle opr1) ?objs" by (rule leaves.killed)
  obtain opr2 where o: "process_start ?objs (Some 25) opr2"
    using start_exists [OF leaves_wf [OF k reachable_inv [OF lifetime_reachable [OF l]]]] ..
  with restarts_keep_objects [OF l k o] l k show ?thesis by blast
qed

end
