(* ===== verification/Discovery.thy ===== *)
theory Discovery
  imports Handlers
begin

text \<open>
  pkg/discovery: the client of one resource in one namespace.  The reads and watches of the API
  server that its informer makes are calls of the Kubernetes client, which is a parameter.
\<close>

record GroupVersionResource =
  gvr_gv :: GroupVersion
  gvr_resource :: string

record GroupVersionKind =
  gvk_gv :: GroupVersion
  gvk_kind :: string

definition Dynamic_GroupVersionResource :: "Dynamic \<Rightarrow> GroupVersionResource" where
  "Dynamic_GroupVersionResource d = \<lparr>gvr_gv = dyn_gv d, gvr_resource = dyn_resource d\<rparr>"

definition Dynamic_GroupVersionKind :: "Dynamic \<Rightarrow> GroupVersionKind" where
  "Dynamic_GroupVersionKind d = \<lparr>gvk_gv = dyn_gv d, gvk_kind = dyn_kind d\<rparr>"

definition Dynamic_Namespace :: "Dynamic \<Rightarrow> string" where
  "Dynamic_Namespace d = dyn_namespace d"

text \<open>The part of the Kubernetes client that serves the informers, by resource and namespace.\<close>

record ('o, 'l, 'w) resource_reader =
  rr_List :: "GroupVersionResource \<Rightarrow> string \<Rightarrow> 'o \<Rightarrow> 'l result"
  rr_Watch :: "GroupVersionResource \<Rightarrow> string \<Rightarrow> 'o \<Rightarrow> 'w result"

definition Dynamic_List :: "('o, 'l, 'w) resource_reader \<Rightarrow> Dynamic \<Rightarrow> 'o \<Rightarrow> 'l result" where
  "Dynamic_List api d options = rr_List api (Dynamic_GroupVersionResource d) (dyn_namespace d) options"

definition Dynamic_Watch :: "('o, 'l, 'w) resource_reader \<Rightarrow> Dynamic \<Rightarrow> 'o \<Rightarrow> 'w result" where
  "Dynamic_Watch api d options = rr_Watch api (Dynamic_GroupVersionResource d) (dyn_namespace d) options"

text \<open>What the informer of a client lists and watches (\<open>watchDynamic\<close> of pkg/controller).\<close>

record ('o, 'l, 'w) ListWatch =
  ListFunc :: "'o \<Rightarrow> 'l result"
  WatchFunc :: "'o \<Rightarrow> 'w result"

definition informer_source :: "('o, 'l, 'w) resource_reader \<Rightarrow> Dynamic \<Rightarrow> ('o, 'l, 'w) ListWatch" where
  "informer_source api client = \<lparr>ListFunc = Dynamic_List api client, WatchFunc = Dynamic_Watch api client\<rparr>"

text \<open>
  An informer sees what the API server has of exactly the resource and namespace that its client
  was made for; the informers of two clients that differ there ask for different things.
\<close>

theorem informer_source_exact:
  "ListFunc (informer_source api (ClientForGroupVersionResource gv resource kind namespace))
     = rr_List api \<lparr>gvr_gv = gv, gvr_resource = resource\<rparr> namespace"
  "WatchFunc (informer_source api (ClientForGroupVersionResource gv resource kind namespace))
     = rr_Watch api \<lparr>gvr_gv = gv, gvr_resource = resource\<rparr> namespace"
  by (simp_all add: informer_source_def Dynamic_List_def Dynamic_Watch_def fun_eq_iff
      Dynamic_GroupVersionResource_def ClientForGroupVersionResource_def)

lemma Dynamic_identity:
  "d = ClientForGroupVersionResource gv resource kind namespace
   \<longleftrightarrow> Dynamic_GroupVersionResource d = \<lparr>gvr_gv = gv, gvr_resource = resource\<rparr>
     \<and> Dynamic_GroupVersionKind d = \<lparr>gvk_gv = gv, gvk_kind = kind\<rparr> \<and> Dynamic_Namespace d = namespace"
  by (cases d) (auto simp: Dynamic_GroupVersionResource_def Dynamic_GroupVersionKind_def Dynamic_Namespace_def
      ClientForGroupVersionResource_def)

end
