(* ===== verification/Work_Queue.thy ===== *)
theory Work_Queue
  imports Main
begin

text \<open>
  The work queues of the handlers (the vendored k8s.io/client-go/util/workqueue): an item that is
  added twice before it is taken is handed out once, and an item that is added while it is
  being processed is handed out again when that is done.  An item is what Go compares, a pointer or a pair of
  pointers, so the type of items is a parameter.  The lock of a queue makes each call one step.
\<close>

section \<open>The queue\<close>

record 'a work_queue =
  wq_queue :: "'a list"
  wq_dirty :: "'a set"
  wq_processing :: "'a set"
  wq_shuttingDown :: bool

definition wq_New :: "'a work_queue" where
  "wq_New = \<lparr>wq_queue = [], wq_dirty = {}, wq_processing = {}, wq_shuttingDown = False\<rparr>"

definition wq_Add :: "'a \<Rightarrow> 'a work_queue \<Rightarrow> 'a work_queue" where
  "wq_Add item q =
     (if wq_shuttingDown q then q
      else if item \<in> wq_dirty q then q
      else let q = q\<lparr>wq_dirty := insert item (wq_dirty q)\<rparr> in
           if item \<in> wq_processing q then q
           else q\<lparr>wq_queue := wq_queue q @ [item]\<rparr>)"

definition wq_Len :: "'a work_queue \<Rightarrow> nat" where
  "wq_Len q = length (wq_queue q)"

text \<open>What \<open>Get\<close> does when it holds the lock: it waits, says that the queue shut down, or hands an item out.\<close>

datatype 'a got = Waits | ShutDown | Item 'a

definition wq_Get :: "'a work_queue \<Rightarrow> 'a got \<times> 'a work_queue" where
  "wq_Get q = (case wq_queue q of
     [] \<Rightarrow> (if \<not> wq_shuttingDown q then (Waits, q) else (ShutDown, q))
   | item # rest \<Rightarrow> (Item item, q\<lparr>wq_queue := rest, wq_processing := insert item (wq_processing q),
       wq_dirty := wq_dirty q - {item}\<rparr>))"

definition wq_Done :: "'a \<Rightarrow> 'a work_queue \<Rightarrow> 'a work_queue" where
  "wq_Done item q =
     (let q = q\<lparr>wq_processing := wq_processing q - {item}\<rparr> in
      if item \<in> wq_dirty q then q\<lparr>wq_queue := wq_queue q @ [item]\<rparr> else q)"

definition wq_ShutDown :: "'a work_queue \<Rightarrow> 'a work_queue" where
  "wq_ShutDown q = q\<lparr>wq_shuttingDown := True\<rparr>"

text \<open>The comment of the code: the queue holds each dirty item that is not being processed, once.\<close>

definition wq_inv :: "'a work_queue \<Rightarrow> bool" where
  "wq_inv q \<longleftrightarrow> distinct (wq_queue q) \<and> set (wq_queue q) = wq_dirty q - wq_processing q
     \<and> finite (wq_dirty q)"

section \<open>What a worker may expect of a queue\<close>

text \<open>
  \<open>todo\<close> are the items to be handed out, \<open>busy\<close> those that are being processed, \<open>closed\<close> is whether
  items are still accepted.
\<close>

locale work_source =
  fixes inv :: "'q \<Rightarrow> bool" and todo busy :: "'q \<Rightarrow> 'a set" and closed :: "'q \<Rightarrow> bool"
    and add :: "'a \<Rightarrow> 'q \<Rightarrow> 'q" and get :: "'q \<Rightarrow> 'a got \<times> 'q" and finish :: "'a \<Rightarrow> 'q \<Rightarrow> 'q" and close :: "'q \<Rightarrow> 'q"
  assumes add_inv: "inv q \<Longrightarrow> inv (add x q)"
    and add_todo: "inv q \<Longrightarrow> todo (add x q) = (if closed q then todo q else insert x (todo q))"
    and add_busy: "inv q \<Longrightarrow> busy (add x q) = busy q \<and> closed (add x q) = closed q"
    and get_item: "inv q \<Longrightarrow> get q = (Item x, q') \<Longrightarrow> inv q' \<and> x \<in> todo q \<and> x \<notin> busy q
      \<and> todo q' = todo q - {x} \<and> busy q' = insert x (busy q) \<and> closed q' = closed q"
    and get_shut: "inv q \<Longrightarrow> get q = (ShutDown, q') \<Longrightarrow> q' = q \<and> closed q \<and> todo q \<subseteq> busy q"
    and get_waits: "inv q \<Longrightarrow> get q = (Waits, q') \<Longrightarrow> q' = q \<and> \<not> closed q \<and> todo q \<subseteq> busy q"
    and finish_inv: "inv q \<Longrightarrow> x \<in> busy q \<Longrightarrow> inv (finish x q)"
    and finish_sets: "inv q \<Longrightarrow> todo (finish x q) = todo q \<and> busy (finish x q) = busy q - {x} \<and> closed (finish x q) = closed q"
    and close_inv: "inv q \<Longrightarrow> inv (close q)"
    and close_sets: "todo (close q) = todo q \<and> busy (close q) = busy q \<and> closed (close q)"
begin

text \<open>An item that comes again while it is processed is not handed out before that is done, and then it is still to do.\<close>

lemma comes_again:
  assumes "inv q" "x \<in> busy q" "\<not> closed q"
  shows "fst (get (add x q)) \<noteq> Item x" "x \<in> todo (finish x (add x q))" "x \<notin> busy (finish x (add x q))"
proof -
  have i: "inv (add x q)" and b: "busy (add x q) = busy q" "todo (add x q) = insert x (todo q)"
    using add_inv add_busy add_todo assms by auto
  show "fst (get (add x q)) \<noteq> Item x"
    using get_item [OF i, of x] b(1) assms(2) by (cases "get (add x q)") auto
  show "x \<in> todo (finish x (add x q))" "x \<notin> busy (finish x (add x q))"
    using finish_sets [OF i, of x] b by auto
qed

text \<open>A queue that is not processed by anyone hands out all it has before it waits or ends.\<close>

lemma idle_hands_out:
  assumes "inv q" "busy q = {}" "todo q \<noteq> {}"
  shows "\<exists>x q'. get q = (Item x, q') \<and> x \<in> todo q"
proof (cases "get q")
  case (Pair g q')
  then show ?thesis using get_item [OF assms(1)] get_shut [OF assms(1)] get_waits [OF assms(1)] assms(2,3)
    by (cases g) auto
qed

end

lemma wq_Add_sets:
  "wq_dirty (wq_Add x q) = (if wq_shuttingDown q then wq_dirty q else insert x (wq_dirty q))"
  "wq_processing (wq_Add x q) = wq_processing q" "wq_shuttingDown (wq_Add x q) = wq_shuttingDown q"
  by (auto simp: wq_Add_def Let_def)

lemma wq_Done_sets:
  "wq_dirty (wq_Done x q) = wq_dirty q" "wq_processing (wq_Done x q) = wq_processing q - {x}"
  "wq_shuttingDown (wq_Done x q) = wq_shuttingDown q"
  by (simp_all add: wq_Done_def Let_def)

lemma wq_Add_inv: "wq_inv q \<Longrightarrow> wq_inv (wq_Add x q)"
  by (auto simp: wq_inv_def wq_Add_def Let_def)

lemma wq_Done_inv: "wq_inv q \<Longrightarrow> x \<in> wq_processing q \<Longrightarrow> wq_inv (wq_Done x q)"
  by (auto simp: wq_inv_def wq_Done_def Let_def)

lemma wq_Get_item:
  assumes "wq_inv q" "wq_Get q = (Item x, q')"
  shows "wq_inv q' \<and> x \<in> wq_dirty q \<and> x \<notin> wq_processing q \<and> wq_dirty q' = wq_dirty q - {x}
    \<and> wq_processing q' = insert x (wq_processing q) \<and> wq_shuttingDown q' = wq_shuttingDown q"
proof (cases "wq_queue q")
  case (Cons y rest)
  then have q': "q' = q\<lparr>wq_queue := rest, wq_processing := insert y (wq_processing q), wq_dirty := wq_dirty q - {y}\<rparr>" "y = x"
    using assms(2) by (auto simp: wq_Get_def)
  have "insert y (set rest) = wq_dirty q - wq_processing q" "y \<notin> set rest" "distinct rest" "finite (wq_dirty q)"
    using assms(1) Cons by (simp_all add: wq_inv_def)
  then show ?thesis unfolding q' wq_inv_def by auto
qed (use assms in \<open>simp add: wq_Get_def split: if_splits\<close>)

lemma wq_Get_empty:
  assumes "wq_inv q" "wq_Get q = (g, q')" "\<forall>x. g \<noteq> Item x"
  shows "q' = q \<and> wq_dirty q \<subseteq> wq_processing q \<and> (g = ShutDown \<longleftrightarrow> wq_shuttingDown q)"
  using assms by (cases "wq_queue q") (auto simp: wq_Get_def wq_inv_def split: if_splits)

interpretation wq: work_source wq_inv wq_dirty wq_processing wq_shuttingDown wq_Add wq_Get wq_Done wq_ShutDown
proof
  fix q :: "'a work_queue"
  show "wq_inv q \<Longrightarrow> wq_inv (wq_ShutDown q)" by (simp add: wq_inv_def wq_ShutDown_def)
  show "wq_dirty (wq_ShutDown q) = wq_dirty q \<and> wq_processing (wq_ShutDown q) = wq_processing q
    \<and> wq_shuttingDown (wq_ShutDown q)" by (simp add: wq_ShutDown_def)
  fix x q'
  show "wq_inv q \<Longrightarrow> wq_Get q = (Item x, q') \<Longrightarrow> wq_inv q' \<and> x \<in> wq_dirty q \<and> x \<notin> wq_processing q
      \<and> wq_dirty q' = wq_dirty q - {x} \<and> wq_processing q' = insert x (wq_processing q)
      \<and> wq_shuttingDown q' = wq_shuttingDown q" by (rule wq_Get_item)
  show "wq_inv q \<Longrightarrow> wq_Get q = (ShutDown, q') \<Longrightarrow> q' = q \<and> wq_shuttingDown q \<and> wq_dirty q \<subseteq> wq_processing q"
    using wq_Get_empty [of q ShutDown q'] by simp
  show "wq_inv q \<Longrightarrow> wq_Get q = (Waits, q') \<Longrightarrow> q' = q \<and> \<not> wq_shuttingDown q \<and> wq_dirty q \<subseteq> wq_processing q"
    using wq_Get_empty [of q Waits q'] by simp
qed (simp_all add: wq_Add_sets wq_Done_sets wq_Add_inv wq_Done_inv)

lemma wq_inv_New [simp]: "wq_inv wq_New"
  by (simp add: wq_inv_def wq_New_def)

end
