(* ===== verification/Workers.thy ===== *)
theory Workers
  imports Work_Queue Controller
begin

text \<open>
  The workers of one handler (\<open>Run\<close>, \<open>runWorker\<close> and \<open>processNextWorkItem\<close> of pkg/controller): they
  share the handler's work queue, take items from it and process them until it has shut down and
  is empty.  A step is one call of the queue; the processing of an item is one step with the call
  of \<open>Done\<close> that is deferred.  Each step is labelled with what it does.
\<close>

section \<open>Workers\<close>

datatype 'a worker = Waiting | Working 'a | Stopped

record 'a pool =
  pl_queue :: "'a work_queue"
  pl_workers :: "'a worker list"
  pl_op :: operator

datatype 'a pool_event = Add 'a | Take nat 'a | Finish nat 'a | End nat | Shut

text \<open>A reading of the clock, in seconds that Go can hold.\<close>

definition clock_ok :: "gotime \<Rightarrow> bool" where
  "clock_ok now \<longleftrightarrow> 0 \<le> unix_of now \<and> unix_of now \<le> max_int64"

text \<open>
  \<open>deref\<close> gives the work item that a pointer or pair of pointers stands for.  A worker that gets a
  shut queue returns, and is not started again, as the context is done before the queues are shut.
\<close>

inductive pool_step :: "('a \<Rightarrow> work_item) \<Rightarrow> 'a pool \<Rightarrow> 'a pool_event \<Rightarrow> 'a pool \<Rightarrow> bool"
  for deref :: "'a \<Rightarrow> work_item" where
  add: "pool_step deref p (Add x) (p\<lparr>pl_queue := wq_Add x (pl_queue p)\<rparr>)"
| take: "i < length (pl_workers p) \<Longrightarrow> pl_workers p ! i = Waiting \<Longrightarrow> wq_Get (pl_queue p) = (Item x, q)
    \<Longrightarrow> pool_step deref p (Take i x) (p\<lparr>pl_queue := q, pl_workers := (pl_workers p)[i := Working x]\<rparr>)"
| finish: "i < length (pl_workers p) \<Longrightarrow> pl_workers p ! i = Working x \<Longrightarrow> clock_ok now
    \<Longrightarrow> processNextWorkItem now (Some (deref x)) (pl_op p) = (Ok True, opr)
    \<Longrightarrow> pool_step deref p (Finish i x)
          (p\<lparr>pl_queue := wq_Done x (pl_queue p), pl_workers := (pl_workers p)[i := Waiting], pl_op := opr\<rparr>)"
| ends: "i < length (pl_workers p) \<Longrightarrow> pl_workers p ! i = Waiting \<Longrightarrow> wq_Get (pl_queue p) = (ShutDown, q)
    \<Longrightarrow> pool_step deref p (End i) (p\<lparr>pl_workers := (pl_workers p)[i := Stopped]\<rparr>)"
| shut: "pool_step deref p Shut (p\<lparr>pl_queue := wq_ShutDown (pl_queue p)\<rparr>)"

inductive pool_run :: "('a \<Rightarrow> work_item) \<Rightarrow> 'a pool \<Rightarrow> 'a pool_event list \<Rightarrow> 'a pool \<Rightarrow> bool"
  for deref :: "'a \<Rightarrow> work_item" where
  none: "pool_run deref p [] p"
| step: "pool_step deref p e p' \<Longrightarrow> pool_run deref p' es p'' \<Longrightarrow> pool_run deref p (e # es) p''"

inductive_cases pool_run_NilE: "pool_run deref p [] p'"
inductive_cases pool_run_ConsE: "pool_run deref p (e # es) p'"
inductive_cases pool_stepE: "pool_step deref p e p'"

definition start_pool :: "nat \<Rightarrow> operator \<Rightarrow> 'a pool" where
  "start_pool threadiness opr = \<lparr>pl_queue = wq_New, pl_workers = replicate threadiness Waiting, pl_op = opr\<rparr>"

definition all_stopped :: "'a pool \<Rightarrow> bool" where
  "all_stopped p \<longleftrightarrow> (\<forall>w \<in> set (pl_workers p). w = Stopped)"

section \<open>The invariant\<close>

text \<open>
  What is being processed is held by exactly one worker; a worker has stopped only on a shut
  queue, and the last one leaves nothing to do.
\<close>

definition held :: "'a worker list \<Rightarrow> 'a set \<Rightarrow> bool" where
  "held ws busy \<longleftrightarrow> (\<forall>x. x \<in> busy \<longleftrightarrow> (\<exists>i < length ws. ws ! i = Working x))
     \<and> (\<forall>i j x. i < length ws \<longrightarrow> j < length ws \<longrightarrow> ws ! i = Working x \<longrightarrow> ws ! j = Working x \<longrightarrow> i = j)"

definition pool_inv :: "'a pool \<Rightarrow> bool" where
  "pool_inv p \<longleftrightarrow> wq_inv (pl_queue p) \<and> held (pl_workers p) (wq_processing (pl_queue p))
     \<and> (Stopped \<in> set (pl_workers p) \<longrightarrow> wq_shuttingDown (pl_queue p))
     \<and> (all_stopped p \<longrightarrow> pl_workers p \<noteq> [] \<longrightarrow> wq_dirty (pl_queue p) = {})"

lemma held_update:
  assumes "held ws busy" "i < length ws" "\<forall>x. ws ! i = Working x \<longleftrightarrow> old = Some x"
    and "\<forall>x. v = Working x \<longleftrightarrow> new = Some x" "\<forall>x. new = Some x \<longrightarrow> x \<notin> busy"
  shows "held (ws[i := v]) (busy - set_option old \<union> set_option new)"
proof -
  have b: "x \<in> busy \<longleftrightarrow> (\<exists>i < length ws. ws ! i = Working x)" for x using assms(1) by (simp add: held_def)
  have u: "j < length ws \<Longrightarrow> ws ! j = Working x \<Longrightarrow> k < length ws \<Longrightarrow> ws ! k = Working x \<Longrightarrow> j = k" for j k x
    using assms(1) by (simp add: held_def)
  have "(\<exists>j < length ws. ws[i := v] ! j = Working x) \<longleftrightarrow> x \<in> busy - set_option old \<union> set_option new" for x
  proof -
    have "(\<exists>j < length ws. ws[i := v] ! j = Working x) \<longleftrightarrow> new = Some x \<or> (\<exists>j < length ws. j \<noteq> i \<and> ws ! j = Working x)"
      using assms(2,4) by (auto simp: nth_list_update)
    also have "(\<exists>j < length ws. j \<noteq> i \<and> ws ! j = Working x) \<longleftrightarrow> x \<in> busy \<and> old \<noteq> Some x"
      using b [of x] u [of _ x i] assms(2,3) by auto
    finally show ?thesis by auto
  qed
  moreover have "j = k" if "j < length ws" "k < length ws" "ws[i := v] ! j = Working x" "ws[i := v] ! k = Working x" for j k x
    using that u [of j x k] assms(2,4,5) b [of x] by (auto simp: nth_list_update split: if_splits)
  ultimately show ?thesis by (simp add: held_def)
qed

lemma held_take:
  "held ws busy \<Longrightarrow> i < length ws \<Longrightarrow> ws ! i = Waiting \<Longrightarrow> x \<notin> busy \<Longrightarrow> held (ws[i := Working x]) (insert x busy)"
  using held_update [of ws busy i None "Working x" "Some x"] by simp

lemma held_finish:
  "held ws busy \<Longrightarrow> i < length ws \<Longrightarrow> ws ! i = Working x \<Longrightarrow> held (ws[i := Waiting]) (busy - {x})"
  using held_update [of ws busy i "Some x" Waiting None] by simp

lemma held_end:
  "held ws busy \<Longrightarrow> i < length ws \<Longrightarrow> ws ! i = Waiting \<Longrightarrow> held (ws[i := Stopped]) busy"
  using held_update [of ws busy i None Stopped None] by simp

lemma start_pool_inv: "pool_inv (start_pool n opr)"
  by (simp add: pool_inv_def held_def start_pool_def) (simp add: wq_New_def)

lemma all_stopped_has: "all_stopped p \<Longrightarrow> pl_workers p \<noteq> [] \<Longrightarrow> Stopped \<in> set (pl_workers p)"
  by (cases "pl_workers p") (auto simp: all_stopped_def)

lemma stopped_update:
  assumes "i < length ws" "v \<noteq> Stopped"
  shows "Stopped \<in> set (ws[i := v]) \<Longrightarrow> Stopped \<in> set ws" "\<not> (\<forall>w \<in> set (ws[i := v]). w = Stopped)"
  using assms set_update_subset_insert [of ws i v] set_update_memI [OF assms(1), of v] by auto

lemma pool_step_inv:
  assumes "pool_step deref p e p'" "pool_inv p"
  shows "pool_inv p'"
proof -
  have w: "wq_inv (pl_queue p)" and h: "held (pl_workers p) (wq_processing (pl_queue p))"
    and st: "Stopped \<in> set (pl_workers p) \<Longrightarrow> wq_shuttingDown (pl_queue p)"
    using assms(2) by (simp_all add: pool_inv_def)
  from assms(1) show ?thesis
  proof cases
    case (add x)
    then show ?thesis using assms(2) wq.add_inv [OF w, of x] all_stopped_has [of p]
      by (auto simp: pool_inv_def wq_Add_sets all_stopped_def)
  next
    case (take i x q)
    note g = wq.get_item [OF w take(5)]
    show ?thesis
      using g held_take [OF h take(3,4)] st stopped_update [OF take(3), of "Working x"] unfolding take(2)
      by (auto simp: pool_inv_def all_stopped_def)
  next
    case (finish i x now opr)
    have "x \<in> wq_processing (pl_queue p)" using h finish(3,4) by (auto simp: held_def)
    then show ?thesis
      using wq.finish_inv [OF w] held_finish [OF h finish(3,4)] st stopped_update [OF finish(3), of Waiting]
      unfolding finish(2) by (auto simp: pool_inv_def all_stopped_def wq_Done_sets)
  next
    case (ends i q)
    note g = wq.get_shut [OF w ends(5)]
    have "wq_dirty (pl_queue p) = {}" if "\<forall>w \<in> set ((pl_workers p)[i := Stopped]). w = Stopped"
    proof -
      have "\<forall>j < length (pl_workers p). (pl_workers p)[i := Stopped] ! j = Stopped"
        using that by (simp add: all_set_conv_all_nth)
      then have "\<forall>j < length (pl_workers p). pl_workers p ! j = (if j = i then Waiting else Stopped)"
        using ends(4) by (auto simp: nth_list_update split: if_splits)
      then have "wq_processing (pl_queue p) = {}" using h by (fastforce simp: held_def split: if_splits)
      then show ?thesis using g by auto
    qed
    then show ?thesis using assms(2) g held_end [OF h ends(3,4)] unfolding ends(2)
      by (auto simp: pool_inv_def all_stopped_def)
  next
    case shut
    then show ?thesis using assms(2) wq.close_inv [OF w] wq.close_sets [of "pl_queue p"]
      by (auto simp: pool_inv_def all_stopped_def)
  qed
qed

lemma pool_run_inv: "pool_run deref p es p' \<Longrightarrow> pool_inv p \<Longrightarrow> pool_inv p'"
  by (induction rule: pool_run.induct) (auto intro: pool_step_inv)

section \<open>Every accepted item is processed\<close>

text \<open>What is to do is taken before nothing is to do, and what is taken is finished by the same worker.\<close>

lemma taken:
  assumes "pool_run deref p es p'" "pool_inv p" "x \<in> wq_dirty (pl_queue p)" "x \<notin> wq_dirty (pl_queue p')"
  shows "\<exists>i as bs p1. es = as @ Take i x # bs \<and> i < length (pl_workers p1) \<and> pl_workers p1 ! i = Working x
    \<and> pool_inv p1 \<and> pool_run deref p1 bs p'"
  using assms
proof (induction rule: pool_run.induct)
  case (step p e p1 es p2)
  show ?case
  proof (cases "x \<in> wq_dirty (pl_queue p1)")
    case True
    with step.IH pool_step_inv [OF step.hyps(1) step.prems(1)] step.prems(3) show ?thesis
      by (metis append_Cons)
  next
    case False
    have w: "wq_inv (pl_queue p)" using step.prems(1) by (simp add: pool_inv_def)
    from step.hyps(1) obtain i where i: "e = Take i x" "i < length (pl_workers p1)" "pl_workers p1 ! i = Working x"
    proof cases
      case (take i y q)
      then have "y = x" using wq.get_item [OF w take(5)] False step.prems(2) by auto
      then show ?thesis using that [of i] take by simp
    qed (use False step.prems(2) in \<open>auto simp: wq_Add_sets wq_Done_sets wq_ShutDown_def split: if_splits\<close>)
    then have "e # es = [] @ Take i x # es" by simp
    with i show ?thesis using pool_step_inv [OF step.hyps(1) step.prems(1)] step.hyps(2) by blast
  qed
qed simp

lemma finished:
  assumes "pool_run deref p es p'" "i < length (pl_workers p)" "pl_workers p ! i = Working x" "pl_workers p' ! i \<noteq> Working x"
  shows "\<exists>as bs. es = as @ Finish i x # bs"
  using assms
proof (induction rule: pool_run.induct)
  case (step p e p1 es p2)
  from step.hyps(1) have "e = Finish i x \<or> (pl_workers p1 ! i = Working x \<and> i < length (pl_workers p1))"
    by cases (use step.prems in \<open>auto simp: nth_list_update\<close>)
  then show ?case using step.IH step.prems(3) by (metis append_Nil append_Cons)
qed simp

lemma run_workers_length: "pool_run deref p es p' \<Longrightarrow> length (pl_workers p') = length (pl_workers p)"
  by (induction rule: pool_run.induct) (auto elim: pool_stepE)

lemma run_open:
  assumes "pool_run deref p es p'" "Shut \<notin> set es"
  shows "wq_shuttingDown (pl_queue p') = wq_shuttingDown (pl_queue p)"
  using assms
proof (induction rule: pool_run.induct)
  case (step p e p1 es p2)
  from step.hyps(1) have "wq_shuttingDown (pl_queue p1) = wq_shuttingDown (pl_queue p)"
    by cases (use step.prems in \<open>auto simp: wq_Add_sets wq_Done_sets wq_Get_def split: list.splits if_splits\<close>)
  then show ?case using step.IH step.prems by simp
qed simp

lemma pool_run_append:
  "pool_run deref p (as @ bs) p' \<longleftrightarrow> (\<exists>p1. pool_run deref p as p1 \<and> pool_run deref p1 bs p')"
proof (induction as arbitrary: p)
  case (Cons a as)
  then show ?case by (metis append_Cons pool_run_ConsE pool_run.step)
qed (auto intro: pool_run.none elim: pool_run_NilE)

lemma accepted_processed:
  assumes "pool_run deref p es p'" "pool_inv p" "\<not> wq_shuttingDown (pl_queue p)" "pl_workers p \<noteq> []"
    and "all_stopped p'" "es = es1 @ Add x # es2" "Shut \<notin> set es1"
  shows "\<exists>i as bs cs. es2 = as @ Take i x # bs @ Finish i x # cs"
proof -
  obtain p1 p2 where p: "pool_run deref p es1 p1" "pool_step deref p1 (Add x) p2" "pool_run deref p2 es2 p'"
    using assms(1) unfolding assms(6) pool_run_append by (auto elim: pool_run_ConsE)
  have inv: "pool_inv p2" by (rule pool_step_inv [OF p(2) pool_run_inv [OF p(1) assms(2)]])
  have "x \<in> wq_dirty (pl_queue p2)"
    using p(2) run_open [OF p(1) assms(7)] assms(3) by cases (auto simp: wq_Add_sets)
  moreover have n: "pl_workers p' \<noteq> []" using run_workers_length [OF assms(1)] assms(4) by auto
  then have "x \<notin> wq_dirty (pl_queue p')"
    using pool_run_inv [OF assms(1,2)] assms(5) by (simp add: pool_inv_def)
  ultimately obtain i as bs p3 where t: "es2 = as @ Take i x # bs" "i < length (pl_workers p3)"
    "pl_workers p3 ! i = Working x" "pool_run deref p3 bs p'" using taken [OF p(3) inv] by blast
  have "i < length (pl_workers p')" using run_workers_length [OF t(4)] t(2) by simp
  then have "pl_workers p' ! i = Stopped"
    using assms(5) by (simp add: all_stopped_def)
  then have "pl_workers p' ! i \<noteq> Working x" by simp
  from finished [OF t(4,2,3) this] t(1) show ?thesis by auto
qed

section \<open>Draining a shut queue\<close>

primrec weight :: "'a worker \<Rightarrow> nat" where
  "weight Waiting = 1" | "weight (Working x) = 2" | "weight Stopped = 0"

lemma weight_le: "weight w \<le> 2"
  by (cases w) simp_all

text \<open>The steps the workers can still make when nothing is added: two for each item, one to stop.\<close>

definition work_left :: "'a pool \<Rightarrow> nat" where
  "work_left p = 2 * card (wq_dirty (pl_queue p)) + sum_list (map weight (pl_workers p))"

primrec worker_event :: "'a pool_event \<Rightarrow> bool" where
  "worker_event (Add x) = False" | "worker_event (Take i x) = True" | "worker_event (Finish i x) = True"
| "worker_event (End i) = True" | "worker_event Shut = False"

lemma sum_weight_update:
  assumes "i < length ws"
  shows "sum_list (map weight (ws[i := v])) + weight (ws ! i) = sum_list (map weight ws) + weight v"
  using assms by (induction ws arbitrary: i) (auto simp: nth_Cons split: nat.split)

lemma step_left:
  assumes "pool_step deref p e p'" "pool_inv p" "wq_shuttingDown (pl_queue p)"
  shows "work_left p = work_left p' + (if worker_event e then 1 else 0) \<and> wq_shuttingDown (pl_queue p')"
proof -
  have w: "wq_inv (pl_queue p)" and f: "finite (wq_dirty (pl_queue p))"
    using assms(2) by (simp_all add: pool_inv_def wq_inv_def)
  from assms(1) show ?thesis
  proof cases
    case (take i x q)
    note g = wq.get_item [OF w take(5)]
    have "card (wq_dirty (pl_queue p)) = Suc (card (wq_dirty q))" using g card_Suc_Diff1 [OF f, of x] by presburger
    then show ?thesis using g take sum_weight_update [OF take(3), of "Working x"] assms(3) by (simp add: work_left_def)
  next
    case (finish i x now opr)
    then show ?thesis using sum_weight_update [OF finish(3), of Waiting] assms(3) by (simp add: work_left_def wq_Done_sets)
  next
    case (ends i q)
    then show ?thesis using sum_weight_update [OF ends(3), of Stopped] assms(3) by (simp add: work_left_def)
  qed (use assms(3) in \<open>simp_all add: work_left_def wq_Add_sets wq.close_sets\<close>)
qed

lemma run_left:
  assumes "pool_run deref p es p'" "pool_inv p" "wq_shuttingDown (pl_queue p)"
  shows "work_left p = work_left p' + length (filter worker_event es) \<and> wq_shuttingDown (pl_queue p')"
  using assms
proof (induction rule: pool_run.induct)
  case (step p e p1 es p2)
  from step_left [OF step.hyps(1) step.prems] step.IH [OF pool_step_inv [OF step.hyps(1) step.prems(1)]]
  show ?case by auto
qed simp

lemma shut_progress:
  assumes "pool_inv p" "wq_shuttingDown (pl_queue p)" "\<not> all_stopped p"
    and "\<forall>x. Working x \<in> set (pl_workers p) \<longrightarrow> (\<exists>now opr. clock_ok now \<and> processNextWorkItem now (Some (deref x)) (pl_op p) = (Ok True, opr))"
  shows "\<exists>e p'. worker_event e \<and> pool_step deref p e p'"
proof -
  obtain i where i: "i < length (pl_workers p)" "pl_workers p ! i \<noteq> Stopped"
    using assms(3) by (auto simp: all_stopped_def in_set_conv_nth)
  show ?thesis
  proof (cases "pl_workers p ! i")
    case Waiting
    obtain g q where g: "wq_Get (pl_queue p) = (g, q)" by fastforce
    show ?thesis
    proof (cases g)
      case Waits
      then show ?thesis using wq.get_waits g assms(1,2) by (auto simp: pool_inv_def)
    next
      case ShutDown
      then show ?thesis using pool_step.ends [OF i(1) Waiting, of q deref] g by (intro exI [of _ "End i"]) auto
    next
      case (Item x)
      then show ?thesis using pool_step.take [OF i(1) Waiting, of x q deref] g by (intro exI [of _ "Take i x"]) auto
    qed
  next
    case (Working x)
    then have "Working x \<in> set (pl_workers p)" using i(1) by (metis nth_mem)
    then obtain now opr where now: "clock_ok now" "processNextWorkItem now (Some (deref x)) (pl_op p) = (Ok True, opr)"
      using assms(4) by blast
    from pool_step.finish [where deref = deref, OF i(1) Working now] show ?thesis by (intro exI [of _ "Finish i x"]) auto
  qed (use i(2) in simp)
qed

section \<open>What the workers do to the operator\<close>

text \<open>An update of an object that the informer still has, which \<open>rule\<close> applies to.\<close>

definition pair_ready :: "operator \<Rightarrow> BackupRule \<Rightarrow> object \<Rightarrow> bool" where
  "pair_ready opr rule new \<longleftrightarrow>
     (\<forall>now. storer_RuleFor (op_policy opr) (RevisionFrom now new) (op_store opr)
        = (Ok (Some rule), (op_store opr, RevisionFrom now new)))
     \<and> br_LabelSelector rule = None
     \<and> (br_ResourceNames rule = [] \<or> GetName new \<in> set (br_ResourceNames rule))
     \<and> (\<exists>h. HandlerFor (op_handlers opr) (GetAPIVersion new) (GetKind new) (GetNamespace new) = Some h
          \<and> (\<forall>now. informer_has h (RevisionFrom now new)))"

definition pair_changed :: "BackupRule \<Rightarrow> object \<Rightarrow> object \<Rightarrow> bool" where
  "pair_changed rule old new \<longleftrightarrow> ResourceVersion (RevisionFrom 0 old) \<noteq> ResourceVersion (RevisionFrom 0 new)
     \<and> (\<exists>f \<in> set (br_Fields rule). field_changed old new f)"

lemma RevisionFrom_fields [simp]:
  "Name (RevisionFrom now u) = GetName u"
  by (simp add: RevisionFrom_def Name_def split_beta)

lemma RevisionFrom_version: "ResourceVersion (RevisionFrom now u) = ResourceVersion (RevisionFrom 0 u)"
  by (simp add: RevisionFrom_def ResourceVersion_def split_beta)

lemma RevisionFrom_valid:
  assumes "clock_ok now" "valid_revision (meta (RevisionFrom 0 u))"
  shows "valid_revision (meta (RevisionFrom now u))"
  using assms by (simp add: RevisionFrom_def valid_revision_def clock_ok_def split_beta)

lemma process_ready:
  assumes "pair_ready opr rule new"
  shows "processNextWorkItem now (Some (WorkPair old new)) opr = (Ok True,
     if pair_changed rule old new then opr\<lparr>op_flusher := flusher_Queue (RevisionFrom now new) (op_flusher opr)\<rparr> else opr)"
proof -
  obtain h where h: "HandlerFor (op_handlers opr) (GetAPIVersion new) (GetKind new) (GetNamespace new) = Some h"
    "informer_has h (RevisionFrom now new)" using assms by (auto simp: pair_ready_def)
  have v: "ResourceVersion (RevisionFrom now old) \<noteq> ResourceVersion (RevisionFrom now new)
      \<longleftrightarrow> ResourceVersion (RevisionFrom 0 old) \<noteq> ResourceVersion (RevisionFrom 0 new)"
    using RevisionFrom_version [of now] by simp
  show ?thesis
    using process_pair [of opr now new rule h old] assms h unfolding v
    by (simp add: pair_ready_def processNextWorkItem_def pair_changed_def)
qed

lemma pair_ready_flusher [simp]: "pair_ready (opr\<lparr>op_flusher := f\<rparr>) rule new = pair_ready opr rule new"
  by (simp add: pair_ready_def)

text \<open>
  \<open>rule\<close>, \<open>old\<close> and \<open>new\<close> describe the items of a run that are all updates.
\<close>

definition updates :: "('a \<Rightarrow> work_item) \<Rightarrow> ('a \<Rightarrow> BackupRule) \<Rightarrow> ('a \<Rightarrow> object) \<Rightarrow> ('a \<Rightarrow> object) \<Rightarrow> operator
    \<Rightarrow> 'a set \<Rightarrow> bool" where
  "updates deref rule old new opr items \<longleftrightarrow>
     (\<forall>x \<in> items. deref x = WorkPair (old x) (new x) \<and> pair_ready opr (rule x) (new x))"

definition finishes :: "'a pool_event list \<Rightarrow> 'a set" where
  "finishes es = {x. \<exists>i. Finish i x \<in> set es}"

text \<open>Whatever the order of the workers, the operator ends with exactly the changed objects queued on top.\<close>

lemma run_queues:
  assumes "pool_run deref p es p'" "updates deref rule old new (pl_op p) (finishes es)"
  shows "\<exists>rvs. pl_op p' = (pl_op p)\<lparr>op_flusher := fold flusher_Queue rvs (op_flusher (pl_op p))\<rparr>
    \<and> (\<forall>rv \<in> set rvs. \<exists>x \<in> finishes es. \<exists>now. clock_ok now \<and> pair_changed (rule x) (old x) (new x) \<and> rv = RevisionFrom now (new x))
    \<and> (\<forall>x \<in> finishes es. pair_changed (rule x) (old x) (new x) \<longrightarrow> (\<exists>now. RevisionFrom now (new x) \<in> set rvs))"
  using assms
proof (induction rule: pool_run.induct)
  case (none p)
  then show ?case by (intro exI [of _ "[]"]) (simp add: finishes_def)
next
  case (step p e p1 es p2)
  have sub: "finishes es \<subseteq> finishes (e # es)" by (auto simp: finishes_def)
  from step.hyps(1) show ?case
  proof cases
    case (finish i x now opr)
    have x: "x \<in> finishes (e # es)" "finishes (e # es) = insert x (finishes es)" using finish(1) by (auto simp: finishes_def)
    then have r: "deref x = WorkPair (old x) (new x)" "pair_ready (pl_op p) (rule x) (new x)"
      using step.prems by (simp_all add: updates_def)
    let ?new = "if pair_changed (rule x) (old x) (new x) then [RevisionFrom now (new x)] else []"
    have opr: "pl_op p1 = (pl_op p)\<lparr>op_flusher := fold flusher_Queue ?new (op_flusher (pl_op p))\<rparr>"
      using finish(2,6) process_ready [OF r(2), of now "old x"] by (auto simp: r(1) split: if_splits)
    have "updates deref rule old new (pl_op p1) (finishes es)"
      using step.prems sub unfolding opr updates_def by auto
    from step.IH [OF this] obtain rvs where rvs: "pl_op p2 = (pl_op p1)\<lparr>op_flusher := fold flusher_Queue rvs (op_flusher (pl_op p1))\<rparr>"
      "\<forall>rv \<in> set rvs. \<exists>x \<in> finishes es. \<exists>now. clock_ok now \<and> pair_changed (rule x) (old x) (new x) \<and> rv = RevisionFrom now (new x)"
      "\<forall>x \<in> finishes es. pair_changed (rule x) (old x) (new x) \<longrightarrow> (\<exists>now. RevisionFrom now (new x) \<in> set rvs)" by blast
    have "\<exists>t. clock_ok t \<and> RevisionFrom now (new x) = RevisionFrom t (new x)" using finish(5) by blast
    with rvs show ?thesis
      unfolding x(2) by (intro exI [of _ "?new @ rvs"]) (auto simp: opr split: if_splits)
  qed (use step sub in \<open>auto simp: updates_def finishes_def\<close>)
qed

text \<open>The finished items are the accepted ones when all workers have stopped.\<close>

fun accepted :: "'a pool_event list \<Rightarrow> 'a set" where
  "accepted [] = {}"
| "accepted (Shut # es) = {}"
| "accepted (Add x # es) = insert x (accepted es)"
| "accepted (e # es) = accepted es"

lemma accepted_split:
  "x \<in> accepted es \<Longrightarrow> \<exists>es1 es2. es = es1 @ Add x # es2 \<and> Shut \<notin> set es1"
proof (induction es rule: accepted.induct)
  case (3 y es)
  show ?case
  proof (cases "x = y")
    case True
    then have "Add y # es = [] @ Add x # es" by simp
    then show ?thesis by fastforce
  next
    case False
    with 3 obtain es1 es2 where "es = es1 @ Add x # es2" "Shut \<notin> set es1" by auto
    then have "Add y # es = (Add y # es1) @ Add x # es2" "Shut \<notin> set (Add y # es1)" by simp_all
    then show ?thesis by blast
  qed
qed (simp_all, (metis append_Cons pool_event.distinct set_ConsD)+)

lemma accepted_finished:
  assumes "pool_run deref p es p'" "pool_inv p" "\<not> wq_shuttingDown (pl_queue p)" "pl_workers p \<noteq> []" "all_stopped p'"
  shows "accepted es \<subseteq> finishes es"
  using accepted_processed [OF assms] accepted_split [of _ es] by (fastforce simp: finishes_def)

lemma finishes_simps [simp]:
  "finishes [] = {}"
  "finishes (e # es) = (case e of Finish i x \<Rightarrow> insert x (finishes es) | _ \<Rightarrow> finishes es)"
  by (auto simp: finishes_def split: pool_event.split)

lemma finished_accepted:
  assumes "pool_run deref p es p'" "pool_inv p"
  shows "finishes es \<subseteq> wq_dirty (pl_queue p) \<union> wq_processing (pl_queue p)
    \<union> (if wq_shuttingDown (pl_queue p) then {} else accepted es)"
  using assms
proof (induction rule: pool_run.induct)
  case (step p e p1 es p2)
  have w: "wq_inv (pl_queue p)" and h: "held (pl_workers p) (wq_processing (pl_queue p))"
    using step.prems by (simp_all add: pool_inv_def)
  note ih = step.IH [OF pool_step_inv [OF step.hyps(1) step.prems]]
  from step.hyps(1) show ?case
  proof cases
    case (take i x q)
    then show ?thesis using ih wq.get_item [OF w take(5)] by auto
  next
    case (finish i x now opr)
    then have "x \<in> wq_processing (pl_queue p)" using h by (auto simp: held_def)
    then show ?thesis using ih finish by (auto simp: wq_Done_sets)
  qed (use ih in \<open>auto simp: wq_Add_sets wq.close_sets split: if_splits\<close>)
qed simp

lemma finishes_accepted:
  assumes "pool_run deref (start_pool n opr) es p'" "all_stopped p'" "0 < n"
  shows "finishes es = accepted es"
proof
  show "finishes es \<subseteq> accepted es"
    using finished_accepted [OF assms(1) start_pool_inv] by (simp add: start_pool_def wq_New_def)
  show "accepted es \<subseteq> finishes es"
    using accepted_finished [OF assms(1) start_pool_inv _ _ assms(2)] assms(3) by (simp add: start_pool_def wq_New_def)
qed

end
