(* ===== verification/Coalesce.thy ===== *)
theory Coalesce
  imports Workers Delivery
begin

text \<open>
  From the work queue to the store: what a flush writes after the workers have processed the
  changes of a handler, in whatever order.
\<close>

lemma fl_c_fold [simp]:
  "fl_c (fold flusher_Queue rvs f) = fold (\<lambda>rv. Cache_Cache flushKeyFunc (Some rv)) rvs (fl_c f)"
  by (induction rvs arbitrary: f) (simp_all add: flusher_Queue_def)

lemma concretes_origin:
  assumes "queue_wf flushKeyFunc q" "concretes (Cache_SafeCopy q)" "concretes rvs"
  shows "concretes (Cache_SafeCopy (fold (\<lambda>rv. Cache_Cache flushKeyFunc (Some rv)) rvs q))"
proof -
  let ?q = "fold (\<lambda>rv. Cache_Cache flushKeyFunc (Some rv)) rvs q"
  have wf: "queue_wf flushKeyFunc ?q" by (rule rq.fold_cache_inv [OF assms(1)])
  have "rv \<in> set (Cache_SafeCopy q) \<or> rv \<in> set rvs" if "rv \<in> set (Cache_SafeCopy ?q)" for rv
    using that rq.copy_entries [OF wf] rq.copy_entries [OF assms(1)] rq.fold_cache_origin [OF assms(1)] by blast
  then show ?thesis using assms(2,3) unfolding concretes_def by blast
qed

text \<open>Every change that the workers queued is covered by what the next flush stores.\<close>

lemma drained_delivered:
  assumes "pool_run deref (start_pool n opr) es p" "all_stopped p" "0 < n"
    and "updates deref rule old new opr (accepted es)"
    and "\<forall>x \<in> accepted es. valid_revision (meta (RevisionFrom 0 (new x)))"
    and "healthy (storer_base (op_store opr))" "operator_wf opr" "concretes (Cache_SafeCopy (fl_c (op_flusher opr)))"
    and "x \<in> accepted es" "pair_changed (rule x) (old x) (new x)"
  shows "\<exists>f st. flusher_tick False (op_flusher (pl_op p)) (op_store (pl_op p)) = (Ok (), (f, st)) \<and> healthy (storer_base st)
    \<and> (\<exists>r u. carries st r u \<and> revision_ResourceKey r = rev_ResourceKey (RevisionFrom 0 (new x))
         \<and> ((\<exists>y \<in> accepted es. pair_changed (rule y) (old y) (new y) \<and> u = new y)
            \<or> go_get (fl_c (op_flusher opr)) (revision_ResourceKey r) = Some (ConcreteRevision r u))
         \<and> (\<forall>y \<in> accepted es. pair_changed (rule y) (old y) (new y)
              \<longrightarrow> rev_ResourceKey (RevisionFrom 0 (new y)) = revision_ResourceKey r
              \<longrightarrow> ResourceVersion (RevisionFrom 0 (new y)) \<le> resourceVersion_of r))"
proof -
  have fin: "finishes es = accepted es" by (rule finishes_accepted [OF assms(1-3)])
  have op: "pl_op (start_pool n opr) = opr" by (simp add: start_pool_def)
  obtain rvs where
    opr: "pl_op p = opr\<lparr>op_flusher := fold flusher_Queue rvs (op_flusher opr)\<rparr>"
    and src: "\<forall>rv \<in> set rvs. \<exists>y \<in> accepted es. \<exists>now. clock_ok now \<and> pair_changed (rule y) (old y) (new y) \<and> rv = RevisionFrom now (new y)"
    and has: "\<forall>y \<in> accepted es. pair_changed (rule y) (old y) (new y) \<longrightarrow> (\<exists>now. RevisionFrom now (new y) \<in> set rvs)"
    using run_queues [OF assms(1), of rule old new] assms(4) unfolding fin op by blast
  let ?q = "fl_c (op_flusher opr)" and ?q' = "fl_c (op_flusher (pl_op p))"
  have valid: "queue_valid flushKeyFunc ?q" using assms(7) by (simp add: operator_wf_def flusher_valid_def)
  then have wf: "queue_wf flushKeyFunc ?q" by (simp add: queue_valid_def)
  have q': "?q' = fold (\<lambda>rv. Cache_Cache flushKeyFunc (Some rv)) rvs ?q" by (simp add: opr)
  have "valid_revs rvs" using src assms(5) RevisionFrom_valid by (auto simp: valid_revs_def)
  then have v': "queue_valid flushKeyFunc ?q'" unfolding q' by (rule queue_valid_fold(1) [OF valid])
  have c': "concretes (Cache_SafeCopy ?q')" unfolding q'
    by (rule concretes_origin [OF wf assms(8)]) (use src in \<open>auto simp: concretes_def RevisionFrom_def split_beta\<close>)
  have h: "healthy (storer_base (op_store (pl_op p)))" using assms(6) by (simp add: opr)
  obtain f st where t: "flusher_tick False (op_flusher (pl_op p)) (op_store (pl_op p)) = (Ok (), (f, st))"
    "healthy (storer_base st)" "\<forall>k r u. go_get ?q' k = Some (ConcreteRevision r u) \<longrightarrow> carries st r u"
    using flush_delivers_all [OF h v' c'] by blast
  obtain now where now: "RevisionFrom now (new x) \<in> set rvs" using has assms(9,10) by blast
  let ?k = "rev_ResourceKey (RevisionFrom 0 (new x))"
  have key: "flushKeyFunc (RevisionFrom t u) = rev_ResourceKey (RevisionFrom 0 u)" for t u
    by (simp add: flushKeyFunc_def RevisionFrom_def revision_ResourceKey_def split_beta)
  from rq.fold_cache_covers [OF wf now] obtain rv where rv: "go_get ?q' ?k = Some rv" by (auto simp: key q')
  have wf': "queue_wf flushKeyFunc ?q'" using v' by (simp add: queue_valid_def)
  have "rv \<in> set (Cache_SafeCopy ?q')" using rv rq.copy_entries [OF wf'] rq.entry_key [OF wf' rv] by simp
  then obtain r u where ru: "rv = ConcreteRevision r u" using c' by (auto simp: concretes_def)
  have k: "revision_ResourceKey r = ?k" using rq.entry_key [OF wf' rv] by (simp add: ru flushKeyFunc_def)
  have "go_get ?q ?k = Some rv \<or> rv \<in> set rvs" using rq.fold_cache_origin [OF wf] rv unfolding q' by blast
  then have "(\<exists>y \<in> accepted es. pair_changed (rule y) (old y) (new y) \<and> u = new y)
      \<or> go_get ?q (revision_ResourceKey r) = Some (ConcreteRevision r u)"
    using src by (auto simp: k ru RevisionFrom_def split_beta)
  moreover have "ResourceVersion (RevisionFrom 0 (new y)) \<le> resourceVersion_of r"
    if y: "y \<in> accepted es" "pair_changed (rule y) (old y) (new y)"
      "rev_ResourceKey (RevisionFrom 0 (new y)) = revision_ResourceKey r" for y
  proof -
    obtain t where t: "RevisionFrom t (new y) \<in> set rvs" using has y(1,2) by blast
    from rq.fold_cache_covers [OF wf t] y(3) k rv show ?thesis
      using RevisionFrom_version [of t "new y"] by (auto simp: key q' ru ResourceVersion_def)
  qed
  ultimately show ?thesis using t rv k unfolding ru by blast
qed

section \<open>A deletion that is too old\<close>

lemma process_gone:
  assumes "storer_RuleFor (op_policy opr) (RevisionFrom now obj) (op_store opr)
      = (Ok (Some rule), (op_store opr, RevisionFrom now obj))"
    and "br_LabelSelector rule = None" "br_ResourceNames rule = [] \<or> GetName obj \<in> set (br_ResourceNames rule)"
    and "HandlerFor (op_handlers opr) (GetAPIVersion obj) (GetKind obj) (GetNamespace obj) = Some h"
    and "\<not> informer_has h (RevisionFrom now obj)" "item = WorkObject obj \<or> item = WorkDeletedFinalState obj"
  shows "processUnstructured now item opr
    = (Ok True, opr\<lparr>op_flusher := flusher_Queue (SetDeleted True (RevisionFrom now obj)) (op_flusher opr)\<rparr>)"
proof -
  let ?u = "RevisionFrom now obj"
  have h: "HandlerFor (op_handlers opr) (APIVersion ?u) (Kind ?u) (Namespace ?u) = Some h"
    using assms(4) by (simp add: RevisionFrom_def APIVersion_def Kind_def Namespace_def split_beta)
  have f: "handleResourceFilter ?u rule (op_store opr) = (Ok False, (op_store opr, ?u))"
    using assms(2,3) by (auto simp: handleResourceFilter_def)
  show ?thesis
    using assms(1,5,6) by (auto simp: processUnstructured_def item_revisions_def f h handleDeletion_cases)
qed

lemma flusher_Queue_older:
  assumes "go_get (fl_c f) (rev_ResourceKey rv) = Some q" "ResourceVersion rv \<le> ResourceVersion q"
  shows "flusher_Queue rv f = f"
  using assms by (simp add: flusher_Queue_def Cache_Cache_def flushKeyFunc_def Let_def)

end
