(* ===== verification/Workers_Props.thy ===== *)
theory Workers_Props
  imports Coalesce System_Props
begin

text \<open>
  Properties of the workers of a handler over its work queue: every item they accept is processed,
  a shut queue is drained, and the newest of the changes they process reaches the store.
\<close>

section \<open>A run of two workers\<close>

text \<open>One change is added; the queue is shut while the first worker processes it.\<close>

definition web_pair :: "unit \<Rightarrow> work_item" where "web_pair x = WorkPair web_obj web_obj2"

definition web_events :: "unit pool_event list" where
  "web_events = [Add (), Take 0 (), Shut, Finish 0 (), End 0, End 1]"

lemma web_ready: "pair_ready sample_operator spec_rule web_obj2" "pair_changed spec_rule web_obj web_obj2"
proof -
  have "\<forall>now. storer_RuleFor (op_policy sample_operator) (RevisionFrom now web_obj2) (op_store sample_operator)
      = (Ok (Some spec_rule), (op_store sample_operator, RevisionFrom now web_obj2))"
    by (simp add: sample_operator_def spec_rule_for)
  moreover have "br_LabelSelector spec_rule = None" "br_ResourceNames spec_rule = []" by (simp_all add: spec_rule_def)
  ultimately show "pair_ready sample_operator spec_rule web_obj2"
    using web_handled web_informed unfolding pair_ready_def by blast
  have "ResourceVersion (RevisionFrom 0 web_obj) \<noteq> ResourceVersion (RevisionFrom 0 web_obj2)"
    by (simp add: ResourceVersion_def web_from) (simp add: object_eval web_obj_def number_eval)
  moreover have "field_changed web_obj web_obj2 ''spec''" "''spec'' \<in> set (br_Fields spec_rule)"
    by (simp_all add: spec_rule_def field_changed_def NestedFieldNoCopy_def web_obj_def web_obj2_def)
  ultimately show "pair_changed spec_rule web_obj web_obj2" unfolding pair_changed_def by blast
qed

definition web_queued :: operator where
  "web_queued = sample_operator\<lparr>op_flusher := flusher_Queue (RevisionFrom 0 web_obj2) (op_flusher sample_operator)\<rparr>"

definition web_ended :: "unit pool" where
  "web_ended = \<lparr>pl_queue = wq_ShutDown wq_New, pl_workers = [Stopped, Stopped], pl_op = web_queued\<rparr>"

lemma web_processed: "processNextWorkItem 0 (Some (web_pair x)) sample_operator = (Ok True, web_queued)"
  using process_ready [OF web_ready(1), of 0 web_obj] web_ready(2) by (simp add: web_pair_def web_queued_def)

lemma pool_run_step: "pool_step deref p e p1 \<Longrightarrow> p1 = p' \<Longrightarrow> pool_run deref p' es p'' \<Longrightarrow> pool_run deref p (e # es) p''"
  by (auto intro: pool_run.step)

lemma pair_run: "pool_run web_pair (start_pool 2 sample_operator) web_events web_ended"
proof -
  let ?p = "\<lambda>q ws opr. \<lparr>pl_queue = q, pl_workers = ws, pl_op = opr\<rparr>"
  let ?q1 = "\<lparr>wq_queue = [()], wq_dirty = {()}, wq_processing = {}, wq_shuttingDown = False\<rparr>"
  let ?q2 = "\<lambda>s. \<lparr>wq_queue = [], wq_dirty = {}, wq_processing = {()}, wq_shuttingDown = s\<rparr>"
  let ?q3 = "\<lparr>wq_queue = [], wq_dirty = {}, wq_processing = {}, wq_shuttingDown = True\<rparr>"
  show ?thesis unfolding web_events_def
    apply (rule pool_run_step [where p' = "?p ?q1 [Waiting, Waiting] sample_operator"], rule pool_step.add)
     apply (simp add: start_pool_def wq_Add_def wq_New_def numeral_2_eq_2)
    apply (rule pool_run_step [where p' = "?p (?q2 False) [Working (), Waiting] sample_operator"], rule pool_step.take [where q = "?q2 False"])
        apply (simp_all add: wq_Get_def)
    apply (rule pool_run_step [where p' = "?p (?q2 True) [Working (), Waiting] sample_operator"], rule pool_step.shut)
     apply (simp add: wq_ShutDown_def)
    apply (rule pool_run_step [where p' = "?p ?q3 [Waiting, Waiting] web_queued"], rule pool_step.finish [where now = 0 and opr = web_queued])
        apply (simp_all add: web_processed wq_Done_def clock_ok_def unix_of_def max_int64_def)
    apply (rule pool_run_step [where p' = "?p ?q3 [Stopped, Waiting] web_queued"], rule pool_step.ends [where q = ?q3])
        apply (simp_all add: wq_Get_def)
    apply (rule pool_run_step [where p' = web_ended], rule pool_step.ends [where q = ?q3])
        apply (simp_all add: wq_Get_def web_ended_def wq_ShutDown_def wq_New_def pool_run.none)
    done
qed

lemma web_stopped: "all_stopped web_ended" by (simp add: all_stopped_def web_ended_def)

section \<open>No item is lost\<close>

text \<open>C6: the workers of a handler never process one item at the same time, and when all of them have
  stopped, each item that was added before the queue was shut has been taken after that and been
  finished by the worker that took it, in every interleaving of additions, workers and the
  shutdown.\<close>

theorem accepted_items_processed:
  assumes "pool_run deref (start_pool n opr) es p" "0 < n"
  shows "(\<forall>i j x. i < n \<longrightarrow> j < n \<longrightarrow> pl_workers p ! i = Working x \<longrightarrow> pl_workers p ! j = Working x \<longrightarrow> i = j)
    \<and> (all_stopped p \<longrightarrow> (\<forall>es1 x es2. es = es1 @ Add x # es2 \<longrightarrow> Shut \<notin> set es1
          \<longrightarrow> (\<exists>i as bs cs. es2 = as @ Take i x # bs @ Finish i x # cs)))"
proof
  have "length (pl_workers p) = n" using run_workers_length [OF assms(1)] by (simp add: start_pool_def)
  then show "\<forall>i j x. i < n \<longrightarrow> j < n \<longrightarrow> pl_workers p ! i = Working x \<longrightarrow> pl_workers p ! j = Working x \<longrightarrow> i = j"
    using pool_run_inv [OF assms(1) start_pool_inv] unfolding pool_inv_def held_def by blast
  have "\<not> wq_shuttingDown (pl_queue (start_pool n opr))" "pl_workers (start_pool n opr) \<noteq> []"
    using assms(2) by (simp_all add: start_pool_def wq_New_def)
  then show "all_stopped p \<longrightarrow> (\<forall>es1 x es2. es = es1 @ Add x # es2 \<longrightarrow> Shut \<notin> set es1
      \<longrightarrow> (\<exists>i as bs cs. es2 = as @ Take i x # bs @ Finish i x # cs))"
    using accepted_processed [OF assms(1) start_pool_inv] by blast
qed

theorem accepted_items_processed_witness:
  "\<exists>i as bs cs. tl web_events = as @ Take i () # bs @ Finish i () # cs"
proof -
  have "web_events = [] @ Add () # tl web_events" by (simp add: web_events_def)
  with accepted_items_processed [OF pair_run] web_stopped show ?thesis by fastforce
qed

text \<open>C38: once the queue has shut down, the workers make at most two steps for each item that is to do or
  being processed and one each to stop, whatever is added, and they do not get stuck: when no
  worker can make a step and no item ends the process, all have stopped.\<close>

theorem workers_drain:
  assumes "pool_run deref (start_pool n opr) es1 p1" "wq_shuttingDown (pl_queue p1)" "pool_run deref p1 es2 p2"
  shows "length (filter worker_event es2) \<le> 2 * card (wq_dirty (pl_queue p1)) + 2 * n
    \<and> ((\<forall>x. Working x \<in> set (pl_workers p2)
            \<longrightarrow> (\<exists>now opr'. clock_ok now \<and> processNextWorkItem now (Some (deref x)) (pl_op p2) = (Ok True, opr')))
         \<longrightarrow> (\<nexists>e p3. worker_event e \<and> pool_step deref p2 e p3) \<longrightarrow> all_stopped p2)"
proof -
  have inv: "pool_inv p1" by (rule pool_run_inv [OF assms(1) start_pool_inv])
  have n: "length (pl_workers p1) = n" using run_workers_length [OF assms(1)] by (simp add: start_pool_def)
  have "sum_list (map weight (pl_workers p1)) \<le> sum_list (map (\<lambda>_. 2) (pl_workers p1))"
    by (rule sum_list_mono) (rule weight_le)
  then have "sum_list (map weight (pl_workers p1)) \<le> 2 * n" using n by (simp add: sum_list_triv mult.commute)
  with run_left [OF assms(3) inv assms(2)] have "length (filter worker_event es2) \<le> 2 * card (wq_dirty (pl_queue p1)) + 2 * n"
    by (simp add: work_left_def)
  then show ?thesis
    using shut_progress [OF pool_run_inv [OF assms(3) inv]] run_left [OF assms(3) inv assms(2)] by blast
qed

text \<open>The four last steps of the run above, with the bound that holds there.\<close>

theorem workers_drain_witness:
  "\<exists>p1. pool_run web_pair (start_pool 2 sample_operator) (take 3 web_events) p1
    \<and> length (filter worker_event (drop 3 web_events)) \<le> 2 * card (wq_dirty (pl_queue p1)) + 4"
proof -
  have "web_events = take 3 web_events @ drop 3 web_events" by simp
  with pair_run obtain p1 where p: "pool_run web_pair (start_pool 2 sample_operator) (take 3 web_events) p1"
    "pool_run web_pair p1 (drop 3 web_events) web_ended" by (metis pool_run_append)
  have "wq_shuttingDown (pl_queue p1)"
    using run_open [OF p(2)] by (simp add: web_events_def web_ended_def wq_ShutDown_def)
  from workers_drain [OF p(1) this p(2)] p(1) show ?thesis by auto
qed

section \<open>The newest change reaches the store\<close>



section \<open>A late deletion\<close>

text \<open>C35: a deletion whose last known state has the version of a live revision that still waits in the
  queue is forgotten: the cache keeps the live revision, as its version is not smaller, the next
  flush stores it as a live one and leaves nothing queued for the object.  Only the next start, which
  compares the store with the cluster, notes the deletion.\<close>

theorem late_deletion_forgotten:
  assumes "storer_RuleFor (op_policy opr) (RevisionFrom now obj) (op_store opr)
      = (Ok (Some rule), (op_store opr, RevisionFrom now obj))"
    and "br_LabelSelector rule = None" "br_ResourceNames rule = [] \<or> GetName obj \<in> set (br_ResourceNames rule)"
    and "HandlerFor (op_handlers opr) (GetAPIVersion obj) (GetKind obj) (GetNamespace obj) = Some h"
    and "\<not> informer_has h (RevisionFrom now obj)"
    and "go_get (fl_c (op_flusher opr)) (rev_ResourceKey (RevisionFrom now obj)) = Some (ConcreteRevision r u)"
    and "ResourceVersion (RevisionFrom now obj) \<le> resourceVersion_of r" "\<not> deleted_of r"
    and "healthy (storer_base (op_store opr))" "operator_wf opr" "concretes (Cache_SafeCopy (fl_c (op_flusher opr)))"
  shows "processUnstructured now (WorkDeletedFinalState obj) opr = (Ok True, opr)
    \<and> (\<exists>f st. flusher_tick False (op_flusher opr) (op_store opr) = (Ok (), (f, st)) \<and> carries st r u
         \<and> (\<forall>k. go_get (fl_c f) k = None) \<and> fl_retryCache f = fl_retryCache (op_flusher opr))"
proof
  let ?del = "SetDeleted True (RevisionFrom now obj)"
  have "rev_ResourceKey ?del = rev_ResourceKey (RevisionFrom now obj)"
    "ResourceVersion ?del = ResourceVersion (RevisionFrom now obj)"
    by (simp_all add: RevisionFrom_def split_beta ResourceVersion_def revision_ResourceKey_def)
  then have "flusher_Queue ?del (op_flusher opr) = op_flusher opr"
    using flusher_Queue_older [of "op_flusher opr" ?del "ConcreteRevision r u"] assms(6,7)
    by (simp add: ResourceVersion_def)
  then show "processUnstructured now (WorkDeletedFinalState obj) opr = (Ok True, opr)"
    using process_gone [OF assms(1-5), of "WorkDeletedFinalState obj"] by simp
  have v: "queue_valid flushKeyFunc (fl_c (op_flusher opr))" using assms(10) by (simp add: operator_wf_def flusher_valid_def)
  show "\<exists>f st. flusher_tick False (op_flusher opr) (op_store opr) = (Ok (), (f, st)) \<and> carries st r u
       \<and> (\<forall>k. go_get (fl_c f) k = None) \<and> fl_retryCache f = fl_retryCache (op_flusher opr)"
    using flush_delivers_all [OF assms(9) v assms(11)] assms(6) by blast
qed

definition gone_operator :: operator where
  "gone_operator = sample_operator\<lparr>op_flusher := changed_flusher,
     op_handlers := [(''apps/v1/Deployment'', web_handler\<lparr>rh_store := []\<rparr>)]\<rparr>"

theorem late_deletion_forgotten_witness:
  "processUnstructured 0 (WorkDeletedFinalState web_obj2) gone_operator = (Ok True, gone_operator)"
proof -
  let ?o = gone_operator and ?r = "meta (RevisionFrom 0 web_obj2)"
  have rule: "storer_RuleFor (op_policy ?o) (RevisionFrom 0 web_obj2) (op_store ?o)
      = (Ok (Some spec_rule), (op_store ?o, RevisionFrom 0 web_obj2))"
    by (simp add: gone_operator_def sample_operator_def spec_rule_for)
  have r: "br_LabelSelector spec_rule = None" "br_ResourceNames spec_rule = [] \<or> GetName web_obj2 \<in> set (br_ResourceNames spec_rule)"
    by (simp_all add: spec_rule_def)
  have h: "HandlerFor (op_handlers ?o) (GetAPIVersion web_obj2) (GetKind web_obj2) (GetNamespace web_obj2)
      = Some (web_handler\<lparr>rh_store := []\<rparr>)"
    by (simp add: gone_operator_def HandlerFor_def handler_key_def object_eval web_obj2_def path_eval)
  have i: "\<not> informer_has (web_handler\<lparr>rh_store := []\<rparr>) (RevisionFrom 0 web_obj2)"
    by (simp add: informer_has_def GetByKey_def web_handler_def)
  have q: "go_get (fl_c (op_flusher ?o)) (rev_ResourceKey (RevisionFrom 0 web_obj2)) = Some (ConcreteRevision ?r web_obj2)"
    by (simp add: gone_operator_def changed_flusher_def web_from) (simp add: key_eval path_eval)
  have le: "ResourceVersion (RevisionFrom 0 web_obj2) \<le> resourceVersion_of ?r" "\<not> deleted_of ?r"
    by (simp_all add: ResourceVersion_def web_from)
  have hl: "healthy (storer_base (op_store ?o))" by (simp add: gone_operator_def sample_operator_def)
  have c: "concretes (Cache_SafeCopy (fl_c (op_flusher ?o)))"
    by (simp add: concretes_def gone_operator_def changed_flusher_def Cache_SafeCopy_def web_from)
  have wf: "operator_wf ?o"
    using changed_queue by (simp add: operator_wf_def gone_operator_def sample_operator_def flusher_valid_def store_wf_def)
      (simp add: changed_flusher_def sample_eval S3Provider_def)
  from late_deletion_forgotten [OF rule r h i q le hl wf c] show ?thesis by blast
qed

section \<open>The workers within the system\<close>

text \<open>What the workers do is a sequence of steps of the transition system, with the flushes as they are.\<close>

lemma item_valid:
  assumes "clock_ok now" "valid_revision (meta (snd (item_revisions 0 item)))"
  shows "valid_revision (meta (snd (item_revisions now item)))"
  using assms RevisionFrom_valid by (cases item) (auto simp: item_revisions_def)

lemma pool_system:
  assumes "pool_run deref p es p'" "\<forall>x \<in> finishes es. valid_revision (meta (snd (item_revisions 0 (deref x))))"
  shows "(system_step sem)\<^sup>*\<^sup>* (s\<lparr>sy_op := pl_op p\<rparr>) (s\<lparr>sy_op := pl_op p'\<rparr>)"
  using assms
proof (induction rule: pool_run.induct)
  case (step p e p1 es p2)
  from step.hyps(1) have "(system_step sem)\<^sup>*\<^sup>* (s\<lparr>sy_op := pl_op p\<rparr>) (s\<lparr>sy_op := pl_op p1\<rparr>)"
  proof cases
    case (finish i x now opr)
    have "x \<in> finishes (e # es)" by (auto simp: finishes_def finish(1))
    then have v: "valid_revision (meta (snd (item_revisions now (deref x))))"
      using item_valid [OF finish(5)] step.prems by blast
    have "processUnstructured now (deref x) (sy_op (s\<lparr>sy_op := pl_op p\<rparr>)) = (Ok True, opr)"
      using finish(6) by (simp add: processNextWorkItem_def)
    from system_step.work [OF this v] finish(2) show ?thesis by (simp add: r_into_rtranclp)
  qed simp_all
  moreover have "\<forall>x \<in> finishes es. valid_revision (meta (snd (item_revisions 0 (deref x))))"
    using step.prems by (auto simp: finishes_def)
  ultimately show ?case using step.IH by (meson rtranclp_trans)
qed simp

end
