(* ===== verification/Spec2Isabelle.thy ===== *)
theory Spec2Isabelle
  imports Store_Props Cache_Props Flush_Props Controller_Props System_Props Archive_Props
    Metrics_Props Commands_Props Durations Selectors Fakes Lifecycle_Props
    Discovery Workers_Props
begin

text \<open>
  A model of saiki, which keeps the history of the resources of a Kubernetes cluster in an object
  store.  A controller watches the resources its backup policy selects; a changed object becomes
  a revision, which a flusher writes to the store; a reaper finds revisions older than the policy
  allows and a purger removes them; commands list, restore and export what is stored.

  How the code is translated.  A Go function with an error result returns a \<open>result\<close>: \<open>Ok\<close>, \<open>Err\<close>
  with the error, or \<open>Crash\<close> for a panic or klog's Fatal, which no caller handles.  A method that
  changes its receiver takes the state and returns it updated, after the result.  A Go map is an
  association list without repeated keys whose order stands for the order of one iteration; what
  is proved about an entry does not depend on it.  A revision is a value: that a cached pointer
  could be changed by its other owners is not modelled.  A loop over a slice is a recursion over
  the list, so no fuel is needed anywhere; the one loop that runs beside others, the concurrent
  flush, is a step relation with a proof that every run of it ends.

  The theories, from the bottom.

    Go_Prelude        results, Go maps, named collections of simplification rules
    Go_Strings        the functions of strings, strconv and path that the code calls
    Unstructured      the accessors of unstructured objects (vendored apimachinery)
    Revision          pkg/store/revision.go: revisions, their keys, the parser of keys
    Blob              pkg/store/backend: the blob backend over the in-memory bucket of the vendored
                      library, with an error injected for any operation and key; its contract is
                      the locale backend_contract, a callback of Walk the locale walk_callback
    Crypt             pkg/store/crypt: the AES encrypter over a parameter for the cipher
    Handlers          pkg/handler and pkg/discovery: handlers by API version, kind and namespace
    Discovery         pkg/discovery: the clients of resources and what their informers ask the API server
    Storage           pkg/store/storage.go: List, Get, Update, Create, Delete, purging
    Store_Walk        the same file: State and Sync, which walk the backend
    InMemory          pkg/store/inmemory_getter.go; the locale revision_interface says what a reader
                      may expect of a writer
    ReadWrite         pkg/store/readwrite.go: the store with the in-memory getter in front
    Storer            construction of the store, the calls through its interface, pkg/rpo's Rotate
    Config_Store      pkg/store/config: the configuration object, resolution of resource names
    Policy            pkg/controller/policy: which rule applies to a revision
    Selectors         the same package: the decoding of a label selector, with Go's Unquote
    Durations         pkg/rpo: the JSON form of a policy's durations, with Go's printing and parsing
    Rev_Cache         pkg/controller/cache: the queue of the flusher and the purger; its interface is
                      the locale revision_cacher
    Flusher           pkg/controller/flusher and pkg/store/asyncwriter.go
    Append_Race       the same flush with its appends to the list of failures, which take no lock, split
                      in two steps
    Purger            pkg/controller/purger and pkg/controller/reaper
    Loops             the goroutines of flusher, purger and reaper over the ticks they have seen
    Fakes             pkg/fake and the fake packages: the test doubles, which agree with the real ones
    Controller        pkg/controller/controller.go: discovery, start, work items
    Well_Formed       the invariant of stores, caches and queues, and that each operation keeps it
    System            the goroutines of the operator as a transition system over its state, with the
                      flushes split into the steps of their writes; the invariant of reachable states
    Tracking          the runs of that system, and what becomes of a queued revision along them
    Delivery          what a flush does on a healthy store; from a change to the stored object
    Work_Queue        the vendored work queue of the handlers; what a worker may expect of it is the locale
                      work_source
    Workers           the workers of a handler over its work queue, as labelled steps
    Coalesce          from the work queue to the store: what the next flush writes of the changes that
                      the workers processed
    Archive           the store as a map from revisions to contents: the locales archive_store and
                      listed_archive, interpreted on the store with and without its cache
    Export            the JSON exports of pkg/store/revision.go and state.go
    Commands          cmd/revisions.go, state.go and version.go, the client of pkg/discovery that
                      applies revisions
    Lifecycle         the HTTP server, Run with what it defers, the closing of the store and the bucket
    Restarts          the process as it ends at any step and starts again on the objects it left
    Cli               the flags with their defaults, what runs before a command, the watch command
    Metrics           the metrics.go files: wrappers that thread the metrics, their registration
    Samples           a small store on which the properties are applied
    Store_Props, Cache_Props, Flush_Props, Controller_Props, System_Props, Archive_Props,
    Commands_Props, Metrics_Props, Lifecycle_Props, Workers_Props: the properties

  What is shown.  Keys: printing and parsing are inverse on valid revisions, and no two revisions
  share a key.  Store: on a well-formed backend (every object is the configuration or has the key
  of a valid revision) without injected faults, State, Sync, List and Get are characterised
  exactly by the stored revisions; Update makes the revision readable and keeps the backend well
  formed; the error paths of saving and purging are stated with any fault.  Memory: reads after
  writes, State without filters, and the panics of State with filters.  Flusher: no queued
  revision is lost, whether the writes run one by one or concurrently in any order, unless two
  failures are appended to the list at once; the concurrent flush respects its semaphore and ends.  Reaper and purger: exactly the expired candidates are
  queued and exactly the removable ones removed.  Controller: which resources are watched, which
  rule applies, when a work item queues a revision or a deletion.  System: whatever the order of
  work items, flushes, retries, purges and reaps and whatever the backend reports, store, cache
  and queues hold valid revisions under their keys, and the slots of the semaphore suffice; a
  queued revision stays queued or gives way to a newer one until it is stored or left to the
  retries.
  Workers: no item of a work queue is lost or processed twice at once, a shut queue is drained, what
  the workers do are steps of System, and whatever their order the newest accepted change of an
  object is what the next flush stores.
  Delivery: on a store without faults a change of a watched object is stored by the next flush.
  Archive: any sequence of writes and purges does to the store what it does to a map from
  revisions to contents, and what was written and not purged is listed.  Commands: what delete
  removes and apply creates, that get and state only read, where the files of a state go, what
  an export says.  Life: what the default flags build, that nothing is stored once \<open>Run\<close> has
  returned, and that a deployment stays within the reachable states through crashes and restarts.  Metrics: the wrappers change no result, what they count, when registration
  panics.

  Several properties state what the code does where it is plainly not meant: old revisions load
  the newest content, failures that are noted at once are forgotten, a deletion that the watch missed can be dropped, a lone tombstone ends the process at every start, the reaper can remove the newest
  revision, entries never leave the retry cache, deleting a revision that does not exist deletes
  them all, the time flags of the revisions command are always rejected, and resources of groups
  with similar names cannot be watched together.

  Assumptions.  The JSON codecs, the clock, the random source, the cipher, the S3 client and the
  bucket constructors are arguments of the definitions; the only law assumed of them is that a
  sealed message opens under its nonce, and that a codec reads what it wrote where a property
  says so.  Locks are not modelled: each operation of a store or cache is one step.  The append of
  the flusher's goroutines to their list of failures, which the code does without a lock, is one
  step too in theories Flusher and System; theory Append_Race splits it, shows that appends that do
  not overlap do what one step does, and that two that overlap lose a revision.  Integers are unbounded except where parsing bounds them: versions and times of valid
  revisions are within 64 bits.

  Commands take viper, the API server, the file system, the encoders and the formatting of
  durations as arguments; the number of a printed age is not looked into.  A latency is kept in
  units of the clock.

  Not modelled: the Kubernetes client, the informers and the delays of the work queues, which are
  libraries; the parsing of the command line and viper's casts; the gauges of the controller and
  the flusher beyond their registration; the decoding of policy files apart from durations and
  selectors.
\<close>

end
